(* ===== verification/Prelude.thy ===== *)
theory Prelude
  imports Main "HOL-Library.Char_ord" "HOL-Library.List_Lexorder" "HOL-Library.Word"
begin

text \<open>
  Shared vocabulary of the development: results with an error value, ordered finite maps
  (Rust's \<open>BTreeMap\<close> and \<open>HashMap\<close>, directories of numbered files, SQL tables with a primary
  key), the string functions of the Rust standard library that the sources call, decimal
  numbers, and little-endian byte strings.

  A Rust \<open>String\<close> is modelled by its bytes: \<open>string\<close> is a list of 8-bit characters, ordered
  lexicographically by \<open>Char_ord\<close> and \<open>List_Lexorder\<close>, which is the byte order of Rust's \<open>Ord\<close>
  and of SQLite's \<open>BINARY\<close> collation.
\<close>

named_theorems omap_simps \<open>lookup equations of the ordered-map operations\<close>
named_theorems wf_intros \<open>well-formedness is kept by an operation\<close>
named_theorems repo_defs \<open>definitions of repository operations\<close>

type_synonym byte = "8 word"
type_synonym bytes = "byte list"

section \<open>Results\<close>

text \<open>\<open>Inl e\<close> is Rust's \<open>Err(e)\<close>, \<open>Inr x\<close> is \<open>Ok(x)\<close>.\<close>

definition rbind :: "'e + 'a \<Rightarrow> ('a \<Rightarrow> 'e + 'b) \<Rightarrow> 'e + 'b" where
  "rbind r f = (case r of Inl e \<Rightarrow> Inl e | Inr x \<Rightarrow> f x)"

lemma rbind_simps [simp]:
  "rbind (Inl e) f = Inl e"
  "rbind (Inr x) f = f x"
  by (simp_all add: rbind_def)

lemma rbind_eq_Inr: "rbind r f = Inr y \<longleftrightarrow> (\<exists>x. r = Inr x \<and> f x = Inr y)"
  by (cases r) auto

definition ok_or :: "'e \<Rightarrow> 'a option \<Rightarrow> 'e + 'a" where
  "ok_or e r = (case r of None \<Rightarrow> Inl e | Some x \<Rightarrow> Inr x)"

lemma ok_or_simps [simp]:
  "ok_or e None = Inl e"
  "ok_or e (Some x) = Inr x"
  by (simp_all add: ok_or_def)

definition is_ok :: "'e + 'a \<Rightarrow> bool" where
  "is_ok r = (case r of Inl _ \<Rightarrow> False | Inr _ \<Rightarrow> True)"

lemma is_ok_simps [simp]: "\<not> is_ok (Inl e)" "is_ok (Inr x)"
  by (simp_all add: is_ok_def)

definition result_ok :: "'e + 'a \<Rightarrow> 'a option" where
  "result_ok r = (case r of Inl _ \<Rightarrow> None | Inr x \<Rightarrow> Some x)"

lemma result_ok_simps [simp]: "result_ok (Inl e) = None" "result_ok (Inr x) = Some x"
  by (simp_all add: result_ok_def)

definition unwrap_or :: "'a \<Rightarrow> 'a option \<Rightarrow> 'a" where
  "unwrap_or d r = (case r of None \<Rightarrow> d | Some x \<Rightarrow> x)"

lemma unwrap_or_simps [simp]: "unwrap_or d None = d" "unwrap_or d (Some x) = x"
  by (simp_all add: unwrap_or_def)

section \<open>Ordered finite maps\<close>

text \<open>
  A finite map is the list of its entries in increasing key order, so two maps with the same
  lookups are the same list (\<open>omap_eqI\<close>). Lookup is \<open>map_of\<close>.
\<close>

type_synonym ('k, 'v) omap = "('k \<times> 'v) list"

definition omap_ok :: "('k::linorder, 'v) omap \<Rightarrow> bool" where
  "omap_ok m \<longleftrightarrow> sorted_wrt (<) (map fst m)"

fun oput :: "'k::linorder \<Rightarrow> 'v \<Rightarrow> ('k, 'v) omap \<Rightarrow> ('k, 'v) omap" where
  "oput k v [] = [(k, v)]"
| "oput k v ((a, b) # m) =
     (if k < a then (k, v) # (a, b) # m
      else if k = a then (k, v) # m
      else (a, b) # oput k v m)"

definition odel :: "'k \<Rightarrow> ('k, 'v) omap \<Rightarrow> ('k, 'v) omap" where
  "odel k m = filter (\<lambda>(a, _). a \<noteq> k) m"

definition oretain :: "('k \<Rightarrow> bool) \<Rightarrow> ('k, 'v) omap \<Rightarrow> ('k, 'v) omap" where
  "oretain P m = filter (\<lambda>(a, _). P a) m"

definition okeys :: "('k, 'v) omap \<Rightarrow> 'k list" where
  "okeys m = map fst m"

definition ohas :: "('k, 'v) omap \<Rightarrow> 'k \<Rightarrow> bool" where
  "ohas m k \<longleftrightarrow> map_of m k \<noteq> None"

definition omapv :: "('k \<Rightarrow> 'v \<Rightarrow> 'w) \<Rightarrow> ('k, 'v) omap \<Rightarrow> ('k, 'w) omap" where
  "omapv f m = map (\<lambda>(k, v). (k, f k v)) m"

lemma omap_ok_Nil [simp, wf_intros]: "omap_ok []"
  by (simp add: omap_ok_def)

lemma omap_ok_Cons: "omap_ok ((a, b) # m) \<longleftrightarrow> (\<forall>k \<in> fst ` set m. a < k) \<and> omap_ok m"
  by (auto simp: omap_ok_def)

lemma set_oput_keys: "fst ` set (oput k v m) = insert k (fst ` set m)"
  by (induction k v m rule: oput.induct) auto

lemma omap_ok_oput [wf_intros, simp]: "omap_ok m \<Longrightarrow> omap_ok (oput k v m)"
  by (induction k v m rule: oput.induct) (auto simp: omap_ok_Cons set_oput_keys)

lemma ball_oput [wf_intros]:
  "\<forall>w \<in> set (map snd m). P w \<Longrightarrow> P v \<Longrightarrow> \<forall>w \<in> set (map snd (oput k v m)). P w"
  by (induction k v m rule: oput.induct) auto

lemma omap_ok_filter: "omap_ok m \<Longrightarrow> omap_ok (filter Q m)"
  by (induction m) (auto simp: omap_ok_Cons)

lemma omap_ok_odel [wf_intros, simp]: "omap_ok m \<Longrightarrow> omap_ok (odel k m)"
  by (simp add: odel_def omap_ok_filter)

lemma omap_ok_oretain [wf_intros, simp]: "omap_ok m \<Longrightarrow> omap_ok (oretain P m)"
  by (simp add: oretain_def omap_ok_filter)

lemma map_fst_omapv [simp]: "map fst (omapv f m) = map fst m"
  by (induction m) (auto simp: omapv_def)

lemma omap_ok_omapv [wf_intros, simp]: "omap_ok (omapv f m) = omap_ok m"
  by (simp add: omap_ok_def)

lemma omap_ok_sorted: "omap_ok m \<Longrightarrow> sorted (map fst m) \<and> distinct (map fst m)"
  by (simp add: omap_ok_def strict_sorted_iff)

lemmas omap_ok_distinct = omap_ok_sorted [THEN conjunct2]

lemma map_of_oput [omap_simps]: "map_of (oput k v m) = (map_of m)(k \<mapsto> v)"
  by (induction k v m rule: oput.induct) (auto simp: fun_eq_iff)

lemma map_of_odel [omap_simps]: "map_of (odel k m) = (map_of m)(k := None)"
  by (induction m) (auto simp: odel_def fun_eq_iff)

lemma map_of_oretain [omap_simps]:
  "map_of (oretain P m) k = (if P k then map_of m k else None)"
  by (induction m) (auto simp: oretain_def)

lemma map_of_omapv [omap_simps]: "map_of (omapv f m) k = map_option (f k) (map_of m k)"
  by (induction m) (auto simp: omapv_def)

lemma ohas_iff [omap_simps]: "ohas m k \<longleftrightarrow> k \<in> dom (map_of m)"
  by (auto simp: ohas_def)

lemma set_okeys: "set (okeys m) = dom (map_of m)"
  by (simp add: okeys_def dom_map_of_conv_image_fst)

lemma sorted_okeys: "omap_ok m \<Longrightarrow> sorted_wrt (<) (okeys m)"
  by (simp add: omap_ok_def okeys_def)

lemma omap_Cons_lookup:
  assumes "omap_ok ((a, b) # m)"
  shows "map_of m a = None" and "k < a \<Longrightarrow> map_of m k = None"
  using assms by (force simp: omap_ok_Cons map_of_eq_None_iff)+

text \<open>Maps with equal lookups are equal.\<close>

lemma omap_eqI:
  assumes "omap_ok m" and "omap_ok n" and "map_of m = map_of n"
  shows "m = n"
proof -
  note srt = omap_ok_sorted [OF assms(1)] omap_ok_sorted [OF assms(2)]
  have eq: "set m = set n"
    using srt assms(3) by (simp add: map_of_inject_set)
  have "inj_on fst (set m \<union> set n)"
    using srt eq by (simp add: distinct_map)
  with srt eq show ?thesis
    by (intro map_sorted_distinct_set_unique [of fst]) auto
qed

section \<open>Overlaying changes on a map\<close>

text \<open>
  \<open>P\<close> gives the keys that change: \<open>Some (Some v)\<close> is a new value, \<open>Some None\<close> a deletion,
  which also removes the unchanged keys below the deleted one (\<open>B d k\<close>: \<open>k\<close> is below \<open>d\<close>).
\<close>

definition overlay_by :: "('k \<Rightarrow> 'k \<Rightarrow> bool) \<Rightarrow> ('k \<rightharpoonup> 'v option) \<Rightarrow> ('k \<rightharpoonup> 'v) \<Rightarrow> ('k \<rightharpoonup> 'v)" where
  "overlay_by B P m q =
     (case P q of Some x \<Rightarrow> x
      | None \<Rightarrow> if \<exists>a. P a = Some None \<and> B a q then None else m q)"

lemma overlay_by_empty [simp]: "overlay_by B Map.empty m = m"
  by (simp add: overlay_by_def fun_eq_iff)

lemma overlay_by_cons:
  assumes "P p = None" and "\<And>a. P a = Some None \<Longrightarrow> \<not> B a p"
  shows "overlay_by B P (\<lambda>q. if q = p then x else if x = None \<and> B p q then None else m q) =
         overlay_by B (P(p \<mapsto> x)) m"
  using assms
  by (auto simp: overlay_by_def fun_eq_iff split: option.split if_splits) (metis option.distinct(1))

text \<open>Adding one more change to an overlay, where the overlay already is the whole effect.\<close>

lemma overlay_by_upsert:
  assumes "P p = Some None \<Longrightarrow> \<forall>q. B p q \<longrightarrow> m q = None"
  shows "overlay_by B (P(p \<mapsto> Some v)) m = (overlay_by B P m)(p \<mapsto> v)"
  using assms
  by (auto simp: overlay_by_def fun_eq_iff split: option.split if_splits) (metis)

lemma overlay_by_delete:
  assumes "\<forall>q. B p q \<longrightarrow> P q \<in> {None, Some None}"
  shows "overlay_by B (P(p \<mapsto> None)) m = (\<lambda>q. if q = p \<or> B p q then None else overlay_by B P m q)"
  using assms by (auto simp: overlay_by_def fun_eq_iff split: option.split if_splits)

section \<open>The key-value interface\<close>

text \<open>
  What every keyed container of the sources promises to its clients: a \<open>put\<close> is seen by the
  next \<open>get\<close> of that key and by no other, a \<open>del\<close> removes one key, and states with the same
  lookups are the same state.
\<close>

locale key_value =
  fixes wf :: "'m \<Rightarrow> bool"
    and empty :: 'm
    and get :: "'m \<Rightarrow> 'k \<Rightarrow> 'v option"
    and put :: "'k \<Rightarrow> 'v \<Rightarrow> 'm \<Rightarrow> 'm"
    and del :: "'k \<Rightarrow> 'm \<Rightarrow> 'm"
  assumes wf_empty: "wf empty"
    and wf_put: "wf m \<Longrightarrow> wf (put k v m)"
    and wf_del: "wf m \<Longrightarrow> wf (del k m)"
    and get_empty: "get empty k = None"
    and get_put: "wf m \<Longrightarrow> get (put k v m) = (get m)(k \<mapsto> v)"
    and get_del: "wf m \<Longrightarrow> get (del k m) = (get m)(k := None)"
    and get_ext: "wf m \<Longrightarrow> wf n \<Longrightarrow> get m = get n \<Longrightarrow> m = n"
begin

lemma put_put_same: "wf m \<Longrightarrow> put k v (put k w m) = put k v m"
  by (rule get_ext) (simp_all add: wf_put get_put)

lemma put_put_commute:
  assumes "wf m" and "k \<noteq> l"
  shows "put k v (put l w m) = put l w (put k v m)"
  using assms by (intro get_ext) (auto simp: wf_put get_put fun_upd_twist)

lemma del_put_same: "wf m \<Longrightarrow> del k (put k v m) = del k m"
  by (rule get_ext) (simp_all add: wf_put wf_del get_put get_del)

lemma del_absent: "wf m \<Longrightarrow> get m k = None \<Longrightarrow> del k m = m"
  by (rule get_ext) (auto simp: wf_del get_del fun_eq_iff)

lemma put_present: "wf m \<Longrightarrow> get m k = Some v \<Longrightarrow> put k v m = m"
  by (rule get_ext) (auto simp: wf_put get_put fun_eq_iff)

lemma empty_unique: "wf m \<Longrightarrow> (\<And>k. get m k = None) \<Longrightarrow> m = empty"
  by (rule get_ext) (auto simp: wf_empty get_empty fun_eq_iff)

end

interpretation om: key_value omap_ok "[]" map_of oput odel
  by unfold_locales (auto simp: omap_simps intro: omap_eqI)

section \<open>Strings\<close>

text \<open>\<open>str::starts_with\<close>, \<open>str::strip_prefix\<close>, \<open>str::ends_with\<close>.\<close>

fun starts_with :: "'a list \<Rightarrow> 'a list \<Rightarrow> bool" where
  "starts_with s [] = True"
| "starts_with [] (p # ps) = False"
| "starts_with (c # s) (p # ps) = (c = p \<and> starts_with s ps)"

lemma starts_with_iff: "starts_with s p \<longleftrightarrow> (\<exists>t. s = p @ t)"
  by (induction s p rule: starts_with.induct) auto

lemma starts_with_append [simp]: "starts_with (p @ t) p"
  by (auto simp: starts_with_iff)

lemma starts_with_refl [simp]: "starts_with p p"
  by (auto simp: starts_with_iff)

lemma starts_with_trans: "starts_with s q \<Longrightarrow> starts_with q p \<Longrightarrow> starts_with s p"
  by (auto simp: starts_with_iff)

lemma starts_with_length: "starts_with s p \<Longrightarrow> length p \<le> length s"
  by (auto simp: starts_with_iff)

definition strip_prefix :: "'a list \<Rightarrow> 'a list \<Rightarrow> 'a list option" where
  "strip_prefix s p = (if starts_with s p then Some (drop (length p) s) else None)"

lemma strip_prefix_Some_iff: "strip_prefix s p = Some t \<longleftrightarrow> s = p @ t"
  by (auto simp: strip_prefix_def starts_with_iff)

lemma strip_prefix_append [simp]: "strip_prefix (p @ t) p = Some t"
  by (simp add: strip_prefix_Some_iff)

definition ends_with :: "'a list \<Rightarrow> 'a list \<Rightarrow> bool" where
  "ends_with s p = starts_with (rev s) (rev p)"

lemma ends_with_iff: "ends_with s p \<longleftrightarrow> (\<exists>t. s = t @ p)"
proof
  assume "ends_with s p"
  then obtain t where "rev s = rev p @ t"
    by (auto simp: ends_with_def starts_with_iff)
  then have "rev (rev s) = rev (rev p @ t)" by simp
  then show "\<exists>t. s = t @ p" by auto
qed (auto simp: ends_with_def)

text \<open>\<open>trim_start_matches\<close> and \<open>trim_end_matches\<close> with a character pattern.\<close>

definition trim_start_matches :: "'a \<Rightarrow> 'a list \<Rightarrow> 'a list" where
  "trim_start_matches c s = dropWhile (\<lambda>x. x = c) s"

definition trim_end_matches :: "'a \<Rightarrow> 'a list \<Rightarrow> 'a list" where
  "trim_end_matches c s = rev (dropWhile (\<lambda>x. x = c) (rev s))"

lemma trim_start_matches_idem [simp]:
  "trim_start_matches c (trim_start_matches c s) = trim_start_matches c s"
  by (simp add: trim_start_matches_def)

lemma trim_start_matches_Cons [simp]:
  "trim_start_matches c (c # s) = trim_start_matches c s"
  by (simp add: trim_start_matches_def)

lemma trim_start_matches_id: "s = [] \<or> hd s \<noteq> c \<Longrightarrow> trim_start_matches c s = s"
  by (cases s) (auto simp: trim_start_matches_def)

text \<open>\<open>str::trim\<close> on the ASCII white space characters.\<close>

definition is_space :: "char \<Rightarrow> bool" where
  "is_space c \<longleftrightarrow> c \<in> {CHR '' '', CHR 0x09, CHR 0x0A, CHR 0x0B, CHR 0x0C, CHR 0x0D}"

definition trim :: "string \<Rightarrow> string" where
  "trim s = rev (dropWhile is_space (rev (dropWhile is_space s)))"

text \<open>\<open>str::split\<close> on a character: never empty, and joining undoes it.\<close>

fun split :: "'a \<Rightarrow> 'a list \<Rightarrow> 'a list list" where
  "split c [] = [[]]"
| "split c (x # xs) =
     (if x = c then [] # split c xs
      else (case split c xs of [] \<Rightarrow> [[x]] | w # ws \<Rightarrow> (x # w) # ws))"

fun join_with :: "'a \<Rightarrow> 'a list list \<Rightarrow> 'a list" where
  "join_with c [] = []"
| "join_with c [w] = w"
| "join_with c (w # ws) = w @ c # join_with c ws"

lemma split_nonempty [simp]: "split c s \<noteq> []"
  by (induction s) (auto split: list.splits)

lemma join_with_Cons: "ws \<noteq> [] \<Longrightarrow> join_with c (w # ws) = w @ c # join_with c ws"
  by (cases ws) auto

lemma join_split: "join_with c (split c s) = s"
proof (induction s)
  case (Cons x xs)
  obtain w ws where w: "split c xs = w # ws" by (cases "split c xs") auto
  with Cons.IH show ?case
    by (cases "x = c"; cases ws) auto
qed simp

lemma split_no_sep: "w \<in> set (split c s) \<Longrightarrow> c \<notin> set w"
proof (induction s arbitrary: w)
  case (Cons x xs)
  then show ?case
    by (cases "split c xs") (auto split: if_splits)
qed simp

lemma split_id: "c \<notin> set s \<Longrightarrow> split c s = [s]"
  by (induction s) auto

lemma split_append: "c \<notin> set w \<Longrightarrow> split c (w @ c # s) = w # split c s"
  by (induction w) auto

text \<open>\<open>splitn(2, c)\<close> and \<open>split_once(c)\<close>: the text before and after the first separator.\<close>

fun split_once :: "'a \<Rightarrow> 'a list \<Rightarrow> ('a list \<times> 'a list) option" where
  "split_once c [] = None"
| "split_once c (x # xs) =
     (if x = c then Some ([], xs)
      else map_option (\<lambda>(a, b). (x # a, b)) (split_once c xs))"

lemma split_once_append [simp]: "c \<notin> set a \<Longrightarrow> split_once c (a @ c # b) = Some (a, b)"
  by (induction a) auto

lemma split_once_SomeD: "split_once c s = Some (a, b) \<Longrightarrow> s = a @ c # b \<and> c \<notin> set a"
  by (induction s arbitrary: a) (auto split: if_splits)

lemma split_once_None: "split_once c s = None \<longleftrightarrow> c \<notin> set s"
  by (induction s) auto

text \<open>\<open>str::find\<close> with a string pattern: the offset of the first occurrence.\<close>

fun find_sub :: "'a list \<Rightarrow> 'a list \<Rightarrow> nat option" where
  "find_sub [] p = (if p = [] then Some 0 else None)"
| "find_sub (c # s) p =
     (if starts_with (c # s) p then Some 0 else map_option Suc (find_sub s p))"

definition contains_sub :: "'a list \<Rightarrow> 'a list \<Rightarrow> bool" where
  "contains_sub s p \<longleftrightarrow> find_sub s p \<noteq> None"

lemma find_sub_Some: "find_sub s p = Some i \<Longrightarrow> i + length p \<le> length s \<and> take (length p) (drop i s) = p"
proof (induction s arbitrary: i)
  case (Cons c s)
  then show ?case
  proof (cases "starts_with (c # s) p")
    case True
    with Cons.prems show ?thesis
      using starts_with_length [OF True] by (auto simp: starts_with_iff)
  qed auto
qed (auto split: if_splits)

lemma find_sub_first: "find_sub s p = Some i \<Longrightarrow> j < i \<Longrightarrow> \<not> starts_with (drop j s) p"
proof (induction s arbitrary: i j)
  case (Cons c s)
  then show ?case by (cases j) (auto split: if_splits)
qed (auto split: if_splits)

lemma find_sub_None: "find_sub s p = None \<longleftrightarrow> (\<nexists>a b. s = a @ p @ b)"
proof (induction s)
  case (Cons c s)
  have "(\<exists>a b. c # s = a @ p @ b) \<longleftrightarrow> starts_with (c # s) p \<or> (\<exists>a b. s = a @ p @ b)"
    by (auto simp: starts_with_iff Cons_eq_append_conv)
  with Cons show ?case by simp
qed auto

text \<open>A path strictly below a directory path, as the sources test it.\<close>

definition below :: "string \<Rightarrow> string \<Rightarrow> bool" where
  "below d p = starts_with p (d @ ''/'')"

lemma below_less: "below d p \<Longrightarrow> d < p"
  by (auto simp: below_def starts_with_iff List_Lexorder.list_less_def lexord_def)

lemma below_trans: "below a b \<Longrightarrow> below b c \<Longrightarrow> below a c"
  by (auto simp: below_def starts_with_iff)

lemma below_irrefl [simp]: "\<not> below p p"
  using below_less [of p p] by blast

section \<open>Decimal numbers\<close>

text \<open>\<open>u64::to_string\<close> and \<open>str::parse::<u64>\<close>: an optional \<open>+\<close>, at least one digit, no overflow.\<close>

definition digit_char :: "nat \<Rightarrow> char" where
  "digit_char d = char_of (48 + d)"

fun show_nat :: "nat \<Rightarrow> string" where
  "show_nat n = (if n < 10 then [digit_char n] else show_nat (n div 10) @ [digit_char (n mod 10)])"

declare show_nat.simps [simp del]

definition digit_val :: "char \<Rightarrow> nat option" where
  "digit_val c = (if 48 \<le> (of_char c :: nat) \<and> (of_char c :: nat) \<le> 57 then Some (of_char c - 48) else None)"

fun digits_val :: "nat \<Rightarrow> string \<Rightarrow> nat option" where
  "digits_val acc [] = Some acc"
| "digits_val acc (c # cs) =
     (case digit_val c of None \<Rightarrow> None | Some d \<Rightarrow> digits_val (10 * acc + d) cs)"

definition parse_u64 :: "string \<Rightarrow> nat option" where
  "parse_u64 s =
     (let t = (case s of c # cs \<Rightarrow> if c = CHR ''+'' then cs else s | [] \<Rightarrow> s)
      in if t = [] then None
         else (case digits_val 0 t of None \<Rightarrow> None
               | Some n \<Rightarrow> if n < 2 ^ 64 then Some n else None))"

lemma digit_val_digit_char [simp]: "d < 10 \<Longrightarrow> digit_val (digit_char d) = Some d"
  by (simp add: digit_val_def digit_char_def)

lemma digits_val_append:
  "digits_val acc (s @ t) = (case digits_val acc s of None \<Rightarrow> None | Some a \<Rightarrow> digits_val a t)"
  by (induction s arbitrary: acc) (auto split: option.splits)

lemma digits_val_show_nat: "digits_val 0 (show_nat n) = Some n"
proof (induction n rule: show_nat.induct)
  case (1 n)
  then show ?case
    by (cases "n < 10") (simp_all add: show_nat.simps [of n] digits_val_append)
qed

lemma show_nat_digits: "c \<in> set (show_nat n) \<Longrightarrow> digit_val c \<noteq> None"
proof (induction n rule: show_nat.induct)
  case (1 n)
  then show ?case
    by (cases "n < 10") (auto simp: show_nat.simps [of n])
qed

lemma show_nat_nonempty [simp]: "show_nat n \<noteq> []"
  by (simp add: show_nat.simps [of n])

lemma show_nat_no_plus: "hd (show_nat n) \<noteq> CHR ''+''"
proof -
  have "digit_val (hd (show_nat n)) \<noteq> None"
    by (rule show_nat_digits [of _ n]) simp
  then show ?thesis by (auto simp: digit_val_def)
qed

lemma parse_show_nat:
  assumes "n < 2 ^ 64"
  shows "parse_u64 (show_nat n) = Some n"
proof -
  obtain c cs where c: "show_nat n = c # cs" by (cases "show_nat n") auto
  moreover have "c \<noteq> CHR ''+''" using show_nat_no_plus [of n] c by simp
  moreover have "digits_val 0 (c # cs) = Some n" using digits_val_show_nat [of n] c by simp
  ultimately show ?thesis using assms by (simp add: parse_u64_def del: digits_val.simps)
qed

lemma show_nat_no_space: "c \<in> set (show_nat n) \<Longrightarrow> \<not> is_space c"
  using show_nat_digits [of c n] by (auto simp: digit_val_def is_space_def split: if_splits)

lemma dropWhile_none: "(\<And>x. x \<in> set xs \<Longrightarrow> \<not> P x) \<Longrightarrow> dropWhile P xs = xs"
  by (cases xs) auto

lemma trim_show_nat [simp]: "trim (show_nat n) = show_nat n"
  using dropWhile_none [of "show_nat n" is_space] dropWhile_none [of "rev (show_nat n)" is_space]
  by (simp add: trim_def show_nat_no_space [of _ n])

definition show_int :: "int \<Rightarrow> string" where
  "show_int i = (if i < 0 then CHR ''-'' # show_nat (nat (- i)) else show_nat (nat i))"

section \<open>Lines, prefixes and case\<close>

text \<open>\<open>str::lines\<close>: split at line feeds, a carriage return before one is dropped, and a last empty piece is not a line.\<close>

definition strip_cr :: "string \<Rightarrow> string" where
  "strip_cr l = (if ends_with l [CHR 0x0D] then butlast l else l)"

definition str_lines :: "string \<Rightarrow> string list" where
  "str_lines s = (let ws = split (CHR 0x0A) s in map strip_cr (if last ws = [] then butlast ws else ws))"

definition to_lower :: "string \<Rightarrow> string" where
  "to_lower s = map (\<lambda>c. if 65 \<le> (of_char c :: nat) \<and> (of_char c :: nat) \<le> 90 then char_of ((of_char c :: nat) + 32) else c) s"

text \<open>\<open>s[..s.rfind(c)?]\<close>: what precedes the last occurrence of a character.\<close>

definition before_last :: "'a \<Rightarrow> 'a list \<Rightarrow> 'a list option" where
  "before_last c s = (if c \<in> set s then Some (rev (tl (dropWhile (\<lambda>x. x \<noteq> c) (rev s)))) else None)"

lemma before_last_append [simp]:
  assumes "c \<notin> set b"
  shows "before_last c (a @ c # b) = Some a"
proof -
  have "dropWhile (\<lambda>x. x \<noteq> c) (rev b @ c # rev a) = c # rev a"
    using assms by (subst dropWhile_append2) auto
  then show ?thesis by (simp add: before_last_def)
qed

lemma before_last_SomeD: "before_last c s = Some a \<Longrightarrow> \<exists>b. s = a @ c # b \<and> c \<notin> set b"
  by (metis before_last_append before_last_def option.discI option.inject split_list_last)

lemma before_last_shorter: "before_last c s = Some a \<Longrightarrow> length a < length s"
  by (drule before_last_SomeD) auto

section \<open>Text as bytes\<close>

text \<open>A string is modelled by its bytes, one \<open>char\<close> each; \<open>str::as_bytes\<close> only changes the type.\<close>

definition char_byte :: "char \<Rightarrow> byte" where
  "char_byte c = of_nat (of_char c)"

definition byte_char :: "byte \<Rightarrow> char" where
  "byte_char b = char_of (unat b)"

lemma of_char_less [simp]: "(of_char c :: nat) < 256"
  by (metis of_char_mod_256 mod_less_divisor zero_less_numeral)

lemma unat_char_byte [simp]: "unat (char_byte c) = of_char c"
  by (simp add: char_byte_def unat_of_nat)

lemma unat_byte_less: "unat (b :: byte) < 256"
  using unsigned_less [of b, where 'a = nat] by simp

lemma byte_char_byte [simp]: "byte_char (char_byte c) = c"
  by (simp add: byte_char_def)

lemma char_byte_char [simp]: "char_byte (byte_char b) = b"
proof -
  have "unat b < 256" by (rule unat_byte_less)
  then have "of_char (char_of (unat b) :: char) = unat b" by simp
  then show ?thesis by (simp add: char_byte_def byte_char_def)
qed

lemma char_byte_eq [simp]: "char_byte c = char_byte d \<longleftrightarrow> c = d"
  by (metis byte_char_byte)

lemma byte_char_comp [simp]: "byte_char \<circ> char_byte = (\<lambda>c. c)" "char_byte \<circ> byte_char = (\<lambda>b. b)"
  by (simp_all add: fun_eq_iff)

section \<open>Little-endian bytes\<close>

fun le_bytes :: "nat \<Rightarrow> nat \<Rightarrow> bytes" where
  "le_bytes 0 x = []"
| "le_bytes (Suc n) x = of_nat x # le_bytes n (x div 256)"

fun le_nat :: "bytes \<Rightarrow> nat" where
  "le_nat [] = 0"
| "le_nat (b # bs) = unat b + 256 * le_nat bs"

lemma length_le_bytes [simp]: "length (le_bytes n x) = n"
  by (induction n arbitrary: x) auto

lemma unat_of_nat_byte [simp]: "unat (of_nat x :: byte) = x mod 256"
  by (simp add: unat_of_nat take_bit_eq_mod)

lemma le_nat_le_bytes: "le_nat (le_bytes n x) = x mod 256 ^ n"
  by (induction n arbitrary: x) (simp_all add: mod_mult2_eq mult.commute)

lemma le_nat_le_bytes_id: "x < 256 ^ n \<Longrightarrow> le_nat (le_bytes n x) = x"
  by (simp add: le_nat_le_bytes)

lemma le_nat_bound: "le_nat bs < 256 ^ length bs"
proof (induction bs)
  case (Cons b bs)
  have "unat b < 256" using unsigned_less [of b, where 'a = nat] by simp
  with Cons show ?case by simp
qed simp

text \<open>\<open>x as u32\<close> on a length.\<close>

definition as_u32 :: "nat \<Rightarrow> nat" where
  "as_u32 n = n mod 2 ^ 32"

lemma as_u32_id: "n < 2 ^ 32 \<Longrightarrow> as_u32 n = n"
  by (simp add: as_u32_def)

end
