(* ===== verification/Object_Model.thy ===== *)
theory Object_Model
  imports Prelude
begin

text \<open>
  The object model of \<open>dsvn-core/src/object.rs\<close>: content-addressed blobs, trees and commits,
  and the delta trees a commit stores. The hash function (crate \<open>sha2\<close>), the hexadecimal
  codec (crate \<open>hex\<close>) and the binary codec (crate \<open>bincode\<close> with the derived \<open>serde\<close>
  implementations) are fields of the record \<open>externals\<close>; what the code relies on is
  \<open>externals_ok\<close>. Serialising these types into a vector does not fail, so the encoders are
  total; decoding arbitrary bytes may fail.
\<close>

section \<open>Data\<close>

datatype object_id = ObjectId (as_bytes: bytes)

instantiation object_id :: linorder
begin

definition less_eq_object_id :: "object_id \<Rightarrow> object_id \<Rightarrow> bool" where
  "a \<le> b \<longleftrightarrow> as_bytes a \<le> as_bytes b"

definition less_object_id :: "object_id \<Rightarrow> object_id \<Rightarrow> bool" where
  "a < b \<longleftrightarrow> as_bytes a < as_bytes b"

instance
  by standard
    (auto simp: less_eq_object_id_def less_object_id_def intro: object_id.expand)

end

datatype object_kind = KBlob | KTree | KCommit

record blob =
  blob_data :: bytes
  blob_size :: nat
  blob_executable :: bool

record tree_entry =
  te_name :: string
  te_id :: object_id
  te_kind :: object_kind
  te_mode :: "32 word"

record tree =
  entries :: "(string, tree_entry) omap"

record commit =
  tree_id :: object_id
  parents :: "object_id list"
  author :: string
  message :: string
  timestamp :: int
  tz_offset :: int

datatype tree_change =
    Upsert (change_path: string) tree_entry
  | Delete (change_path: string)

record delta_tree =
  parent_rev :: nat
  changes :: "tree_change list"
  total_entries :: nat

datatype object = OBlob blob | OTree tree | OCommit commit

section \<open>External functions\<close>

record externals =
  sha256 :: "bytes \<Rightarrow> bytes"
  hex_encode :: "bytes \<Rightarrow> string"
  hex_decode :: "string \<Rightarrow> bytes option"
  ser_blob :: "bytes \<times> bool \<Rightarrow> bytes"
  de_blob :: "bytes \<Rightarrow> (bytes \<times> bool) option"
  ser_tree :: "tree \<Rightarrow> bytes"
  de_tree :: "bytes \<Rightarrow> tree option"
  ser_commit :: "commit \<Rightarrow> bytes"
  de_commit :: "bytes \<Rightarrow> commit option"
  ser_delta :: "delta_tree \<Rightarrow> bytes"
  de_delta :: "bytes \<Rightarrow> delta_tree option"

text \<open>
  The documented behaviour the code relies on: a SHA-256 digest has 32 bytes, and decoding
  undoes encoding. A \<open>BTreeMap\<close> is decoded into key order, so the tree law speaks of ordered
  trees only.
\<close>

definition externals_ok :: "('x) externals_scheme \<Rightarrow> bool" where
  "externals_ok E \<longleftrightarrow>
     (\<forall>d. length (sha256 E d) = 32) \<and>
     (\<forall>b. hex_decode E (hex_encode E b) = Some b) \<and>
     (\<forall>b. de_blob E (ser_blob E b) = Some b) \<and>
     (\<forall>t. omap_ok (entries t) \<longrightarrow> de_tree E (ser_tree E t) = Some t) \<and>
     (\<forall>c. de_commit E (ser_commit E c) = Some c) \<and>
     (\<forall>d. de_delta E (ser_delta E d) = Some d)"

lemma externals_okD:
  assumes "externals_ok E"
  shows "length (sha256 E d) = 32" and "hex_decode E (hex_encode E b) = Some b"
    and "de_blob E (ser_blob E x) = Some x"
    and "omap_ok (entries t) \<Longrightarrow> de_tree E (ser_tree E t) = Some t"
    and "de_commit E (ser_commit E c) = Some c" and "de_delta E (ser_delta E dt) = Some dt"
  using assms by (cases x; simp add: externals_ok_def)+

section \<open>Object identifiers\<close>

definition oid_ok :: "object_id \<Rightarrow> bool" where
  "oid_ok i \<longleftrightarrow> length (as_bytes i) = 32"

definition from_data :: "('x) externals_scheme \<Rightarrow> bytes \<Rightarrow> object_id" where
  "from_data E d = ObjectId (sha256 E d)"

definition to_hex :: "('x) externals_scheme \<Rightarrow> object_id \<Rightarrow> string" where
  "to_hex E i = hex_encode E (as_bytes i)"

datatype from_hex_error = HexDecodeError | InvalidStringLength

definition from_hex :: "('x) externals_scheme \<Rightarrow> string \<Rightarrow> from_hex_error + object_id" where
  "from_hex E s =
     (case hex_decode E s of
        None \<Rightarrow> Inl HexDecodeError
      | Some bs \<Rightarrow> if length bs \<noteq> 32 then Inl InvalidStringLength else Inr (ObjectId bs))"

lemma from_data_ok [simp, wf_intros]: "externals_ok E \<Longrightarrow> oid_ok (from_data E d)"
  by (simp add: oid_ok_def from_data_def externals_okD)

lemma from_hex_ok: "from_hex E s = Inr i \<Longrightarrow> oid_ok i"
  by (auto simp: from_hex_def oid_ok_def split: option.splits if_splits)

section \<open>Blobs\<close>

definition blob_new :: "bytes \<Rightarrow> bool \<Rightarrow> blob" where
  "blob_new d x = \<lparr>blob_data = d, blob_size = length d, blob_executable = x\<rparr>"

definition blob_from_bytes :: "bytes \<Rightarrow> blob" where
  "blob_from_bytes d = blob_new d False"

definition blob_id :: "('x) externals_scheme \<Rightarrow> blob \<Rightarrow> object_id" where
  "blob_id E b = from_data E (blob_data b)"

text \<open>The field \<open>size\<close> is marked \<open>serde(skip)\<close>: it is not written, and reads back as 0.\<close>

definition blob_to_bytes :: "('x) externals_scheme \<Rightarrow> blob \<Rightarrow> bytes" where
  "blob_to_bytes E b = ser_blob E (blob_data b, blob_executable b)"

definition blob_deserialize :: "('x) externals_scheme \<Rightarrow> bytes \<Rightarrow> blob option" where
  "blob_deserialize E bs =
     map_option (\<lambda>(d, x). \<lparr>blob_data = d, blob_size = 0, blob_executable = x\<rparr>) (de_blob E bs)"

lemma blob_roundtrip:
  "externals_ok E \<Longrightarrow> blob_deserialize E (blob_to_bytes E b) = Some (b\<lparr>blob_size := 0\<rparr>)"
  by (simp add: blob_deserialize_def blob_to_bytes_def externals_okD)

lemma blob_new_simps [simp]:
  "blob_data (blob_new d x) = d" "blob_executable (blob_new d x) = x"
  "blob_id E (blob_new d x) = from_data E d"
  by (simp_all add: blob_new_def blob_id_def)

section \<open>Trees\<close>

definition tree_entry_new :: "string \<Rightarrow> object_id \<Rightarrow> object_kind \<Rightarrow> 32 word \<Rightarrow> tree_entry" where
  "tree_entry_new n i k m = \<lparr>te_name = n, te_id = i, te_kind = k, te_mode = m\<rparr>"

definition tree_new :: tree where
  "tree_new = \<lparr>entries = []\<rparr>"

definition tree_insert :: "tree_entry \<Rightarrow> tree \<Rightarrow> tree" where
  "tree_insert e t = t\<lparr>entries := oput (te_name e) e (entries t)\<rparr>"

definition tree_remove :: "string \<Rightarrow> tree \<Rightarrow> tree_entry option \<times> tree" where
  "tree_remove n t = (map_of (entries t) n, t\<lparr>entries := odel n (entries t)\<rparr>)"

definition tree_get :: "tree \<Rightarrow> string \<Rightarrow> tree_entry option" where
  "tree_get t n = map_of (entries t) n"

definition tree_iter :: "tree \<Rightarrow> tree_entry list" where
  "tree_iter t = map snd (entries t)"

definition tree_to_bytes :: "('x) externals_scheme \<Rightarrow> tree \<Rightarrow> bytes" where
  "tree_to_bytes E t = ser_tree E t"

definition tree_from_bytes :: "('x) externals_scheme \<Rightarrow> bytes \<Rightarrow> tree option" where
  "tree_from_bytes E bs = de_tree E bs"

definition tree_obj_id :: "('x) externals_scheme \<Rightarrow> tree \<Rightarrow> object_id" where
  "tree_obj_id E t = from_data E (ser_tree E t)"

text \<open>Every entry is filed under its own name.\<close>

definition tree_wf :: "tree \<Rightarrow> bool" where
  "tree_wf t \<longleftrightarrow> omap_ok (entries t) \<and> (\<forall>k e. map_of (entries t) k = Some e \<longrightarrow> te_name e = k)"

lemma tree_wf_ok: "tree_wf t \<Longrightarrow> omap_ok (entries t)"
  by (simp add: tree_wf_def)

lemma tree_wf_new [simp, wf_intros]: "tree_wf tree_new"
  by (simp add: tree_wf_def tree_new_def)

lemma tree_wf_insert [simp, wf_intros]: "tree_wf t \<Longrightarrow> tree_wf (tree_insert e t)"
  by (auto simp: tree_wf_def tree_insert_def omap_simps)

lemma tree_wf_remove [simp, wf_intros]: "tree_wf t \<Longrightarrow> tree_wf (snd (tree_remove n t))"
  by (auto simp: tree_wf_def tree_remove_def omap_simps split: if_splits)

lemma tree_get_simps [omap_simps]:
  "tree_get tree_new = Map.empty"
  "tree_get (tree_insert e t) = (tree_get t)(te_name e \<mapsto> e)"
  "tree_get (snd (tree_remove n t)) = (tree_get t)(n := None)"
  by (simp_all add: fun_eq_iff tree_get_def tree_new_def tree_insert_def tree_remove_def omap_simps)

lemma tree_roundtrip: "externals_ok E \<Longrightarrow> tree_wf t \<Longrightarrow> tree_from_bytes E (tree_to_bytes E t) = Some t"
  by (simp add: tree_from_bytes_def tree_to_bytes_def externals_okD tree_wf_ok)

lemma tree_iter_set:
  assumes wf: "tree_wf t"
  shows "e \<in> set (tree_iter t) \<longleftrightarrow> tree_get t (te_name e) = Some e"
proof -
  have mem: "map_of (entries t) k = Some f \<longleftrightarrow> (k, f) \<in> set (entries t)" for k f
    using omap_ok_distinct [OF tree_wf_ok [OF wf]] by (rule map_of_eq_Some_iff)
  have name: "te_name f = k" if "(k, f) \<in> set (entries t)" for k f
    using wf that unfolding tree_wf_def mem by blast
  have "e \<in> snd ` set (entries t) \<longleftrightarrow> (\<exists>k. (k, e) \<in> set (entries t))"
    by force
  also have "\<dots> \<longleftrightarrow> (te_name e, e) \<in> set (entries t)"
    using name by blast
  finally show ?thesis
    by (simp only: tree_iter_def tree_get_def mem set_map)
qed

text \<open>
  A tree is a key-value container: the key is the entry's name, the value the rest of it.
\<close>

definition tree_put :: "string \<Rightarrow> object_id \<times> object_kind \<times> 32 word \<Rightarrow> tree \<Rightarrow> tree" where
  "tree_put n v t = tree_insert (tree_entry_new n (fst v) (fst (snd v)) (snd (snd v))) t"

definition tree_val :: "tree \<Rightarrow> string \<Rightarrow> (object_id \<times> object_kind \<times> 32 word) option" where
  "tree_val t n = map_option (\<lambda>e. (te_id e, te_kind e, te_mode e)) (tree_get t n)"

lemma tree_val_ext:
  assumes "tree_wf t" and "tree_wf u" and "tree_val t = tree_val u"
  shows "t = u"
proof -
  have "map_of (entries t) k = map_of (entries u) k" for k
    using fun_cong [OF assms(3), of k] assms(1,2)
    by (cases "map_of (entries t) k"; cases "map_of (entries u) k")
      (auto simp: tree_val_def tree_get_def tree_wf_def intro!: tree_entry.equality)
  then have "entries t = entries u"
    using assms(1,2) by (intro omap_eqI) (auto simp: tree_wf_def)
  then show ?thesis by simp
qed

lemma tree_val_simps [omap_simps]:
  "tree_val tree_new k = None"
  "tree_val (tree_put n v t) = (tree_val t)(n \<mapsto> v)"
  "tree_val (snd (tree_remove n t)) = (tree_val t)(n := None)"
  by (rule ext | simp add: tree_val_def tree_put_def tree_entry_new_def omap_simps)+

lemma tree_wf_put [simp, wf_intros]: "tree_wf t \<Longrightarrow> tree_wf (tree_put n v t)"
  by (simp add: tree_put_def)

interpretation tr: key_value tree_wf tree_new tree_val tree_put "\<lambda>n t. snd (tree_remove n t)"
  by unfold_locales (simp_all add: omap_simps tree_val_ext)

section \<open>Commits, delta trees, objects\<close>

definition commit_new ::
    "object_id \<Rightarrow> object_id list \<Rightarrow> string \<Rightarrow> string \<Rightarrow> int \<Rightarrow> int \<Rightarrow> commit" where
  "commit_new t ps a m ts tz =
     \<lparr>tree_id = t, parents = ps, author = a, message = m, timestamp = ts, tz_offset = tz\<rparr>"

definition commit_id :: "('x) externals_scheme \<Rightarrow> commit \<Rightarrow> object_id" where
  "commit_id E c = from_data E (ser_commit E c)"

definition commit_to_bytes :: "('x) externals_scheme \<Rightarrow> commit \<Rightarrow> bytes" where
  "commit_to_bytes E c = ser_commit E c"

definition commit_from_bytes :: "('x) externals_scheme \<Rightarrow> bytes \<Rightarrow> commit option" where
  "commit_from_bytes E bs = de_commit E bs"

definition is_initial :: "commit \<Rightarrow> bool" where
  "is_initial c \<longleftrightarrow> parents c = []"

definition delta_tree_new :: "nat \<Rightarrow> tree_change list \<Rightarrow> nat \<Rightarrow> delta_tree" where
  "delta_tree_new p cs n = \<lparr>parent_rev = p, changes = cs, total_entries = n\<rparr>"

definition delta_id :: "('x) externals_scheme \<Rightarrow> delta_tree \<Rightarrow> object_id" where
  "delta_id E d = from_data E (ser_delta E d)"

fun object_obj_id :: "('x) externals_scheme \<Rightarrow> object \<Rightarrow> object_id" where
  "object_obj_id E (OBlob b) = blob_id E b"
| "object_obj_id E (OTree t) = tree_obj_id E t"
| "object_obj_id E (OCommit c) = commit_id E c"

fun object_kind_of :: "object \<Rightarrow> object_kind" where
  "object_kind_of (OBlob _) = KBlob"
| "object_kind_of (OTree _) = KTree"
| "object_kind_of (OCommit _) = KCommit"

fun object_to_bytes :: "('x) externals_scheme \<Rightarrow> object \<Rightarrow> bytes" where
  "object_to_bytes E (OBlob b) = blob_to_bytes E b"
| "object_to_bytes E (OTree t) = tree_to_bytes E t"
| "object_to_bytes E (OCommit c) = commit_to_bytes E c"

end
