(* ===== verification/Hooks.thy ===== *)
theory Hooks
  imports Prelude
begin

text \<open>
  The hook manager of \<open>dsvn-core/src/hooks.rs\<close>. The scripts under \<open><repo>/hooks\<close> are external
  programs: \<open>installed\<close> gives, for each hook name whose file exists, what running it on a given
  standard input does. The data written to a hook's standard input, the order of the checks
  and which hooks can reject an operation are those of the source.
\<close>

text \<open>How one run of a script can end.\<close>

datatype hook_run =
    SpawnFailed string
  | WaitFailed string
  | Exited (exit_code: "int option") (run_stdout: string) (run_stderr: string)

type_synonym installed = "string \<Rightarrow> (string \<Rightarrow> hook_run) option"

datatype hook_error =
    HookSpawnError string string
  | HookWaitError string string
  | HookRejected string string

definition newline :: char where
  "newline = CHR 0x0A"

definition hook_line :: "string \<Rightarrow> string \<Rightarrow> string" where
  "hook_line key val = key @ val @ [newline]"

definition run_hook :: "installed \<Rightarrow> string \<Rightarrow> string \<Rightarrow> hook_error + unit" where
  "run_hook H name stdin_data =
     (case H name of
        None \<Rightarrow> Inr ()
      | Some script \<Rightarrow>
          (case script stdin_data of
             SpawnFailed e \<Rightarrow> Inl (HookSpawnError name e)
           | WaitFailed e \<Rightarrow> Inl (HookWaitError name e)
           | Exited code out err \<Rightarrow>
               if code = Some 0 then Inr ()
               else
                 let msg = (if err \<noteq> [] then err
                            else if out \<noteq> [] then out
                            else ''Hook '' @ [CHR 0x27] @ name @ [CHR 0x27] @ '' exited with code '' @
                                 show_int (unwrap_or (- 1) code))
                 in Inl (HookRejected name (trim msg))))"

definition run_pre_commit ::
    "installed \<Rightarrow> nat \<Rightarrow> string \<Rightarrow> string \<Rightarrow> string \<Rightarrow> (string \<times> string) list \<Rightarrow> hook_error + unit" where
  "run_pre_commit H r author log date files =
     run_hook H ''pre-commit''
       (hook_line ''REVISION: '' (show_nat r) @ hook_line ''AUTHOR: '' author @
        hook_line ''DATE: '' date @ hook_line ''LOG: '' log @
        ''FILES:'' @ [newline] @
        concat (map (\<lambda>(action, path). action @ '' '' @ path @ [newline]) files))"

definition run_post_commit ::
    "installed \<Rightarrow> nat \<Rightarrow> string \<Rightarrow> string \<Rightarrow> string \<Rightarrow> hook_error + unit" where
  "run_post_commit H r author log date =
     (case run_hook H ''post-commit''
             (hook_line ''REVISION: '' (show_nat r) @ hook_line ''AUTHOR: '' author @
              hook_line ''DATE: '' date @ hook_line ''LOG: '' log) of
        Inl _ \<Rightarrow> Inr () | Inr _ \<Rightarrow> Inr ())"

definition run_pre_revprop_change ::
    "installed \<Rightarrow> nat \<Rightarrow> string \<Rightarrow> string \<Rightarrow> string \<Rightarrow> string \<Rightarrow> hook_error + unit" where
  "run_pre_revprop_change H r author prop_name action prop_value =
     run_hook H ''pre-revprop-change''
       (hook_line ''REVISION: '' (show_nat r) @ hook_line ''AUTHOR: '' author @
        hook_line ''PROPNAME: '' prop_name @ hook_line ''ACTION: '' action @
        hook_line ''VALUE: '' prop_value)"

definition run_post_revprop_change ::
    "installed \<Rightarrow> nat \<Rightarrow> string \<Rightarrow> string \<Rightarrow> string \<Rightarrow> hook_error + unit" where
  "run_post_revprop_change H r author prop_name action =
     (case run_hook H ''post-revprop-change''
             (hook_line ''REVISION: '' (show_nat r) @ hook_line ''AUTHOR: '' author @
              hook_line ''PROPNAME: '' prop_name @ hook_line ''ACTION: '' action) of
        Inl _ \<Rightarrow> Inr () | Inr _ \<Rightarrow> Inr ())"

lemma run_hook_absent [simp]: "H name = None \<Longrightarrow> run_hook H name d = Inr ()"
  by (simp add: run_hook_def)

text \<open>A hook passes exactly when it is absent or exits with status 0.\<close>

lemma run_hook_ok_iff:
  "run_hook H name d = Inr () \<longleftrightarrow>
     (\<forall>f. H name = Some f \<longrightarrow> (\<exists>out err. f d = Exited (Some 0) out err))"
  by (auto simp: run_hook_def Let_def split: option.splits hook_run.splits)

lemma run_post_commit_ok [simp]: "run_post_commit H r a l d = Inr ()"
  by (simp add: run_post_commit_def split: sum.split)

lemma run_post_revprop_change_ok [simp]: "run_post_revprop_change H r a p x = Inr ()"
  by (simp add: run_post_revprop_change_def split: sum.split)

end
