(* ===== verification/Sqlite_Repository.thy ===== *)
theory Sqlite_Repository
  imports Object_Model Hooks
begin

text \<open>
  The repository of \<open>dsvn-core/src/sqlite_repository.rs\<close>: the two SQL tables of \<open>tree.sqlite\<close>
  (the working tree \<open>tree_entries\<close> and the \<open>pending_changes\<close> since the last commit), the files
  under \<open>objects/\<close>, \<open>commits/\<close>, \<open>trees/\<close> (snapshots) and \<open>tree_deltas/\<close>, the file
  \<open>refs/head\<close>, and the in-memory revision counter and tree cache. Each SQL statement of the
  source is an operation on a table ordered by its primary key; every directory of files named
  by a number or an object id is a map. Writes to disk and to the database succeed; everything
  the code itself rejects is an error value.

  External: \<open>externals\<close> (hash and codecs), the installed hook scripts, \<open>chrono\<close>'s date
  format, and the crate \<open>lru\<close>, whose cache is a state of an arbitrary type \<open>'c\<close>.
\<close>

section \<open>State\<close>

type_synonym tree_map = "(string, tree_entry) omap"

record tree_row =
  row_oid :: bytes
  row_kind :: int
  row_mode :: int

record pending_row =
  pr_change_type :: int
  pr_oid :: "bytes option"
  pr_kind :: "int option"
  pr_mode :: "int option"

datatype repo_error =
    CommitNotFound nat
  | ObjectNotFound object_id
  | TreeNotFound nat
  | DeltaNotFound nat
  | DecodeError
  | NullColumn
  | ConstraintError string
  | NoBaseTree nat
  | PathNotFound string
  | DirectoryNotFound string
  | HookFailed hook_error

record 'c repo_env = externals +
  hooks :: installed
  rfc3339 :: "int \<Rightarrow> string option"
  lru_empty :: 'c
  lru_get :: "'c \<Rightarrow> nat \<Rightarrow> tree_map option \<times> 'c"
  lru_put :: "nat \<Rightarrow> tree_map \<Rightarrow> 'c \<Rightarrow> 'c"
  lru_view :: "'c \<Rightarrow> nat \<Rightarrow> tree_map option"

text \<open>
  What is assumed of the cache: \<open>lru_view\<close> is its content; a lookup returns what is cached
  and drops nothing, an insertion stores one entry and may evict others.
\<close>

definition lru_ok :: "'c repo_env \<Rightarrow> bool" where
  "lru_ok E \<longleftrightarrow>
     (\<forall>k. lru_view E (lru_empty E) k = None) \<and>
     (\<forall>c k. fst (lru_get E c k) = lru_view E c k) \<and>
     (\<forall>c k. lru_view E (snd (lru_get E c k)) = lru_view E c) \<and>
     (\<forall>c k v j t. lru_view E (lru_put E k v c) j = Some t \<longrightarrow>
        (if j = k then t = v else lru_view E c j = Some t))"

definition env_ok :: "'c repo_env \<Rightarrow> bool" where
  "env_ok E \<longleftrightarrow> externals_ok E \<and> lru_ok E"

record 'c repo =
  r_uuid :: string
  r_current_rev :: nat
  r_tree_entries :: "(string, tree_row) omap"
  r_pending :: "(string, pending_row) omap"
  r_objects :: "(object_id, bytes) omap"
  r_commits :: "(nat, bytes) omap"
  r_snapshots :: "(nat, bytes) omap"
  r_deltas :: "(nat, bytes) omap"
  r_head_file :: "string option"
  r_uuid_file :: "string option"
  r_root_tree_bin :: "bytes option"
  r_sled_db :: "(string \<times> object_id \<times> object_kind \<times> 32 word) list option"
  r_cache :: 'c
  r_batch_mode :: bool

definition SNAPSHOT_INTERVAL :: nat where
  "SNAPSHOT_INTERVAL = 1000"

section \<open>Column conversions\<close>

fun kind_to_i64 :: "object_kind \<Rightarrow> int" where
  "kind_to_i64 KBlob = 0"
| "kind_to_i64 KTree = 1"
| "kind_to_i64 KCommit = 0"

definition i64_to_kind :: "int \<Rightarrow> object_kind" where
  "i64_to_kind i = (if i = 0 then KBlob else KTree)"

definition bytes_to_oid :: "bytes \<Rightarrow> object_id" where
  "bytes_to_oid b = ObjectId (if length b = 32 then b else replicate 32 0)"

definition tree_to_map :: "tree \<Rightarrow> tree_map" where
  "tree_to_map t = fold (\<lambda>(k, v) m. oput k v m) (entries t) []"

definition map_to_tree :: "tree_map \<Rightarrow> tree" where
  "map_to_tree m = fold tree_insert (map snd m) tree_new"

section \<open>SQL statements\<close>

text \<open>SQLite's \<open>LIKE\<close> without escape: \<open>%\<close> is any text, \<open>_\<close> one character, ASCII letters match either case.\<close>

definition ascii_lower :: "char \<Rightarrow> char" where
  "ascii_lower c = (if 65 \<le> (of_char c :: nat) \<and> (of_char c :: nat) \<le> 90 then char_of ((of_char c :: nat) + 32) else c)"

fun sql_like :: "string \<Rightarrow> string \<Rightarrow> bool" where
  "sql_like [] s = (s = [])"
| "sql_like (p # ps) [] = (p = CHR ''%'' \<and> sql_like ps [])"
| "sql_like (p # ps) (c # s) =
     (if p = CHR ''%'' then sql_like ps (c # s) \<or> sql_like (p # ps) s
      else if p = CHR ''_'' then sql_like ps s
      else ascii_lower p = ascii_lower c \<and> sql_like ps s)"

definition conn_tree_insert ::
    "string \<Rightarrow> object_id \<Rightarrow> object_kind \<Rightarrow> 32 word \<Rightarrow> 'c repo \<Rightarrow> 'c repo" where
  "conn_tree_insert path oid kind mode s =
     s\<lparr>r_tree_entries := oput path
          \<lparr>row_oid = as_bytes oid, row_kind = kind_to_i64 kind, row_mode = uint mode\<rparr>
          (r_tree_entries s),
       r_pending := oput path
          \<lparr>pr_change_type = 0, pr_oid = Some (as_bytes oid), pr_kind = Some (kind_to_i64 kind),
           pr_mode = Some (uint mode)\<rparr>
          (r_pending s)\<rparr>"

definition conn_tree_remove :: "string \<Rightarrow> 'c repo \<Rightarrow> 'c repo" where
  "conn_tree_remove path s =
     s\<lparr>r_tree_entries :=
          oretain (\<lambda>k. \<not> sql_like (path @ ''/%'') k) (odel path (r_tree_entries s)),
       r_pending := oput path
          \<lparr>pr_change_type = 1, pr_oid = None, pr_kind = None, pr_mode = None\<rparr>
          (r_pending s)\<rparr>"

definition row_entry :: "string \<Rightarrow> tree_row \<Rightarrow> tree_entry" where
  "row_entry path r =
     tree_entry_new path (bytes_to_oid (row_oid r)) (i64_to_kind (row_kind r)) (word_of_int (row_mode r))"

definition conn_build_tree :: "'c repo \<Rightarrow> tree" where
  "conn_build_tree s = fold (\<lambda>(path, r) t. tree_insert (row_entry path r) t) (r_tree_entries s) tree_new"

definition pending_change :: "string \<times> pending_row \<Rightarrow> repo_error + tree_change" where
  "pending_change pr = (case pr of (path, r) \<Rightarrow>
     if pr_change_type r = 1 then Inr (Delete path)
     else case (pr_oid r, pr_kind r, pr_mode r) of
            (Some oid, Some k, Some m) \<Rightarrow>
              Inr (Upsert path (tree_entry_new path (bytes_to_oid oid) (i64_to_kind k) (word_of_int m)))
          | _ \<Rightarrow> Inl NullColumn)"

fun collect_rows :: "(string \<times> pending_row) list \<Rightarrow> repo_error + tree_change list" where
  "collect_rows [] = Inr []"
| "collect_rows (pr # prs) =
     rbind (pending_change pr) (\<lambda>ch. rbind (collect_rows prs) (\<lambda>chs. Inr (ch # chs)))"

definition conn_collect_pending :: "'c repo \<Rightarrow> 'c repo \<times> (repo_error + (tree_change list \<times> nat))" where
  "conn_collect_pending s =
     (case collect_rows (r_pending s) of
        Inl e \<Rightarrow> (s, Inl e)
      | Inr chs \<Rightarrow> (s\<lparr>r_pending := []\<rparr>, Inr (chs, length (r_tree_entries s))))"

text \<open>A plain \<open>INSERT\<close> fails on a path that is present; the rows inserted before stay.\<close>

fun insert_rows :: "tree_entry list \<Rightarrow> (string, tree_row) omap \<Rightarrow> (string, tree_row) omap \<times> (repo_error + unit)" where
  "insert_rows [] rows = (rows, Inr ())"
| "insert_rows (e # es) rows =
     (if ohas rows (te_name e) then (rows, Inl (ConstraintError (te_name e)))
      else insert_rows es
        (oput (te_name e)
          \<lparr>row_oid = as_bytes (te_id e), row_kind = kind_to_i64 (te_kind e), row_mode = uint (te_mode e)\<rparr>
          rows))"

definition conn_populate :: "tree \<Rightarrow> 'c repo \<Rightarrow> 'c repo \<times> (repo_error + unit)" where
  "conn_populate t s =
     (case insert_rows (tree_iter t) [] of (rows, res) \<Rightarrow> (s\<lparr>r_tree_entries := rows\<rparr>, res))"

definition conn_count :: "'c repo \<Rightarrow> nat" where
  "conn_count s = length (r_tree_entries s)"

section \<open>Objects, commits, snapshots, deltas\<close>

definition store_object :: "object_id \<Rightarrow> bytes \<Rightarrow> 'c repo \<Rightarrow> 'c repo" where
  "store_object i d s =
     (if ohas (r_objects s) i then s else s\<lparr>r_objects := oput i d (r_objects s)\<rparr>)"

definition load_object :: "'c repo \<Rightarrow> object_id \<Rightarrow> repo_error + bytes" where
  "load_object s i = ok_or (ObjectNotFound i) (map_of (r_objects s) i)"

definition store_commit :: "'c repo_env \<Rightarrow> nat \<Rightarrow> commit \<Rightarrow> 'c repo \<Rightarrow> 'c repo" where
  "store_commit E r c s = s\<lparr>r_commits := oput r (ser_commit E c) (r_commits s)\<rparr>"

definition load_commit :: "'c repo_env \<Rightarrow> 'c repo \<Rightarrow> nat \<Rightarrow> repo_error + commit" where
  "load_commit E s r =
     rbind (ok_or (CommitNotFound r) (map_of (r_commits s) r)) (\<lambda>bs. ok_or DecodeError (de_commit E bs))"

definition store_tree_snapshot :: "'c repo_env \<Rightarrow> nat \<Rightarrow> tree \<Rightarrow> 'c repo \<Rightarrow> 'c repo" where
  "store_tree_snapshot E r t s = s\<lparr>r_snapshots := oput r (ser_tree E t) (r_snapshots s)\<rparr>"

definition load_tree_snapshot :: "'c repo_env \<Rightarrow> 'c repo \<Rightarrow> nat \<Rightarrow> repo_error + tree" where
  "load_tree_snapshot E s r =
     rbind (ok_or (TreeNotFound r) (map_of (r_snapshots s) r)) (\<lambda>bs. ok_or DecodeError (de_tree E bs))"

definition has_tree_snapshot :: "'c repo \<Rightarrow> nat \<Rightarrow> bool" where
  "has_tree_snapshot s r = ohas (r_snapshots s) r"

definition store_delta_tree :: "'c repo_env \<Rightarrow> nat \<Rightarrow> delta_tree \<Rightarrow> 'c repo \<Rightarrow> 'c repo" where
  "store_delta_tree E r d s = s\<lparr>r_deltas := oput r (ser_delta E d) (r_deltas s)\<rparr>"

definition load_delta_tree :: "'c repo_env \<Rightarrow> 'c repo \<Rightarrow> nat \<Rightarrow> repo_error + delta_tree" where
  "load_delta_tree E s r =
     rbind (ok_or (DeltaNotFound r) (map_of (r_deltas s) r)) (\<lambda>bs. ok_or DecodeError (de_delta E bs))"

definition has_delta_tree :: "'c repo \<Rightarrow> nat \<Rightarrow> bool" where
  "has_delta_tree s r = ohas (r_deltas s) r"

definition save_head :: "nat \<Rightarrow> 'c repo \<Rightarrow> 'c repo" where
  "save_head r s = s\<lparr>r_head_file := Some (show_nat r)\<rparr>"

section \<open>Tree reconstruction\<close>

definition cache_get :: "'c repo_env \<Rightarrow> nat \<Rightarrow> 'c repo \<Rightarrow> tree_map option \<times> 'c repo" where
  "cache_get E r s = (case lru_get E (r_cache s) r of (hit, c) \<Rightarrow> (hit, s\<lparr>r_cache := c\<rparr>))"

definition cache_put :: "'c repo_env \<Rightarrow> nat \<Rightarrow> tree_map \<Rightarrow> 'c repo \<Rightarrow> 'c repo" where
  "cache_put E r t s = s\<lparr>r_cache := lru_put E r t (r_cache s)\<rparr>"

fun apply_change :: "tree_change \<Rightarrow> tree_map \<Rightarrow> tree_map" where
  "apply_change (Upsert path entry) m = oput path entry m"
| "apply_change (Delete path) m = oretain (\<lambda>k. \<not> below path k) (odel path m)"

definition apply_changes :: "tree_change list \<Rightarrow> tree_map \<Rightarrow> tree_map" where
  "apply_changes chs m = fold apply_change chs m"

text \<open>How the walk along the parent pointers ends.\<close>

datatype chain_end =
    ChainBase nat "(nat \<times> delta_tree) list"
  | ChainLegacy
  | ChainErr repo_error

text \<open>A corrupted pair of deltas can point at each other, so the loop may not end: \<open>None\<close>.\<close>

partial_function (option) collect_chain ::
    "'c repo_env \<Rightarrow> 'c repo \<Rightarrow> nat \<Rightarrow> (nat \<times> delta_tree) list \<Rightarrow> ('c repo \<times> chain_end) option" where
  "collect_chain E s cur chain =
     (if cur = 0 then Some (s, ChainBase 0 chain)
      else let (hit, s1) = cache_get E cur s in
           if hit \<noteq> None then Some (s1, ChainBase cur chain)
           else if has_tree_snapshot s1 cur then Some (s1, ChainBase cur chain)
           else if has_delta_tree s1 cur then
             (case load_delta_tree E s1 cur of
                Inl e \<Rightarrow> Some (s1, ChainErr e)
              | Inr d \<Rightarrow> collect_chain E s1 (parent_rev d) (chain @ [(cur, d)]))
           else Some (s1, ChainLegacy))"

definition get_tree_at_rev_legacy :: "'c repo_env \<Rightarrow> nat \<Rightarrow> 'c repo \<Rightarrow> 'c repo \<times> (repo_error + tree_map)" where
  "get_tree_at_rev_legacy E r s =
     (case rbind (load_commit E s r) (\<lambda>c.
             rbind (load_object s (tree_id c)) (\<lambda>bs. ok_or DecodeError (de_tree E bs))) of
        Inl e \<Rightarrow> (s, Inl e)
      | Inr t \<Rightarrow> let m = tree_to_map t in (cache_put E r m s, Inr m))"

definition base_tree :: "'c repo_env \<Rightarrow> nat \<Rightarrow> 'c repo \<Rightarrow> 'c repo \<times> (repo_error + tree_map)" where
  "base_tree E cur s =
     (if cur = 0 then (s, Inr [])
      else case cache_get E cur s of (hit, s1) \<Rightarrow>
        (case hit of
           Some t \<Rightarrow> (s1, Inr t)
         | None \<Rightarrow>
             if has_tree_snapshot s1 cur then
               (case load_tree_snapshot E s1 cur of
                  Inl e \<Rightarrow> (s1, Inl e)
                | Inr t \<Rightarrow> let m = tree_to_map t in (cache_put E cur m s1, Inr m))
             else (s1, Inl (NoBaseTree cur))))"

fun apply_chain :: "'c repo_env \<Rightarrow> (nat \<times> delta_tree) list \<Rightarrow> 'c repo \<times> tree_map \<Rightarrow> 'c repo \<times> tree_map" where
  "apply_chain E [] (s, t) = (s, t)"
| "apply_chain E ((dr, d) # rest) (s, t) =
     (let t' = apply_changes (changes d) t in apply_chain E rest (cache_put E dr t' s, t'))"

definition get_tree_at_rev :: "'c repo_env \<Rightarrow> nat \<Rightarrow> 'c repo \<Rightarrow> ('c repo \<times> (repo_error + tree_map)) option" where
  "get_tree_at_rev E r s =
     (if r = 0 then Some (s, Inr [])
      else case cache_get E r s of (hit, s1) \<Rightarrow>
        (case hit of
           Some t \<Rightarrow> Some (s1, Inr t)
         | None \<Rightarrow>
             if has_tree_snapshot s1 r then
               (case load_tree_snapshot E s1 r of
                  Inl e \<Rightarrow> Some (s1, Inl e)
                | Inr t \<Rightarrow> let m = tree_to_map t in Some (cache_put E r m s1, Inr m))
             else
               (case collect_chain E s1 r [] of
                  None \<Rightarrow> None
                | Some (s2, ChainLegacy) \<Rightarrow> Some (get_tree_at_rev_legacy E r s2)
                | Some (s2, ChainErr e) \<Rightarrow> Some (s2, Inl e)
                | Some (s2, ChainBase cur chain) \<Rightarrow>
                    (case base_tree E cur s2 of
                       (s3, Inl e) \<Rightarrow> Some (s3, Inl e)
                     | (s3, Inr t) \<Rightarrow>
                         (case apply_chain E (rev chain) (s3, t) of (s4, t') \<Rightarrow> Some (s4, Inr t'))))))"

section \<open>Opening and initialising\<close>

definition parse_head :: "string \<Rightarrow> nat" where
  "parse_head txt = unwrap_or 0 (parse_u64 (trim txt))"

text \<open>
  The first migration of \<open>open\<close>: an empty working tree is filled from the \<open>sled\<close> database of
  an older version. \<open>r_sled_db\<close> is what that crate's iterator and the record codec deliver of
  \<open>tree.db\<close>; the database stays on disk.
\<close>

definition migrate_sled :: "'c repo \<Rightarrow> 'c repo" where
  "migrate_sled s =
     (case r_sled_db s of
        None \<Rightarrow> s
      | Some recs \<Rightarrow>
          if conn_count s = 0 then
            s\<lparr>r_tree_entries :=
               fold (\<lambda>(ps, oid, k, m) rows. oput ps
                       \<lparr>row_oid = as_bytes oid, row_kind = kind_to_i64 k, row_mode = uint m\<rparr> rows)
                 recs (r_tree_entries s)\<rparr>
          else s)"

text \<open>
  The second migration of \<open>open\<close>: a \<open>root_tree.bin\<close> left by an older version fills an empty
  working tree and is then removed.
\<close>

definition migrate_root_tree :: "'c repo_env \<Rightarrow> 'c repo \<Rightarrow> 'c repo" where
  "migrate_root_tree E s =
     (case r_root_tree_bin s of
        None \<Rightarrow> s
      | Some bs \<Rightarrow>
          if conn_count s = 0 then
            (case de_tree E bs of
               None \<Rightarrow> s
             | Some t \<Rightarrow>
                 s\<lparr>r_tree_entries :=
                      fold (\<lambda>e rows. oput (te_name e)
                              \<lparr>row_oid = as_bytes (te_id e), row_kind = kind_to_i64 (te_kind e),
                               row_mode = uint (te_mode e)\<rparr> rows)
                        (tree_iter t) (r_tree_entries s),
                   r_root_tree_bin := None\<rparr>)
          else s)"

text \<open>
  \<open>open\<close> keeps what is on disk and sets up the in-memory fields; \<open>fresh_uuid\<close> is the value
  \<open>Uuid::new_v4\<close> would return.
\<close>

definition repo_open :: "'c repo_env \<Rightarrow> string \<Rightarrow> 'c repo \<Rightarrow> 'c repo" where
  "repo_open E fresh_uuid s =
     (let (u, f) = (case r_uuid_file s of
                      Some txt \<Rightarrow> (trim txt, Some txt)
                    | None \<Rightarrow> (fresh_uuid, Some fresh_uuid));
          cr = (case r_head_file s of Some txt \<Rightarrow> parse_head txt | None \<Rightarrow> 0);
          s1 = migrate_root_tree E (migrate_sled s)
      in s1\<lparr>r_uuid := u, r_uuid_file := f, r_current_rev := cr, r_cache := lru_empty E,
            r_batch_mode := False\<rparr>)"

definition initialize :: "'c repo_env \<Rightarrow> int \<Rightarrow> 'c repo \<Rightarrow> ('c repo \<times> (repo_error + unit)) option" where
  "initialize E now s =
     (case r_head_file s of
        Some txt \<Rightarrow>
          (let r = parse_head txt; s1 = s\<lparr>r_current_rev := r\<rparr> in
           if conn_count s1 = 0 then
             (case get_tree_at_rev E r s1 of
                None \<Rightarrow> None
              | Some (s2, Inr tm) \<Rightarrow> Some (conn_populate (map_to_tree tm) s2)
              | Some (s2, Inl _) \<Rightarrow>
                  (case load_tree_snapshot E s2 r of
                     Inl _ \<Rightarrow> Some (s2, Inr ())
                   | Inr t \<Rightarrow> Some (conn_populate t s2)))
           else Some (s1, Inr ()))
      | None \<Rightarrow>
          (let tid = tree_obj_id E tree_new;
               s1 = store_object tid (tree_to_bytes E tree_new) s;
               c = commit_new tid [] ''system'' ''Initial commit'' now 0;
               s2 = store_object (commit_id E c) (commit_to_bytes E c) s1;
               s3 = store_commit E 0 c s2;
               s4 = store_tree_snapshot E 0 tree_new s3;
               s5 = store_delta_tree E 0 (delta_tree_new 0 [] 0) s4;
               s6 = save_head 0 s5
           in Some (s6\<lparr>r_tree_entries := [], r_pending := []\<rparr>, Inr ())))"

section \<open>Reading\<close>

definition get_file :: "'c repo_env \<Rightarrow> string \<Rightarrow> nat \<Rightarrow> 'c repo \<Rightarrow> ('c repo \<times> (repo_error + bytes)) option" where
  "get_file E path r s =
     (let fp = trim_start_matches CHR ''/'' path in
      case get_tree_at_rev E r s of
        None \<Rightarrow> None
      | Some (s1, Inl e) \<Rightarrow> Some (s1, Inl e)
      | Some (s1, Inr tm) \<Rightarrow>
          Some (s1,
            (case map_of tm fp of
               Some e \<Rightarrow>
                 if te_kind e = KBlob then
                   rbind (load_object s1 (te_id e)) (\<lambda>bs.
                     rbind (ok_or DecodeError (blob_deserialize E bs)) (\<lambda>b. Inr (blob_data b)))
                 else Inl (PathNotFound path)
             | None \<Rightarrow> Inl (PathNotFound path))))"

definition dir_entry_name :: "string \<Rightarrow> string \<Rightarrow> string option" where
  "dir_entry_name pfx k =
     (if pfx = [] then Some (hd (split CHR ''/'' k))
      else map_option (\<lambda>r. hd (split CHR ''/'' r)) (strip_prefix k (pfx @ ''/'')))"

definition list_dir :: "'c repo_env \<Rightarrow> string \<Rightarrow> nat \<Rightarrow> 'c repo \<Rightarrow> ('c repo \<times> (repo_error + string list)) option" where
  "list_dir E path r s =
     (case get_tree_at_rev E r s of
        None \<Rightarrow> None
      | Some (s1, Inl e) \<Rightarrow> Some (s1, Inl e)
      | Some (s1, Inr tm) \<Rightarrow>
          Some (s1,
            (let pfx = trim_end_matches CHR ''/'' (trim_start_matches CHR ''/'' path);
                 names = sort (remdups (List.map_filter (dir_entry_name pfx) (okeys tm)))
             in if names = [] \<and> pfx \<noteq> [] then Inl (DirectoryNotFound path) else Inr names)))"

definition exists_path :: "'c repo_env \<Rightarrow> string \<Rightarrow> nat \<Rightarrow> 'c repo \<Rightarrow> ('c repo \<times> bool) option" where
  "exists_path E path r s = map_option (\<lambda>(s1, res). (s1, is_ok res)) (get_file E path r s)"

definition get_commit :: "'c repo_env \<Rightarrow> 'c repo \<Rightarrow> nat \<Rightarrow> commit option" where
  "get_commit E s r = result_ok (load_commit E s r)"

text \<open>The loop of \<open>log\<close> over the revisions from the newest down, stopping at \<open>limit\<close> commits.\<close>

fun log_loop :: "'c repo_env \<Rightarrow> 'c repo \<Rightarrow> nat \<Rightarrow> nat list \<Rightarrow> commit list \<Rightarrow> commit list" where
  "log_loop E s limit [] acc = acc"
| "log_loop E s limit (r # rs) acc =
     (if limit \<le> length acc then acc
      else log_loop E s limit rs
        (case load_commit E s r of Inr c \<Rightarrow> acc @ [c] | Inl _ \<Rightarrow> acc))"

definition log :: "'c repo_env \<Rightarrow> 'c repo \<Rightarrow> nat \<Rightarrow> nat \<Rightarrow> commit list" where
  "log E s start_rev limit = log_loop E s limit (rev [0..<Suc (min start_rev (r_current_rev s))]) []"

section \<open>Editing the working tree\<close>

text \<open>The Unix modes 0o755 and 0o644.\<close>

definition file_mode :: "bool \<Rightarrow> 32 word" where
  "file_mode executable = (if executable then 493 else 420)"

definition add_file :: "'c repo_env \<Rightarrow> string \<Rightarrow> bytes \<Rightarrow> bool \<Rightarrow> 'c repo \<Rightarrow> 'c repo \<times> object_id" where
  "add_file E path content executable s =
     (let b = blob_new content executable;
          bid = blob_id E b;
          s1 = store_object bid (blob_to_bytes E b) s
      in (conn_tree_insert (trim_start_matches CHR ''/'' path) bid KBlob (file_mode executable) s1, bid))"

definition mkdir :: "'c repo_env \<Rightarrow> string \<Rightarrow> 'c repo \<Rightarrow> 'c repo \<times> object_id" where
  "mkdir E path s =
     (let t = tree_new; tid = tree_obj_id E t;
          s1 = store_object tid (tree_to_bytes E t) s
      in (conn_tree_insert (trim_start_matches CHR ''/'' path) tid KTree (file_mode True) s1, tid))"

definition delete_file :: "string \<Rightarrow> 'c repo \<Rightarrow> 'c repo" where
  "delete_file path s = conn_tree_remove (trim_start_matches CHR ''/'' path) s"

section \<open>Committing\<close>

definition hook_files :: "tree_change list \<Rightarrow> (string \<times> string) list" where
  "hook_files chs = map (\<lambda>ch. case ch of Upsert p _ \<Rightarrow> (''A'', p) | Delete p \<Rightarrow> (''D'', p)) chs"

definition hook_date :: "'c repo_env \<Rightarrow> int \<Rightarrow> string" where
  "hook_date E ts = unwrap_or (show_int ts) (rfc3339 E ts)"

definition parents_of :: "'c repo_env \<Rightarrow> nat \<Rightarrow> 'c repo \<Rightarrow> object_id list" where
  "parents_of E cr s =
     (if cr > 0 \<or> ohas (r_commits s) cr
      then unwrap_or [] (map_option (\<lambda>cc. [commit_id E cc]) (result_ok (load_commit E s cr)))
      else [])"

definition record_commit :: "'c repo_env \<Rightarrow> nat \<Rightarrow> object_id \<Rightarrow> string \<Rightarrow> string \<Rightarrow> int \<Rightarrow> 'c repo \<Rightarrow> 'c repo" where
  "record_commit E cr tid a m ts s =
     (let c = commit_new tid (parents_of E cr s) a m ts 0;
          s1 = store_object (commit_id E c) (commit_to_bytes E c) s
      in store_commit E (cr + 1) c s1)"

definition commit :: "'c repo_env \<Rightarrow> string \<Rightarrow> string \<Rightarrow> int \<Rightarrow> 'c repo \<Rightarrow> 'c repo \<times> (repo_error + nat)" where
  "commit E a m ts s =
     (let cr = r_current_rev s; nr = cr + 1; pr = (if nr > 1 then nr - 1 else 0) in
      case conn_collect_pending s of
        (s1, Inl e) \<Rightarrow> (s1, Inl e)
      | (s1, Inr (chs, n)) \<Rightarrow>
          (case run_pre_commit (hooks E) nr a m (hook_date E ts) (hook_files chs) of
             Inl h \<Rightarrow> (s1, Inl (HookFailed h))
           | Inr _ \<Rightarrow>
               let delta = delta_tree_new pr chs n;
                   root_tree = conn_build_tree s1;
                   tid = tree_obj_id E root_tree;
                   s2 = store_object tid (tree_to_bytes E root_tree) s1;
                   s3 = record_commit E cr tid a m ts s2;
                   s4 = store_delta_tree E nr delta s3;
                   s5 = (if nr mod SNAPSHOT_INTERVAL = 0 then store_tree_snapshot E nr root_tree s4 else s4);
                   s6 = (save_head nr s5)\<lparr>r_current_rev := nr\<rparr>
               in (case run_post_commit (hooks E) nr a m (hook_date E ts) of
                     Inl h \<Rightarrow> (s6, Inl (HookFailed h))
                   | Inr _ \<Rightarrow> (s6, Inr nr))))"

definition begin_batch :: "'c repo \<Rightarrow> 'c repo" where
  "begin_batch s = s\<lparr>r_batch_mode := True\<rparr>"

definition end_batch :: "'c repo \<Rightarrow> 'c repo" where
  "end_batch s = s\<lparr>r_batch_mode := False\<rparr>"

definition add_file_sync :: "'c repo_env \<Rightarrow> string \<Rightarrow> bytes \<Rightarrow> bool \<Rightarrow> 'c repo \<Rightarrow> 'c repo \<times> object_id" where
  "add_file_sync E path content executable s =
     (let b = blob_new content executable;
          bid = blob_id E b;
          s1 = store_object bid (blob_to_bytes E b) s
      in (conn_tree_insert (trim_start_matches CHR ''/'' path) bid KBlob (file_mode executable) s1, bid))"

definition mkdir_sync :: "'c repo_env \<Rightarrow> string \<Rightarrow> 'c repo \<Rightarrow> 'c repo \<times> object_id" where
  "mkdir_sync E path s =
     (let t = tree_new; tid = tree_obj_id E t;
          s1 = store_object tid (tree_to_bytes E t) s
      in (conn_tree_insert (trim_start_matches CHR ''/'' path) tid KTree (file_mode True) s1, tid))"

definition delete_file_sync :: "string \<Rightarrow> 'c repo \<Rightarrow> 'c repo" where
  "delete_file_sync path s = conn_tree_remove (trim_start_matches CHR ''/'' path) s"

definition commit_sync :: "'c repo_env \<Rightarrow> string \<Rightarrow> string \<Rightarrow> int \<Rightarrow> 'c repo \<Rightarrow> 'c repo \<times> (repo_error + nat)" where
  "commit_sync E a m ts s =
     (let cr = r_current_rev s; nr = cr + 1; pr = (if nr > 1 then nr - 1 else 0) in
      case conn_collect_pending s of
        (s1, Inl e) \<Rightarrow> (s1, Inl e)
      | (s1, Inr (chs, n)) \<Rightarrow>
          (case run_pre_commit (hooks E) nr a m (hook_date E ts) (hook_files chs) of
             Inl h \<Rightarrow> (s1, Inl (HookFailed h))
           | Inr _ \<Rightarrow>
               let delta = delta_tree_new pr chs n;
                   need_snapshot = (nr mod SNAPSHOT_INTERVAL = 0);
                   root_tree = conn_build_tree s1;
                   tid = (if need_snapshot then tree_obj_id E root_tree else delta_id E delta);
                   s2 = (if need_snapshot
                         then store_tree_snapshot E nr root_tree
                                (store_object tid (tree_to_bytes E root_tree) s1)
                         else s1);
                   s3 = record_commit E cr tid a m ts s2;
                   s4 = store_delta_tree E nr delta s3;
                   s5 = (save_head nr s4)\<lparr>r_current_rev := nr\<rparr>
               in (case run_post_commit (hooks E) nr a m (hook_date E ts) of
                     Inl h \<Rightarrow> (s5, Inl (HookFailed h))
                   | Inr _ \<Rightarrow> (s5, Inr nr))))"

definition has_object :: "'c repo \<Rightarrow> object_id \<Rightarrow> bool" where
  "has_object s i = ohas (r_objects s) i"

end
