(* ===== verification/Sqlite_Tables.thy ===== *)
theory Sqlite_Tables
  imports Sqlite_Repository
begin

text \<open>
  Lemmas on the tables of \<open>tree.sqlite\<close>: the working tree as a map of entries (\<open>work\<close>), the
  pending changes as an overlay (\<open>pend_of\<close>, \<open>overlay\<close>), what each SQL statement does to both,
  and the closed form of replaying a change list sorted by path.
\<close>

section \<open>Building maps by insertion\<close>

lemma fold_oput_ok: "omap_ok m \<Longrightarrow> omap_ok (fold (\<lambda>x m. oput (f x) (g x) m) xs m)"
  by (induction xs arbitrary: m) auto

lemma map_of_fold_oput:
  assumes "distinct (map f xs)"
  shows "map_of (fold (\<lambda>x m. oput (f x) (g x) m) xs m) =
         map_of m ++ map_of (map (\<lambda>x. (f x, g x)) xs)"
  using assms
proof (induction xs arbitrary: m)
  case (Cons x xs)
  then have "map_of (map (\<lambda>x. (f x, g x)) xs) (f x) = None"
    by (auto simp: map_of_eq_None_iff image_iff)
  with Cons show ?case
    by (auto simp: omap_simps fun_eq_iff map_add_def split: option.splits)
qed simp

lemma fold_oput_map:
  assumes "omap_ok m"
  shows "fold (\<lambda>x n. oput (fst x) (g x) n) m [] = map (\<lambda>x. (fst x, g x)) m"
proof (rule omap_eqI)
  show "omap_ok (map (\<lambda>x. (fst x, g x)) m)"
    using assms by (simp add: omap_ok_def comp_def)
  show "map_of (fold (\<lambda>x n. oput (fst x) (g x) n) m []) = map_of (map (\<lambda>x. (fst x, g x)) m)"
    using omap_ok_distinct [OF assms] by (simp add: map_of_fold_oput)
qed (simp add: fold_oput_ok)

lemma tree_to_map_entries: "omap_ok (entries t) \<Longrightarrow> tree_to_map t = entries t"
  using fold_oput_map [of "entries t" snd]
  by (simp add: tree_to_map_def case_prod_unfold)

section \<open>The working tree\<close>

definition work :: "'c repo \<Rightarrow> tree_map" where
  "work s = entries (conn_build_tree s)"

lemma entries_fold_insert:
  "entries (fold (\<lambda>x t. tree_insert (row_entry (fst x) (snd x)) t) rows t) =
   fold (\<lambda>x m. oput (fst x) (row_entry (fst x) (snd x)) m) rows (entries t)"
  by (induction rows arbitrary: t) (simp_all add: tree_insert_def row_entry_def tree_entry_new_def)

lemma work_eq: "omap_ok (r_tree_entries s) \<Longrightarrow> work s = omapv row_entry (r_tree_entries s)"
  using fold_oput_map [of "r_tree_entries s" "\<lambda>x. row_entry (fst x) (snd x)"]
  by (simp add: work_def conn_build_tree_def case_prod_unfold entries_fold_insert tree_new_def omapv_def)

lemma conn_build_tree_entries: "conn_build_tree s = \<lparr>entries = work s\<rparr>"
  by (simp add: work_def)

lemma row_entry_simps [simp]: "te_name (row_entry p r) = p"
  by (simp add: row_entry_def tree_entry_new_def)

lemma conn_build_tree_wf: "omap_ok (r_tree_entries s) \<Longrightarrow> tree_wf (conn_build_tree s)"
  by (auto simp: tree_wf_def conn_build_tree_entries work_eq omap_simps)

lemma bytes_to_oid_as_bytes [simp]: "oid_ok i \<Longrightarrow> bytes_to_oid (as_bytes i) = i"
  by (cases i) (simp add: bytes_to_oid_def oid_ok_def)

lemma i64_to_kind_kind [simp]: "k \<noteq> KCommit \<Longrightarrow> i64_to_kind (kind_to_i64 k) = k"
  by (cases k) (simp_all add: i64_to_kind_def)

section \<open>Pending changes\<close>

text \<open>What a pending row stands for: a new entry, or (\<open>None\<close>) a deletion.\<close>

definition pend_effect :: "string \<Rightarrow> pending_row \<Rightarrow> tree_entry option" where
  "pend_effect p r =
     (if pr_change_type r = 1 then None
      else Some (tree_entry_new p (bytes_to_oid (the (pr_oid r))) (i64_to_kind (the (pr_kind r)))
                   (word_of_int (the (pr_mode r)))))"

definition pend_of :: "'c repo \<Rightarrow> string \<rightharpoonup> tree_entry option" where
  "pend_of s q = map_option (pend_effect q) (map_of (r_pending s) q)"

definition pending_row_ok :: "pending_row \<Rightarrow> bool" where
  "pending_row_ok r \<longleftrightarrow> pr_change_type r = 1 \<or> (pr_oid r \<noteq> None \<and> pr_kind r \<noteq> None \<and> pr_mode r \<noteq> None)"

definition tables_ok :: "'c repo \<Rightarrow> bool" where
  "tables_ok s \<longleftrightarrow> omap_ok (r_tree_entries s) \<and> omap_ok (r_pending s) \<and>
     (\<forall>r \<in> set (map snd (r_pending s)). pending_row_ok r)"

fun change_effect :: "tree_change \<Rightarrow> string \<times> tree_entry option" where
  "change_effect (Upsert p e) = (p, Some e)"
| "change_effect (Delete p) = (p, None)"

definition effects :: "tree_change list \<Rightarrow> string \<rightharpoonup> tree_entry option" where
  "effects chs = map_of (map change_effect chs)"

lemma fst_change_effect [simp]: "fst (change_effect ch) = change_path ch"
  by (cases ch) auto

lemma pending_change_ok:
  "pending_row_ok r \<Longrightarrow>
     \<exists>ch. pending_change (p, r) = Inr ch \<and> change_effect ch = (p, pend_effect p r)"
  by (auto simp: pending_change_def pending_row_ok_def pend_effect_def)

lemma collect_rows_ok:
  "\<forall>r \<in> set (map snd rows). pending_row_ok r \<Longrightarrow>
     \<exists>chs. collect_rows rows = Inr chs \<and>
           map change_effect chs = map (\<lambda>(p, r). (p, pend_effect p r)) rows"
proof (induction rows)
  case (Cons pr rows)
  obtain p r where pr: "pr = (p, r)" by (cases pr)
  with Cons pending_change_ok [of r p] show ?case by fastforce
qed simp

text \<open>The collected changes are sorted by path and stand for the pending overlay.\<close>

lemma collect_pending_ok:
  assumes "tables_ok s"
  shows "\<exists>chs. conn_collect_pending s = (s\<lparr>r_pending := []\<rparr>, Inr (chs, length (r_tree_entries s))) \<and>
               sorted_wrt (<) (map change_path chs) \<and> effects chs = pend_of s"
proof -
  obtain chs where chs: "collect_rows (r_pending s) = Inr chs"
    and eff: "map change_effect chs = map (\<lambda>(p, r). (p, pend_effect p r)) (r_pending s)"
    using collect_rows_ok [of "r_pending s"] assms by (auto simp: tables_ok_def)
  have "map change_path chs = map fst (map change_effect chs)" by simp
  also have "\<dots> = map fst (r_pending s)" unfolding eff by (induction "r_pending s") auto
  finally have "sorted_wrt (<) (map change_path chs)"
    using assms by (simp add: tables_ok_def omap_ok_def)
  moreover have "effects chs = pend_of s"
    using map_of_omapv [of pend_effect "r_pending s"]
    by (simp add: effects_def eff pend_of_def fun_eq_iff omapv_def)
  ultimately show ?thesis
    by (auto simp: conn_collect_pending_def chs)
qed

section \<open>Replaying changes\<close>

text \<open>
  The effect of a set of changes on a tree: a path with a change gets that change; a path
  without one is lost when a directory above it is deleted, and kept otherwise.
\<close>

abbreviation overlay :: "(string \<rightharpoonup> tree_entry option) \<Rightarrow> (string \<rightharpoonup> tree_entry) \<Rightarrow> (string \<rightharpoonup> tree_entry)" where
  "overlay \<equiv> overlay_by below"

lemma apply_change_ok [wf_intros, simp]: "omap_ok m \<Longrightarrow> omap_ok (apply_change ch m)"
  by (cases ch) simp_all

lemma apply_changes_ok [wf_intros, simp]: "omap_ok m \<Longrightarrow> omap_ok (apply_changes chs m)"
  unfolding apply_changes_def by (induction chs arbitrary: m) simp_all


lemma map_of_apply_change:
  "map_of (apply_change ch m) =
     (\<lambda>q. if q = change_path ch then snd (change_effect ch)
          else if snd (change_effect ch) = None \<and> below (change_path ch) q then None
          else map_of m q)"
  by (cases ch) (auto simp: fun_eq_iff omap_simps)

lemma effects_Cons: "effects (ch # chs) = (effects chs)(change_path ch \<mapsto> snd (change_effect ch))"
  by (cases ch) (auto simp: effects_def fun_eq_iff)

lemma effects_path: "effects chs a = Some x \<Longrightarrow> a \<in> set (map change_path chs)"
proof -
  assume "effects chs a = Some x"
  then have "(a, x) \<in> change_effect ` set chs"
    by (auto simp: effects_def dest: map_of_SomeD)
  then obtain ch where "ch \<in> set chs" and "(a, x) = change_effect ch" by blast
  then have "change_path ch = a" by (metis fst_change_effect fst_conv)
  with \<open>ch \<in> set chs\<close> show ?thesis by auto
qed

lemma map_of_apply_changes:
  assumes "sorted_wrt (<) (map change_path chs)"
  shows "map_of (apply_changes chs m) = overlay (effects chs) (map_of m)"
  using assms
proof (induction chs arbitrary: m)
  case Nil
  show ?case by (simp add: apply_changes_def effects_def)
next
  case (Cons ch chs)
  have later: "change_path ch < a" if "effects chs a = Some x" for a x
    using effects_path [OF that] Cons.prems by auto
  have "map_of (apply_changes (ch # chs) m) = overlay (effects chs) (map_of (apply_change ch m))"
    using Cons by (simp add: apply_changes_def)
  also have "\<dots> = overlay (effects (ch # chs)) (map_of m)"
    unfolding map_of_apply_change effects_Cons
  proof (rule overlay_by_cons)
    show "effects chs (change_path ch) = None"
      using later by (cases "effects chs (change_path ch)") blast+
    show "\<not> below a (change_path ch)" if "effects chs a = Some None" for a
      using later [OF that] below_less by (metis less_asym)
  qed
  finally show ?case .
qed

section \<open>The statements on the tables\<close>

text \<open>The prefix a \<open>LIKE\<close> pattern \<open>p/%\<close> is meant to select is always selected.\<close>

lemma sql_like_percent: "sql_like ps s \<Longrightarrow> sql_like (CHR ''%'' # ps) s"
  by (cases s) auto

lemma sql_like_self: "sql_like ps t \<Longrightarrow> sql_like (p @ ps) (p @ t)"
  by (induction p) (auto simp: sql_like_percent)

lemma sql_like_all: "sql_like ''%'' s"
  by (induction s) auto

lemma below_sql_like: "below p q \<Longrightarrow> sql_like (p @ ''/%'') q"
  using sql_like_self [of "''%''" _ "p @ ''/''"] sql_like_all
  by (auto simp: below_def starts_with_iff)

lemma tables_ok_upd:
  assumes "tables_ok s" and "omap_ok rows" and "pending_row_ok pr"
  shows "tables_ok (s\<lparr>r_tree_entries := rows, r_pending := oput p pr (r_pending s)\<rparr>)"
proof -
  have "\<forall>r \<in> set (map snd (oput p pr (r_pending s))). pending_row_ok r"
    using assms(1,3) unfolding tables_ok_def by (intro ball_oput) blast+
  with assms show ?thesis by (simp add: tables_ok_def del: set_map)
qed

lemma tables_ok_rows: "tables_ok s \<Longrightarrow> omap_ok (r_tree_entries s)"
  by (simp add: tables_ok_def)

lemma tables_ok_insert [wf_intros]: "tables_ok s \<Longrightarrow> tables_ok (conn_tree_insert p i k m s)"
  unfolding conn_tree_insert_def
  by (rule tables_ok_upd) (simp_all add: tables_ok_rows pending_row_ok_def)

lemma tables_ok_remove [wf_intros]: "tables_ok s \<Longrightarrow> tables_ok (conn_tree_remove p s)"
  unfolding conn_tree_remove_def
  by (rule tables_ok_upd) (simp_all add: tables_ok_rows pending_row_ok_def)

lemma map_of_work: "tables_ok s \<Longrightarrow> map_of (work s) q = map_option (row_entry q) (map_of (r_tree_entries s) q)"
  by (simp add: work_eq tables_ok_def omap_simps)

lemma work_ok [simp]: "tables_ok s \<Longrightarrow> omap_ok (work s)"
  by (simp add: work_eq tables_ok_def)

lemma work_insert:
  assumes "tables_ok s" and "oid_ok i" and "k \<noteq> KCommit"
  shows "map_of (work (conn_tree_insert p i k m s)) = (map_of (work s))(p \<mapsto> tree_entry_new p i k m)"
proof -
  have "tables_ok (conn_tree_insert p i k m s)" using assms(1) by (rule tables_ok_insert)
  with assms show ?thesis
    by (auto simp: fun_eq_iff map_of_work) (auto simp: conn_tree_insert_def omap_simps row_entry_def)
qed

lemma pend_insert:
  assumes "oid_ok i" and "k \<noteq> KCommit"
  shows "pend_of (conn_tree_insert p i k m s) = (pend_of s)(p \<mapsto> Some (tree_entry_new p i k m))"
  using assms by (auto simp: fun_eq_iff pend_of_def conn_tree_insert_def omap_simps pend_effect_def)

lemma work_remove:
  assumes "tables_ok s"
  shows "map_of (work (conn_tree_remove p s)) q =
     (if q = p \<or> sql_like (p @ ''/%'') q then None else map_of (work s) q)"
proof -
  have "tables_ok (conn_tree_remove p s)" using assms by (rule tables_ok_remove)
  with assms show ?thesis
    by (auto simp: map_of_work) (auto simp: conn_tree_remove_def omap_simps)
qed

lemma pend_remove: "pend_of (conn_tree_remove p s) = (pend_of s)(p \<mapsto> None)"
  by (auto simp: fun_eq_iff pend_of_def conn_tree_remove_def omap_simps pend_effect_def)

end
