(* ===== verification/Sqlite_History.thy ===== *)
theory Sqlite_History
  imports Sqlite_Tables
begin

text \<open>
  The history a repository stores. \<open>hist\<close> is the specification: the tree of a revision is its
  delta applied to the tree of the revision before. \<open>history_inv\<close> says that the deltas form an
  unbroken chain, that every snapshot and every cached tree is the tree of its revision, and
  that nothing is stored beyond the head. Under it the optimised \<open>get_tree_at_rev\<close> (cache,
  snapshots, partial chains) computes \<open>hist\<close>.
\<close>

section \<open>Specification\<close>

fun hist :: "'c repo_env \<Rightarrow> (nat, bytes) omap \<Rightarrow> nat \<Rightarrow> tree_map" where
  "hist E D 0 = []"
| "hist E D (Suc r) =
     (case Option.bind (map_of D (Suc r)) (de_delta E) of
        None \<Rightarrow> hist E D r
      | Some d \<Rightarrow> apply_changes (changes d) (hist E D r))"

definition tree_of :: "'c repo_env \<Rightarrow> 'c repo \<Rightarrow> nat \<Rightarrow> tree_map" where
  "tree_of E s r = hist E (r_deltas s) r"

definition delta_at :: "'c repo_env \<Rightarrow> 'c repo \<Rightarrow> nat \<Rightarrow> delta_tree option" where
  "delta_at E s r = Option.bind (map_of (r_deltas s) r) (de_delta E)"

text \<open>The changes revision \<open>r\<close> made to its predecessor.\<close>

definition rev_changes :: "'c repo_env \<Rightarrow> 'c repo \<Rightarrow> nat \<Rightarrow> tree_change list" where
  "rev_changes E s r = (if r = 0 then [] else (case delta_at E s r of None \<Rightarrow> [] | Some d \<Rightarrow> changes d))"

definition history_inv :: "'c repo_env \<Rightarrow> 'c repo \<Rightarrow> bool" where
  "history_inv E s \<longleftrightarrow>
     (\<forall>r. 0 < r \<longrightarrow> r \<le> r_current_rev s \<longrightarrow> (\<exists>d. delta_at E s r = Some d \<and> parent_rev d = r - 1)) \<and>
     (\<forall>r > r_current_rev s. map_of (r_deltas s) r = None \<and> map_of (r_snapshots s) r = None \<and>
        map_of (r_commits s) r = None) \<and>
     (\<forall>r bs. 0 < r \<longrightarrow> map_of (r_snapshots s) r = Some bs \<longrightarrow> de_tree E bs = Some \<lparr>entries = tree_of E s r\<rparr>) \<and>
     (\<forall>r t. lru_view E (r_cache s) r = Some t \<longrightarrow> r \<le> r_current_rev s \<and> t = tree_of E s r)"

lemma history_invD:
  assumes "history_inv E s"
  shows "0 < r \<Longrightarrow> r \<le> r_current_rev s \<Longrightarrow> \<exists>d. delta_at E s r = Some d \<and> parent_rev d = r - 1"
    and "r_current_rev s < r \<Longrightarrow> map_of (r_deltas s) r = None"
    and "r_current_rev s < r \<Longrightarrow> map_of (r_snapshots s) r = None"
    and "r_current_rev s < r \<Longrightarrow> map_of (r_commits s) r = None"
    and "0 < r \<Longrightarrow> map_of (r_snapshots s) r = Some bs \<Longrightarrow> de_tree E bs = Some \<lparr>entries = tree_of E s r\<rparr>"
    and "lru_view E (r_cache s) r = Some t \<Longrightarrow> r \<le> r_current_rev s"
    and "lru_view E (r_cache s) r = Some t \<Longrightarrow> t = tree_of E s r"
  using assms unfolding history_inv_def by blast+

text \<open>Reading changes nothing but the cache.\<close>

definition only_cache :: "'c repo \<Rightarrow> 'c repo \<Rightarrow> bool" where
  "only_cache s s' \<longleftrightarrow> (\<exists>c. s' = s\<lparr>r_cache := c\<rparr>)"

lemma hist_ok [simp]: "omap_ok (hist E D r)"
  by (induction r) (auto split: option.splits)

lemma tree_of_ok [simp]: "omap_ok (tree_of E s r)"
  by (simp add: tree_of_def)

lemma tree_of_0 [simp]: "tree_of E s 0 = []"
  by (simp add: tree_of_def)

lemma tree_of_step:
  "0 < r \<Longrightarrow> delta_at E s r = Some d \<Longrightarrow> tree_of E s r = apply_changes (changes d) (tree_of E s (r - 1))"
  by (cases r) (simp_all add: tree_of_def delta_at_def)

lemma hist_cong: "(\<And>k. 0 < k \<Longrightarrow> k \<le> r \<Longrightarrow> map_of D k = map_of D' k) \<Longrightarrow> hist E D r = hist E D' r"
proof (induction r)
  case (Suc r)
  then have "hist E D r = hist E D' r" by simp
  with Suc.prems [of "Suc r"] show ?case by (simp split: option.split)
qed simp

lemma tree_of_cong: "r_deltas s' = r_deltas s \<Longrightarrow> tree_of E s' = tree_of E s"
  by (simp add: tree_of_def fun_eq_iff)

lemma only_cache_refl [simp]: "only_cache s s" "only_cache s (s\<lparr>r_cache := c\<rparr>)"
  by (auto simp: only_cache_def intro: exI [of _ "r_cache s"])

lemma only_cacheD:
  assumes "only_cache s s'"
  shows "r_deltas s' = r_deltas s" "r_snapshots s' = r_snapshots s" "r_commits s' = r_commits s"
    "r_objects s' = r_objects s" "r_current_rev s' = r_current_rev s" "r_tree_entries s' = r_tree_entries s"
    "r_pending s' = r_pending s" "r_head_file s' = r_head_file s" "r_uuid s' = r_uuid s"
  using assms by (auto simp: only_cache_def)

lemma only_cache_trans: "only_cache s t \<Longrightarrow> only_cache t u \<Longrightarrow> only_cache s u"
  by (auto simp: only_cache_def)

lemma only_cache_tree_of: "only_cache s s' \<Longrightarrow> tree_of E s' = tree_of E s"
  by (rule tree_of_cong) (rule only_cacheD)

section \<open>The cache\<close>

lemma lru_okD:
  assumes "lru_ok E"
  shows "fst (lru_get E c k) = lru_view E c k"
    and "lru_view E (snd (lru_get E c k)) = lru_view E c"
    and "lru_view E (lru_put E k v c) j = Some t \<Longrightarrow> if j = k then t = v else lru_view E c j = Some t"
    and "lru_view E (lru_empty E) k = None"
  using assms unfolding lru_ok_def by blast+

lemma cache_get_ok:
  assumes "lru_ok E"
  obtains s1 where "cache_get E r s = (lru_view E (r_cache s) r, s1)" and "only_cache s s1"
    and "lru_view E (r_cache s1) = lru_view E (r_cache s)"
proof -
  obtain hit c where g: "lru_get E (r_cache s) r = (hit, c)" by (cases "lru_get E (r_cache s) r")
  then have "hit = lru_view E (r_cache s) r" and "lru_view E c = lru_view E (r_cache s)"
    using lru_okD(1,2) [OF assms, of "r_cache s" r] by simp_all
  with g show ?thesis by (intro that [of "s\<lparr>r_cache := c\<rparr>"]) (simp_all add: cache_get_def)
qed

lemma history_inv_cache:
  assumes "history_inv E s" and "only_cache s s'"
    and "\<And>r t. lru_view E (r_cache s') r = Some t \<Longrightarrow> r \<le> r_current_rev s \<and> t = tree_of E s r"
  shows "history_inv E s'"
  using assms(1,3) only_cacheD [OF assms(2)] only_cache_tree_of [OF assms(2), of E]
  unfolding history_inv_def delta_at_def by simp

lemma history_inv_cache_view:
  assumes "history_inv E s" and "only_cache s s'" and "lru_view E (r_cache s') = lru_view E (r_cache s)"
  shows "history_inv E s'"
  using history_invD(6,7) [OF assms(1)] by (intro history_inv_cache [OF assms(1,2)]) (simp add: assms(3))

lemma history_inv_put:
  assumes "lru_ok E" and "history_inv E s" and "r \<le> r_current_rev s" and "t = tree_of E s r"
  shows "history_inv E (cache_put E r t s)"
proof (rule history_inv_cache [OF assms(2)])
  fix j u
  assume "lru_view E (r_cache (cache_put E r t s)) j = Some u"
  then have "lru_view E (lru_put E r t (r_cache s)) j = Some u" by (simp add: cache_put_def)
  then have "if j = r then u = t else lru_view E (r_cache s) j = Some u"
    by (rule lru_okD(3) [OF assms(1)])
  with assms(3,4) history_invD(6,7) [OF assms(2)] show "j \<le> r_current_rev s \<and> u = tree_of E s j"
    by (cases "j = r") simp_all
qed (simp add: cache_put_def)

lemma only_cache_put [simp]: "only_cache s (cache_put E r t s)"
  by (simp add: cache_put_def)

section \<open>Walking the delta chain\<close>

text \<open>The deltas from revision \<open>cur\<close> back to, but not including, revision \<open>b\<close>.\<close>

fun links :: "'c repo_env \<Rightarrow> 'c repo \<Rightarrow> nat \<Rightarrow> (nat \<times> delta_tree) list \<Rightarrow> nat \<Rightarrow> bool" where
  "links E s cur [] b = (cur = b)"
| "links E s cur ((r, d) # rest) b =
     (r = cur \<and> 0 < cur \<and> delta_at E s cur = Some d \<and> links E s (cur - 1) rest b)"

definition base_known :: "'c repo_env \<Rightarrow> 'c repo \<Rightarrow> nat \<Rightarrow> bool" where
  "base_known E s b \<longleftrightarrow> b = 0 \<or> lru_view E (r_cache s) b \<noteq> None \<or> has_tree_snapshot s b"

lemma links_cong: "r_deltas s' = r_deltas s \<Longrightarrow> links E s' n xs b = links E s n xs b"
proof (induction xs arbitrary: n)
  case (Cons x xs)
  then show ?case by (cases x) (simp add: delta_at_def)
qed simp

lemma load_delta_ok: "delta_at E s r = Some d \<Longrightarrow> has_delta_tree s r \<and> load_delta_tree E s r = Inr d"
  by (auto simp: delta_at_def has_delta_tree_def ohas_def load_delta_tree_def bind_eq_Some_conv)

lemma collect_chain_ok:
  assumes "lru_ok E" and "history_inv E s" and "cur \<le> r_current_rev s"
  shows "\<exists>s' b rest. collect_chain E s cur chain = Some (s', ChainBase b (chain @ rest)) \<and>
           only_cache s s' \<and> lru_view E (r_cache s') = lru_view E (r_cache s) \<and>
           links E s cur rest b \<and> b \<le> cur \<and> base_known E s' b"
  using assms(2,3)
proof (induction cur arbitrary: s chain)
  case 0
  show ?case
    by (intro exI [of _ s] exI [of _ 0] exI [of _ "[]"]) (simp add: collect_chain.simps base_known_def)
next
  case (Suc cur)
  obtain s1 where g: "cache_get E (Suc cur) s = (lru_view E (r_cache s) (Suc cur), s1)"
    and oc: "only_cache s s1" and view: "lru_view E (r_cache s1) = lru_view E (r_cache s)"
    using cache_get_ok [OF assms(1)] .
  show ?case
  proof (cases "lru_view E (r_cache s) (Suc cur) \<noteq> None \<or> has_tree_snapshot s1 (Suc cur)")
    case True
    then have "collect_chain E s (Suc cur) chain = Some (s1, ChainBase (Suc cur) (chain @ []))"
      by (subst collect_chain.simps) (auto simp: g)
    moreover have "base_known E s1 (Suc cur)" using True view by (simp add: base_known_def)
    ultimately show ?thesis using oc view by (metis links.simps(1) order_refl)
  next
    case False
    obtain d where d: "delta_at E s (Suc cur) = Some d" and p: "parent_rev d = cur"
      using history_invD(1) [OF Suc.prems(1), of "Suc cur"] Suc.prems(2) by auto
    have d1: "delta_at E s1 (Suc cur) = Some d"
      using d only_cacheD(1) [OF oc] by (simp add: delta_at_def)
    have step: "collect_chain E s (Suc cur) chain = collect_chain E s1 cur (chain @ [(Suc cur, d)])"
      using False load_delta_ok [OF d1] p by (subst collect_chain.simps) (simp add: g)
    have "history_inv E s1" by (rule history_inv_cache_view [OF Suc.prems(1) oc view])
    moreover have "cur \<le> r_current_rev s1" using Suc.prems(2) only_cacheD(5) [OF oc] by simp
    ultimately obtain s' b rest where IH:
      "collect_chain E s1 cur (chain @ [(Suc cur, d)]) = Some (s', ChainBase b ((chain @ [(Suc cur, d)]) @ rest))"
      "only_cache s1 s'" "lru_view E (r_cache s') = lru_view E (r_cache s1)" "links E s1 cur rest b" "b \<le> cur"
      "base_known E s' b"
      using Suc.IH by blast
    have "links E s (Suc cur) ((Suc cur, d) # rest) b"
      using IH(4) d links_cong [OF only_cacheD(1) [OF oc]] by simp
    moreover have "only_cache s s'" by (rule only_cache_trans [OF oc IH(2)])
    ultimately show ?thesis
      using step IH view by (intro exI [of _ s'] exI [of _ b] exI [of _ "(Suc cur, d) # rest"]) simp
  qed
qed

lemma snapshot_ok:
  assumes "history_inv E s" and "0 < r" and "has_tree_snapshot s r"
  shows "load_tree_snapshot E s r = Inr \<lparr>entries = tree_of E s r\<rparr> \<and> r \<le> r_current_rev s"
proof -
  obtain bs where bs: "map_of (r_snapshots s) r = Some bs"
    using assms(3) by (auto simp: has_tree_snapshot_def ohas_def)
  have "de_tree E bs = Some \<lparr>entries = tree_of E s r\<rparr>"
    by (rule history_invD(5) [OF assms(1,2) bs])
  moreover have "r \<le> r_current_rev s"
    using history_invD(3) [OF assms(1), of r] bs by (cases "r_current_rev s < r") simp_all
  ultimately show ?thesis by (simp add: load_tree_snapshot_def bs)
qed

lemma base_tree_ok:
  assumes "lru_ok E" and "history_inv E s" and "base_known E s b"
  shows "\<exists>s'. base_tree E b s = (s', Inr (tree_of E s b)) \<and> only_cache s s' \<and> history_inv E s'"
proof (cases "b = 0")
  case True
  with assms(2) show ?thesis by (simp add: base_tree_def)
next
  case False
  obtain s1 where g: "cache_get E b s = (lru_view E (r_cache s) b, s1)"
    and oc: "only_cache s s1" and view: "lru_view E (r_cache s1) = lru_view E (r_cache s)"
    using cache_get_ok [OF assms(1)] .
  have inv1: "history_inv E s1" by (rule history_inv_cache_view [OF assms(2) oc view])
  note tree1 = only_cache_tree_of [OF oc, of E]
  show ?thesis
  proof (cases "lru_view E (r_cache s) b")
    case (Some t)
    with history_invD(7) [OF assms(2), of b t] False g inv1 oc show ?thesis
      by (simp add: base_tree_def)
  next
    case None
    then have "has_tree_snapshot s b" using assms(3) False by (simp add: base_known_def)
    then have snap: "has_tree_snapshot s1 b"
      using only_cacheD(2) [OF oc] by (simp add: has_tree_snapshot_def)
    have ld: "load_tree_snapshot E s1 b = Inr \<lparr>entries = tree_of E s b\<rparr>" "b \<le> r_current_rev s1"
      using snapshot_ok [OF inv1 _ snap] False tree1 by simp_all
    have "base_tree E b s = (cache_put E b (tree_of E s b) s1, Inr (tree_of E s b))"
      using False None g snap ld by (simp add: base_tree_def tree_to_map_entries Let_def)
    moreover have "history_inv E (cache_put E b (tree_of E s b) s1)"
      by (rule history_inv_put [OF assms(1) inv1 ld(2)]) (simp add: tree1)
    ultimately show ?thesis using only_cache_trans [OF oc only_cache_put] by simp
  qed
qed

lemma apply_chain_append:
  "apply_chain E (xs @ ys) st = apply_chain E ys (apply_chain E xs st)"
  by (induction E xs st rule: apply_chain.induct) (simp_all add: Let_def)

lemma apply_chain_ok:
  assumes "lru_ok E" and "history_inv E s" and "links E s cur rest b" and "cur \<le> r_current_rev s"
  shows "\<exists>s'. apply_chain E (rev rest) (s, tree_of E s b) = (s', tree_of E s cur) \<and>
              only_cache s s' \<and> history_inv E s'"
  using assms(3,4)
proof (induction rest arbitrary: cur)
  case Nil
  with assms(2) show ?case by simp
next
  case (Cons x rest)
  obtain d where x: "x = (cur, d)" and d: "delta_at E s cur = Some d" and pos: "0 < cur"
    and rest: "links E s (cur - 1) rest b" using Cons.prems(1) by (cases x) auto
  obtain s1 where IH: "apply_chain E (rev rest) (s, tree_of E s b) = (s1, tree_of E s (cur - 1))"
    and oc: "only_cache s s1" and inv: "history_inv E s1"
    using Cons.IH [OF rest] diff_le_self [THEN le_trans, OF Cons.prems(2)] by blast
  have eq: "apply_changes (changes d) (tree_of E s (cur - 1)) = tree_of E s cur"
    using tree_of_step [OF pos d] by simp
  have "history_inv E (cache_put E cur (tree_of E s cur) s1)"
    using Cons.prems(2) only_cacheD(5) [OF oc] only_cache_tree_of [OF oc, of E]
    by (intro history_inv_put [OF assms(1) inv]) simp_all
  then show ?case
    using only_cache_trans [OF oc only_cache_put] by (simp add: x apply_chain_append IH eq [simplified] Let_def)
qed

section \<open>Reconstruction is correct\<close>

lemma get_tree_at_rev_ok:
  assumes "lru_ok E" and "history_inv E s" and "r \<le> r_current_rev s"
  shows "\<exists>s'. get_tree_at_rev E r s = Some (s', Inr (tree_of E s r)) \<and> only_cache s s' \<and> history_inv E s'"
proof (cases "r = 0")
  case True
  with assms(2) show ?thesis by (simp add: get_tree_at_rev_def)
next
  case False
  obtain s1 where g: "cache_get E r s = (lru_view E (r_cache s) r, s1)"
    and oc: "only_cache s s1" and view: "lru_view E (r_cache s1) = lru_view E (r_cache s)"
    using cache_get_ok [OF assms(1)] .
  have inv1: "history_inv E s1" by (rule history_inv_cache_view [OF assms(2) oc view])
  note tree1 = only_cache_tree_of [OF oc, of E]
  have r1: "r \<le> r_current_rev s1" using assms(3) only_cacheD(5) [OF oc] by simp
  consider (hit) t where "lru_view E (r_cache s) r = Some t"
    | (snap) "lru_view E (r_cache s) r = None" "has_tree_snapshot s1 r"
    | (chain) "lru_view E (r_cache s) r = None" "\<not> has_tree_snapshot s1 r" by fastforce
  then show ?thesis
  proof cases
    case hit
    with history_invD(7) [OF assms(2)] False g inv1 oc show ?thesis by (simp add: get_tree_at_rev_def)
  next
    case snap
    have ld: "load_tree_snapshot E s1 r = Inr \<lparr>entries = tree_of E s r\<rparr>"
      using snapshot_ok [OF inv1 _ snap(2)] False tree1 by simp
    have "history_inv E (cache_put E r (tree_of E s r) s1)"
      by (rule history_inv_put [OF assms(1) inv1 r1]) (simp add: tree1)
    then show ?thesis using False snap g ld only_cache_trans [OF oc only_cache_put]
      by (simp add: get_tree_at_rev_def tree_to_map_entries Let_def)
  next
    case chain
    obtain s2 b rest where c: "collect_chain E s1 r [] = Some (s2, ChainBase b rest)"
      and oc2: "only_cache s1 s2" and view2: "lru_view E (r_cache s2) = lru_view E (r_cache s1)"
      and lk: "links E s1 r rest b" and bk: "base_known E s2 b"
      using collect_chain_ok [OF assms(1) inv1 r1, of "[]"] by auto
    have inv2: "history_inv E s2" by (rule history_inv_cache_view [OF inv1 oc2 view2])
    obtain s3 where bt: "base_tree E b s2 = (s3, Inr (tree_of E s2 b))"
      and oc3: "only_cache s2 s3" and inv3: "history_inv E s3"
      using base_tree_ok [OF assms(1) inv2 bk] by blast
    note oc13 = only_cache_trans [OF oc2 oc3]
    have tr: "tree_of E s2 = tree_of E s" "tree_of E s3 = tree_of E s"
      using tree1 only_cache_tree_of [OF oc2, of E] only_cache_tree_of [OF oc13, of E] by simp_all
    have "links E s3 r rest b" using lk links_cong [OF only_cacheD(1) [OF oc13]] by simp
    moreover have "r \<le> r_current_rev s3" using r1 only_cacheD(5) [OF oc13] by simp
    ultimately obtain s4 where "apply_chain E (rev rest) (s3, tree_of E s3 b) = (s4, tree_of E s3 r)"
      and "only_cache s3 s4" and "history_inv E s4"
      using apply_chain_ok [OF assms(1) inv3] by blast
    with False chain g c bt tr only_cache_trans [OF only_cache_trans [OF oc oc13]] show ?thesis
      by (simp add: get_tree_at_rev_def)
  qed
qed

end
