(* ===== verification/Revision_Store.thy ===== *)
theory Revision_Store
  imports Prelude
begin

text \<open>
  What a versioned repository promises its clients (the WebDAV handlers, the dump loader, the
  synchronisation tools), independently of how it stores trees: edits change the working tree
  and no revision; a commit adds exactly one revision, which is the working tree, and changes
  no earlier one. The client lemmas are about whole runs of edits and commits.
\<close>

text \<open>The edits both repositories offer: add a file with its content and executable flag, make a directory, delete a path.\<close>

datatype edit =
    AddFile string bytes bool
  | MkDir string
  | DeleteFile string

text \<open>A run of edits (\<open>Inl\<close>) and commits (\<open>Inr\<close>): \<open>None\<close> when an edit is refused or a commit fails.\<close>

fun run_steps ::
    "('e \<Rightarrow> 's \<Rightarrow> 's) \<Rightarrow> ('e \<Rightarrow> 's \<Rightarrow> bool) \<Rightarrow> ('m \<Rightarrow> 's \<Rightarrow> 's option) \<Rightarrow> ('e + 'm) list \<Rightarrow> 's \<Rightarrow> 's option" where
  "run_steps edit edit_ok cmt [] s = Some s"
| "run_steps edit edit_ok cmt (Inl e # steps) s =
     (if edit_ok e s then run_steps edit edit_ok cmt steps (edit e s) else None)"
| "run_steps edit edit_ok cmt (Inr m # steps) s =
     (case cmt m s of None \<Rightarrow> None | Some s' \<Rightarrow> run_steps edit edit_ok cmt steps s')"

lemma run_steps_append:
  "run_steps f ok c (xs @ ys) s =
     Option.bind (run_steps f ok c xs s) (run_steps f ok c ys)"
proof (induction xs arbitrary: s)
  case (Cons st xs)
  then show ?case by (cases st) (auto split: option.splits)
qed simp

definition count_commits :: "('e + 'm) list \<Rightarrow> nat" where
  "count_commits steps = length (filter (\<lambda>st. \<not> isl st) steps)"

locale revision_store =
  fixes inv :: "'s \<Rightarrow> bool"
    and head :: "'s \<Rightarrow> nat"
    and tree_at :: "'s \<Rightarrow> nat \<Rightarrow> 't"
    and working :: "'s \<Rightarrow> 't"
    and edit :: "'e \<Rightarrow> 's \<Rightarrow> 's"
    and edit_ok :: "'e \<Rightarrow> 's \<Rightarrow> bool"
    and cmt :: "'m \<Rightarrow> 's \<Rightarrow> 's option"
  assumes edit_inv: "inv s \<Longrightarrow> edit_ok e s \<Longrightarrow> inv (edit e s)"
    and edit_head: "inv s \<Longrightarrow> edit_ok e s \<Longrightarrow> head (edit e s) = head s"
    and edit_tree: "inv s \<Longrightarrow> edit_ok e s \<Longrightarrow> r \<le> head s \<Longrightarrow> tree_at (edit e s) r = tree_at s r"
    and cmt_inv: "inv s \<Longrightarrow> cmt m s = Some s' \<Longrightarrow> inv s'"
    and cmt_head: "inv s \<Longrightarrow> cmt m s = Some s' \<Longrightarrow> head s' = Suc (head s)"
    and cmt_new: "inv s \<Longrightarrow> cmt m s = Some s' \<Longrightarrow> tree_at s' (Suc (head s)) = working s"
    and cmt_old: "inv s \<Longrightarrow> cmt m s = Some s' \<Longrightarrow> r \<le> head s \<Longrightarrow> tree_at s' r = tree_at s r"
    and cmt_working: "inv s \<Longrightarrow> cmt m s = Some s' \<Longrightarrow> working s' = working s"
begin

text \<open>A run keeps the invariant, counts one revision per commit and rewrites no revision.\<close>

lemma run_steps_ok:
  assumes "inv s" and "run_steps edit edit_ok cmt steps s = Some s'"
  shows "inv s' \<and> head s' = head s + count_commits steps \<and>
         (\<forall>r \<le> head s. tree_at s' r = tree_at s r)"
  using assms
proof (induction steps arbitrary: s)
  case Nil
  then show ?case by (simp add: count_commits_def)
next
  case (Cons st steps)
  show ?case
  proof (cases st)
    case (Inl e)
    with Cons.prems have ok: "edit_ok e s" and run: "run_steps edit edit_ok cmt steps (edit e s) = Some s'"
      by (simp_all split: if_splits)
    from Cons.IH [OF edit_inv [OF Cons.prems(1) ok] run] show ?thesis
      using edit_head [OF Cons.prems(1) ok] edit_tree [OF Cons.prems(1) ok] by (simp add: Inl count_commits_def)
  next
    case (Inr m)
    with Cons.prems obtain t where c: "cmt m s = Some t" and run: "run_steps edit edit_ok cmt steps t = Some s'"
      by (auto split: option.splits)
    note facts = cmt_head [OF Cons.prems(1) c] cmt_old [OF Cons.prems(1) c]
    from Cons.IH [OF cmt_inv [OF Cons.prems(1) c] run] facts show ?thesis
      by (simp add: Inr count_commits_def)
  qed
qed

text \<open>The revision a commit inside a run creates is the working tree it saw, for ever after.\<close>

lemma run_records_commit:
  assumes "inv s" and "run_steps edit edit_ok cmt pre s = Some t" and "cmt m t = Some u"
    and "run_steps edit edit_ok cmt post u = Some v"
  shows "tree_at v (Suc (head s + count_commits pre)) = working t"
proof -
  note t = run_steps_ok [OF assms(1,2)]
  then have "inv t" by blast
  note u = cmt_inv [OF \<open>inv t\<close> assms(3)] cmt_head [OF \<open>inv t\<close> assms(3)] cmt_new [OF \<open>inv t\<close> assms(3)]
  from run_steps_ok [OF u(1) assms(4)] u t show ?thesis by simp
qed

end

end
