(* ===== verification/Sqlite_Commit.thy ===== *)
theory Sqlite_Commit
  imports Sqlite_History Revision_Store
begin

text \<open>
  Edits and commits of the SQLite repository against the specification \<open>tree_of\<close>.
  \<open>work_inv\<close> says that the working tree is the head tree with the pending changes laid over
  it; this is what makes a commit, which stores the pending changes only, record the working
  tree. An edit keeps it when it is \<open>edit_safe\<close>. Commits and edits together implement the
  interface \<open>revision_store\<close>.
\<close>

section \<open>Invariant\<close>

definition work_inv :: "'c repo_env \<Rightarrow> 'c repo \<Rightarrow> bool" where
  "work_inv E s \<longleftrightarrow> tables_ok s \<and>
     map_of (work s) = overlay (pend_of s) (map_of (tree_of E s (r_current_rev s)))"

definition repo_inv :: "'c repo_env \<Rightarrow> 'c repo \<Rightarrow> bool" where
  "repo_inv E s \<longleftrightarrow> env_ok E \<and> history_inv E s \<and> work_inv E s"

section \<open>Edits\<close>

fun apply_edit :: "'c repo_env \<Rightarrow> edit \<Rightarrow> 'c repo \<Rightarrow> 'c repo" where
  "apply_edit E (AddFile p c x) s = fst (add_file E p c x s)"
| "apply_edit E (MkDir p) s = fst (mkdir E p s)"
| "apply_edit E (DeleteFile p) s = delete_file p s"

text \<open>
  Adding a path whose deletion is pending is safe when the head tree has nothing below it.
  Deleting a path is safe when no addition below it is pending and the \<open>LIKE\<close> pattern selects
  only paths below it.
\<close>

definition add_safe :: "'c repo_env \<Rightarrow> 'c repo \<Rightarrow> string \<Rightarrow> bool" where
  "add_safe E s q \<longleftrightarrow> pend_of s q = Some None \<longrightarrow>
     (\<forall>k \<in> set (okeys (tree_of E s (r_current_rev s))). \<not> below q k)"

definition delete_safe :: "'c repo \<Rightarrow> string \<Rightarrow> bool" where
  "delete_safe s q \<longleftrightarrow>
     (\<forall>k \<in> set (okeys (r_pending s)). below q k \<longrightarrow> pend_of s k = Some None) \<and>
     (\<forall>k \<in> set (okeys (r_tree_entries s)). sql_like (q @ ''/%'') k \<longrightarrow> below q k)"

fun edit_safe :: "'c repo_env \<Rightarrow> edit \<Rightarrow> 'c repo \<Rightarrow> bool" where
  "edit_safe E (AddFile p c x) s = add_safe E s (trim_start_matches CHR ''/'' p)"
| "edit_safe E (MkDir p) s = add_safe E s (trim_start_matches CHR ''/'' p)"
| "edit_safe E (DeleteFile p) s = delete_safe s (trim_start_matches CHR ''/'' p)"

text \<open>Edits touch the tables and the object store only.\<close>

definition same_history :: "'c repo \<Rightarrow> 'c repo \<Rightarrow> bool" where
  "same_history s s' \<longleftrightarrow> r_deltas s' = r_deltas s \<and> r_snapshots s' = r_snapshots s \<and>
     r_commits s' = r_commits s \<and> r_current_rev s' = r_current_rev s \<and> r_cache s' = r_cache s \<and>
     r_head_file s' = r_head_file s"

lemma same_history_simps [simp]:
  "same_history s (conn_tree_insert p i k m s')  = same_history s s'"
  "same_history s (conn_tree_remove p s') = same_history s s'"
  "same_history s (store_object i d s') = same_history s s'"
  "same_history s s"
  "same_history s (s'\<lparr>r_pending := x\<rparr>) = same_history s s'"
  by (simp_all add: same_history_def conn_tree_insert_def conn_tree_remove_def store_object_def)

lemma same_history_edit [simp]: "same_history s (apply_edit E e s)"
  by (cases e) (simp_all add: add_file_def mkdir_def delete_file_def Let_def)

lemma same_history_tree: "same_history s s' \<Longrightarrow> tree_of E s' = tree_of E s"
  by (rule tree_of_cong) (simp add: same_history_def)

lemma same_history_inv: "same_history s s' \<Longrightarrow> history_inv E s' = history_inv E s"
  using same_history_tree [of s s' E] by (simp add: history_inv_def delta_at_def same_history_def)

lemma store_object_tables [simp]:
  "tables_ok (store_object i d s) = tables_ok s" "work (store_object i d s) = work s"
  "pend_of (store_object i d s) = pend_of s" "r_current_rev (store_object i d s) = r_current_rev s"
  "r_deltas (store_object i d s) = r_deltas s"
  by (simp_all add: store_object_def tables_ok_def work_def conn_build_tree_def pend_of_def fun_eq_iff)

lemma work_inv_store_object [simp]: "work_inv E (store_object i d s) = work_inv E s"
  using tree_of_cong [of "store_object i d s" s E] by (simp add: work_inv_def)

lemma work_inv_insert:
  assumes "work_inv E s" and "oid_ok i" and "k \<noteq> KCommit" and "add_safe E s q"
  shows "work_inv E (conn_tree_insert q i k m s)"
proof -
  let ?s = "conn_tree_insert q i k m s"
  have tree: "tree_of E ?s = tree_of E s" "r_current_rev ?s = r_current_rev s"
    by (simp_all add: tree_of_def fun_eq_iff conn_tree_insert_def)
  have tab: "tables_ok s" using assms(1) by (simp add: work_inv_def)
  have "pend_of s q = Some None \<Longrightarrow>
      \<forall>k. below q k \<longrightarrow> map_of (tree_of E s (r_current_rev s)) k = None"
    using assms(4) unfolding add_safe_def set_okeys by blast
  then have "overlay (pend_of ?s) (map_of (tree_of E s (r_current_rev s))) =
      (overlay (pend_of s) (map_of (tree_of E s (r_current_rev s))))(q \<mapsto> tree_entry_new q i k m)"
    unfolding pend_insert [OF assms(2,3)] by (rule overlay_by_upsert)
  then show ?thesis
    using assms(1) work_insert [OF tab assms(2,3)] tables_ok_insert [OF tab]
    by (simp add: work_inv_def tree)
qed

lemma work_inv_remove:
  assumes "work_inv E s" and "delete_safe s q"
  shows "work_inv E (conn_tree_remove q s)"
proof -
  let ?s = "conn_tree_remove q s"
  let ?base = "map_of (tree_of E s (r_current_rev s))"
  have tree: "tree_of E ?s = tree_of E s" "r_current_rev ?s = r_current_rev s"
    by (simp_all add: tree_of_def fun_eq_iff conn_tree_remove_def)
  have tab: "tables_ok s" and w: "map_of (work s) = overlay (pend_of s) ?base"
    using assms(1) by (simp_all add: work_inv_def)
  have pend: "\<forall>k. below q k \<longrightarrow> pend_of s k \<in> {None, Some None}"
    using assms(2) unfolding delete_safe_def set_okeys by (auto simp: pend_of_def)
  have like: "map_of (work s) k = None" if "sql_like (q @ ''/%'') k" "\<not> below q k" for k
  proof -
    have "k \<notin> dom (map_of (r_tree_entries s))"
      using assms(2) that unfolding delete_safe_def set_okeys by blast
    then show ?thesis by (simp add: map_of_work [OF tab] domIff)
  qed
  have "map_of (work ?s) = (\<lambda>k. if k = q \<or> below q k then None else map_of (work s) k)"
  proof
    fix k
    show "map_of (work ?s) k = (if k = q \<or> below q k then None else map_of (work s) k)"
      using like [of k] below_sql_like [of q k] unfolding work_remove [OF tab] by presburger
  qed
  also have "\<dots> = overlay (pend_of ?s) ?base"
    unfolding w pend_remove using pend by (rule overlay_by_delete [symmetric])
  finally show ?thesis
    using tables_ok_remove [OF tab] by (simp add: work_inv_def tree)
qed

lemma externals_ok_env: "env_ok E \<Longrightarrow> externals_ok E"
  by (simp add: env_ok_def)

lemma add_safe_store [simp]: "add_safe E (store_object i d s) q = add_safe E s q"
  using tree_of_cong [of "store_object i d s" s E] by (simp add: add_safe_def)

lemma edit_work_inv:
  assumes "env_ok E" and "work_inv E s" and "edit_safe E e s"
  shows "work_inv E (apply_edit E e s)"
  using assms externals_ok_env [OF assms(1)]
  by (cases e)
    (auto simp: add_file_def mkdir_def delete_file_def Let_def tree_obj_id_def
      intro!: work_inv_insert work_inv_remove)

lemma edit_repo_inv:
  assumes "repo_inv E s" and "edit_safe E e s"
  shows "repo_inv E (apply_edit E e s)"
  using assms edit_work_inv [of E s e] same_history_inv [OF same_history_edit [of s E e], of E]
  by (simp add: repo_inv_def)

section \<open>What a commit writes\<close>

definition commits_as :: "'c repo_env \<Rightarrow> tree_change list \<Rightarrow> string \<Rightarrow> string \<Rightarrow> int \<Rightarrow> 'c repo \<Rightarrow> 'c repo \<Rightarrow> bool" where
  "commits_as E chs a m ts s s' \<longleftrightarrow>
     (let nr = Suc (r_current_rev s) in
      r_current_rev s' = nr \<and>
      r_deltas s' = oput nr (ser_delta E (delta_tree_new (r_current_rev s) chs (length (r_tree_entries s)))) (r_deltas s) \<and>
      r_snapshots s' = (if nr mod SNAPSHOT_INTERVAL = 0
                        then oput nr (ser_tree E (conn_build_tree s)) (r_snapshots s) else r_snapshots s) \<and>
      (\<exists>tid. r_commits s' = oput nr (ser_commit E (commit_new tid (parents_of E (r_current_rev s) s) a m ts 0)) (r_commits s)) \<and>
      r_cache s' = r_cache s \<and> r_tree_entries s' = r_tree_entries s \<and> r_pending s' = [] \<and>
      r_head_file s' = Some (show_nat nr) \<and>
      (\<forall>i bs. map_of (r_objects s) i = Some bs \<longrightarrow> map_of (r_objects s') i = Some bs))"

lemma store_object_keeps:
  "map_of (r_objects s) i = Some bs \<Longrightarrow> map_of (r_objects (store_object j d s)) i = Some bs"
  by (auto simp: store_object_def ohas_def omap_simps)

lemma store_object_fields [simp]:
  "r_snapshots (store_object i d s) = r_snapshots s" "r_commits (store_object i d s) = r_commits s"
  "r_cache (store_object i d s) = r_cache s" "r_tree_entries (store_object i d s) = r_tree_entries s"
  "r_pending (store_object i d s) = r_pending s" "r_head_file (store_object i d s) = r_head_file s"
  by (simp_all add: store_object_def)

lemma parents_of_cong: "r_commits s' = r_commits s \<Longrightarrow> parents_of E r s' = parents_of E r s"
  by (simp add: parents_of_def load_commit_def cong: if_cong)

lemma conn_build_tree_cong: "r_tree_entries s' = r_tree_entries s \<Longrightarrow> conn_build_tree s' = conn_build_tree s"
  by (simp add: conn_build_tree_def)

text \<open>Which field each write changes.\<close>

lemma write_fields [simp]:
  "r_commits (store_commit E r c s) = oput r (ser_commit E c) (r_commits s)"
  "r_deltas (store_delta_tree E r d s) = oput r (ser_delta E d) (r_deltas s)"
  "r_snapshots (store_tree_snapshot E r t s) = oput r (ser_tree E t) (r_snapshots s)"
  "r_head_file (save_head r s) = Some (show_nat r)"
  by (simp_all add: store_commit_def store_delta_tree_def store_tree_snapshot_def save_head_def)

lemma store_commit_frame [simp]:
  "r_current_rev (store_commit E r c s) = r_current_rev s" "r_deltas (store_commit E r c s) = r_deltas s"
  "r_snapshots (store_commit E r c s) = r_snapshots s" "r_cache (store_commit E r c s) = r_cache s"
  "r_tree_entries (store_commit E r c s) = r_tree_entries s" "r_pending (store_commit E r c s) = r_pending s"
  "r_head_file (store_commit E r c s) = r_head_file s" "r_objects (store_commit E r c s) = r_objects s"
  by (simp_all add: store_commit_def)

lemma store_delta_frame [simp]:
  "r_current_rev (store_delta_tree E r d s) = r_current_rev s" "r_commits (store_delta_tree E r d s) = r_commits s"
  "r_snapshots (store_delta_tree E r d s) = r_snapshots s" "r_cache (store_delta_tree E r d s) = r_cache s"
  "r_tree_entries (store_delta_tree E r d s) = r_tree_entries s" "r_pending (store_delta_tree E r d s) = r_pending s"
  "r_head_file (store_delta_tree E r d s) = r_head_file s" "r_objects (store_delta_tree E r d s) = r_objects s"
  by (simp_all add: store_delta_tree_def)

lemma store_snapshot_frame [simp]:
  "r_current_rev (store_tree_snapshot E r t s) = r_current_rev s" "r_commits (store_tree_snapshot E r t s) = r_commits s"
  "r_deltas (store_tree_snapshot E r t s) = r_deltas s" "r_cache (store_tree_snapshot E r t s) = r_cache s"
  "r_tree_entries (store_tree_snapshot E r t s) = r_tree_entries s" "r_pending (store_tree_snapshot E r t s) = r_pending s"
  "r_head_file (store_tree_snapshot E r t s) = r_head_file s" "r_objects (store_tree_snapshot E r t s) = r_objects s"
  by (simp_all add: store_tree_snapshot_def)

lemma save_head_frame [simp]:
  "r_commits (save_head r s) = r_commits s" "r_deltas (save_head r s) = r_deltas s"
  "r_snapshots (save_head r s) = r_snapshots s" "r_cache (save_head r s) = r_cache s"
  "r_tree_entries (save_head r s) = r_tree_entries s" "r_pending (save_head r s) = r_pending s"
  "r_objects (save_head r s) = r_objects s"
  by (simp_all add: save_head_def)

lemma record_commit_fields [simp]:
  "r_commits (record_commit E cr tid a m ts s) =
     oput (cr + 1) (ser_commit E (commit_new tid (parents_of E cr s) a m ts 0)) (r_commits s)"
  "r_deltas (record_commit E cr tid a m ts s) = r_deltas s"
  "r_snapshots (record_commit E cr tid a m ts s) = r_snapshots s"
  "r_cache (record_commit E cr tid a m ts s) = r_cache s"
  "r_tree_entries (record_commit E cr tid a m ts s) = r_tree_entries s"
  "r_pending (record_commit E cr tid a m ts s) = r_pending s"
  by (simp_all add: record_commit_def Let_def)

lemma record_commit_objects:
  "map_of (r_objects s) i = Some bs \<Longrightarrow> map_of (r_objects (record_commit E cr tid a m ts s)) i = Some bs"
  by (simp add: record_commit_def Let_def store_object_keeps)

lemma parent_rev_eq: "(if Suc n > 1 then Suc n - 1 else 0) = n"
  by simp

text \<open>
  With well-formed tables a commit either is rejected by the pre-commit hook, having dropped
  the pending changes, or succeeds.
\<close>

lemma commit_result:
  assumes "tables_ok s"
  obtains (rejected) h chs where
      "run_pre_commit (hooks E) (Suc (r_current_rev s)) a m (hook_date E ts) (hook_files chs) = Inl h"
      "commit E a m ts s = (s\<lparr>r_pending := []\<rparr>, Inl (HookFailed h))"
  | (committed) chs s' where
      "run_pre_commit (hooks E) (Suc (r_current_rev s)) a m (hook_date E ts) (hook_files chs) = Inr ()"
      "sorted_wrt (<) (map change_path chs)" "effects chs = pend_of s"
      "commit E a m ts s = (s', Inr (Suc (r_current_rev s)))" "commits_as E chs a m ts s s'"
proof -
  obtain chs where c: "conn_collect_pending s = (s\<lparr>r_pending := []\<rparr>, Inr (chs, length (r_tree_entries s)))"
    and srt: "sorted_wrt (<) (map change_path chs)" and eff: "effects chs = pend_of s"
    using collect_pending_ok [OF assms] by blast
  let ?pre = "run_pre_commit (hooks E) (Suc (r_current_rev s)) a m (hook_date E ts) (hook_files chs)"
  show ?thesis
  proof (cases ?pre)
    case (Inl h)
    then show ?thesis by (intro rejected [OF Inl]) (simp add: commit_def c Let_def)
  next
    case (Inr u)
    let ?s' = "fst (commit E a m ts s)"
    have par: "parents_of E r (store_object i d (s\<lparr>r_pending := []\<rparr>)) = parents_of E r s" for r i d
      by (rule parents_of_cong) simp
    have tree: "conn_build_tree (s\<lparr>r_pending := []\<rparr>) = conn_build_tree s"
      by (rule conn_build_tree_cong) simp
    have "commit E a m ts s = (?s', Inr (Suc (r_current_rev s)))"
      using Inr by (simp add: commit_def c Let_def)
    moreover have "commits_as E chs a m ts s ?s'"
      unfolding commits_as_def Let_def
      by (cases "Suc (r_current_rev s) mod SNAPSHOT_INTERVAL = 0")
        (use Inr in \<open>auto simp: commit_def c Let_def par tree record_commit_objects store_object_keeps\<close>)
    ultimately show ?thesis using Inr committed [OF _ srt eff] by simp
  qed
qed

lemma commit_sync_result:
  assumes "tables_ok s"
  obtains (rejected) h chs where
      "run_pre_commit (hooks E) (Suc (r_current_rev s)) a m (hook_date E ts) (hook_files chs) = Inl h"
      "commit_sync E a m ts s = (s\<lparr>r_pending := []\<rparr>, Inl (HookFailed h))"
  | (committed) chs s' where
      "run_pre_commit (hooks E) (Suc (r_current_rev s)) a m (hook_date E ts) (hook_files chs) = Inr ()"
      "sorted_wrt (<) (map change_path chs)" "effects chs = pend_of s"
      "commit_sync E a m ts s = (s', Inr (Suc (r_current_rev s)))" "commits_as E chs a m ts s s'"
proof -
  obtain chs where c: "conn_collect_pending s = (s\<lparr>r_pending := []\<rparr>, Inr (chs, length (r_tree_entries s)))"
    and srt: "sorted_wrt (<) (map change_path chs)" and eff: "effects chs = pend_of s"
    using collect_pending_ok [OF assms] by blast
  let ?pre = "run_pre_commit (hooks E) (Suc (r_current_rev s)) a m (hook_date E ts) (hook_files chs)"
  show ?thesis
  proof (cases ?pre)
    case (Inl h)
    then show ?thesis by (intro rejected [OF Inl]) (simp add: commit_sync_def c Let_def)
  next
    case (Inr u)
    let ?s' = "fst (commit_sync E a m ts s)"
    have par: "parents_of E r (store_tree_snapshot E n t (store_object i d (s\<lparr>r_pending := []\<rparr>))) = parents_of E r s"
      "parents_of E r (s\<lparr>r_pending := []\<rparr>) = parents_of E r s" for r n t i d
      by (rule parents_of_cong, simp)+
    have tree: "conn_build_tree (s\<lparr>r_pending := []\<rparr>) = conn_build_tree s"
      by (rule conn_build_tree_cong) simp
    have "commit_sync E a m ts s = (?s', Inr (Suc (r_current_rev s)))"
      using Inr by (simp add: commit_sync_def c Let_def)
    moreover have "commits_as E chs a m ts s ?s'"
      unfolding commits_as_def Let_def
      by (cases "Suc (r_current_rev s) mod SNAPSHOT_INTERVAL = 0")
        (use Inr in \<open>auto simp: commit_sync_def c Let_def par tree record_commit_objects store_object_keeps\<close>)
    ultimately show ?thesis using Inr committed [OF _ srt eff] by simp
  qed
qed

section \<open>A commit records the working tree\<close>

lemma commits_as_old:
  assumes "commits_as E chs a m ts s s'" and "r \<le> r_current_rev s"
  shows "tree_of E s' r = tree_of E s r"
  using assms by (auto simp: tree_of_def commits_as_def Let_def omap_simps intro!: hist_cong)

lemma commits_as_delta:
  assumes "externals_ok E" and "commits_as E chs a m ts s s'"
  shows "delta_at E s' (Suc (r_current_rev s)) =
           Some (delta_tree_new (r_current_rev s) chs (length (r_tree_entries s)))"
    and "r \<noteq> Suc (r_current_rev s) \<Longrightarrow> delta_at E s' r = delta_at E s r"
  using assms by (simp_all add: delta_at_def commits_as_def Let_def omap_simps externals_okD(6))

lemma commits_as_new:
  assumes "externals_ok E" and "commits_as E chs a m ts s s'"
  shows "tree_of E s' (Suc (r_current_rev s)) = apply_changes chs (tree_of E s (r_current_rev s))"
  using tree_of_step [OF _ commits_as_delta(1) [OF assms]] commits_as_old [OF assms(2) order_refl]
  by (simp add: delta_tree_new_def)

lemma commits_as_working:
  assumes "externals_ok E" and "work_inv E s" and "commits_as E chs a m ts s s'"
    and "sorted_wrt (<) (map change_path chs)" and "effects chs = pend_of s"
  shows "tree_of E s' (Suc (r_current_rev s)) = work s"
proof -
  have "map_of (apply_changes chs (tree_of E s (r_current_rev s))) = map_of (work s)"
    using map_of_apply_changes [OF assms(4)] assms(2,5) by (simp add: work_inv_def)
  moreover have "omap_ok (work s)" using assms(2) by (simp add: work_inv_def)
  ultimately have "apply_changes chs (tree_of E s (r_current_rev s)) = work s"
    by (intro omap_eqI) simp_all
  with commits_as_new [OF assms(1,3)] show ?thesis by simp
qed

lemma commits_as_history_inv:
  assumes "env_ok E" and "history_inv E s" and "commits_as E chs a m ts s s'"
    and new: "tree_of E s' (Suc (r_current_rev s)) = work s" and tab: "tables_ok s"
  shows "history_inv E s'"
  unfolding history_inv_def
proof (intro conjI allI impI)
  let ?nr = "Suc (r_current_rev s)"
  note x = externals_ok_env [OF assms(1)]
  have nr: "r_current_rev s' = ?nr" and cache: "r_cache s' = r_cache s"
    using assms(3) by (simp_all add: commits_as_def Let_def)
  fix r
  show "\<exists>d. delta_at E s' r = Some d \<and> parent_rev d = r - 1" if "0 < r" "r \<le> r_current_rev s'"
  proof (cases "r = ?nr")
    case True
    with commits_as_delta(1) [OF x assms(3)] show ?thesis by (simp add: delta_tree_new_def)
  next
    case False
    with commits_as_delta(2) [OF x assms(3)] history_invD(1) [OF assms(2), of r] that nr show ?thesis by simp
  qed
  show "map_of (r_deltas s') r = None" if "r_current_rev s' < r"
    using that assms(3) history_invD(2) [OF assms(2), of r] by (simp add: commits_as_def Let_def omap_simps)
  show "map_of (r_snapshots s') r = None" if "r_current_rev s' < r"
    using that assms(3) history_invD(3) [OF assms(2), of r] by (simp add: commits_as_def Let_def omap_simps)
  show "map_of (r_commits s') r = None" if "r_current_rev s' < r"
    using that assms(3) history_invD(4) [OF assms(2), of r] by (auto simp: commits_as_def Let_def omap_simps)
  show "de_tree E bs = Some \<lparr>entries = tree_of E s' r\<rparr>" if pos: "0 < r" and sn: "map_of (r_snapshots s') r = Some bs" for bs
  proof (cases "map_of (r_snapshots s) r = Some bs \<and> r \<le> r_current_rev s")
    case True
    with history_invD(5) [OF assms(2) pos] commits_as_old [OF assms(3)] show ?thesis by simp
  next
    case False
    then have "r = ?nr" and "bs = ser_tree E (conn_build_tree s)"
      using sn assms(3) history_invD(3) [OF assms(2), of r]
      by (auto simp: commits_as_def Let_def omap_simps split: if_splits)
    with new externals_okD(4) [OF x tree_wf_ok [OF conn_build_tree_wf [OF tables_ok_rows [OF tab]]]]
    show ?thesis by (simp add: conn_build_tree_entries)
  qed
  show "r \<le> r_current_rev s'" if "lru_view E (r_cache s') r = Some t" for t
    using history_invD(6) [OF assms(2)] that cache nr by fastforce
  show "t = tree_of E s' r" if v: "lru_view E (r_cache s') r = Some t" for t
    using history_invD(6,7) [OF assms(2)] commits_as_old [OF assms(3)] v cache by simp
qed

lemma commits_as_work_inv:
  assumes "commits_as E chs a m ts s s'" and "tables_ok s"
    and "tree_of E s' (Suc (r_current_rev s)) = work s"
  shows "work_inv E s'" and "work s' = work s"
proof -
  have f: "r_tree_entries s' = r_tree_entries s" "r_pending s' = []" "r_current_rev s' = Suc (r_current_rev s)"
    using assms(1) by (simp_all add: commits_as_def Let_def)
  then show "work s' = work s" by (simp add: work_def conn_build_tree_def)
  moreover have "pend_of s' = Map.empty" using f by (simp add: pend_of_def fun_eq_iff)
  moreover have "tables_ok s'" using assms(2) f by (simp add: tables_ok_def)
  ultimately show "work_inv E s'" using assms(3) f by (simp add: work_inv_def)
qed

lemma commits_as_repo_inv:
  assumes "repo_inv E s" and "commits_as E chs a m ts s s'"
    and "sorted_wrt (<) (map change_path chs)" and "effects chs = pend_of s"
  shows "repo_inv E s'" and "tree_of E s' (Suc (r_current_rev s)) = work s" and "work s' = work s"
proof -
  have e: "env_ok E" and h: "history_inv E s" and w: "work_inv E s" and t: "tables_ok s"
    using assms(1) by (simp_all add: repo_inv_def work_inv_def)
  show new: "tree_of E s' (Suc (r_current_rev s)) = work s"
    by (rule commits_as_working [OF externals_ok_env [OF e] w assms(2-4)])
  show "repo_inv E s'"
    using e commits_as_history_inv [OF e h assms(2) new t] commits_as_work_inv(1) [OF assms(2) t new]
    by (simp add: repo_inv_def)
  show "work s' = work s" by (rule commits_as_work_inv(2) [OF assms(2) t new])
qed

section \<open>The repository as a revision store\<close>

text \<open>A successful commit as a partial function: \<open>None\<close> when the commit returns an error.\<close>

definition commit_ok :: "'c repo_env \<Rightarrow> string \<times> string \<times> int \<Rightarrow> 'c repo \<Rightarrow> 'c repo option" where
  "commit_ok E c s = (case c of (a, m, ts) \<Rightarrow>
     (case commit E a m ts s of (s', Inr _) \<Rightarrow> Some s' | (s', Inl _) \<Rightarrow> None))"

definition commit_sync_ok :: "'c repo_env \<Rightarrow> string \<times> string \<times> int \<Rightarrow> 'c repo \<Rightarrow> 'c repo option" where
  "commit_sync_ok E c s = (case c of (a, m, ts) \<Rightarrow>
     (case commit_sync E a m ts s of (s', Inr _) \<Rightarrow> Some s' | (s', Inl _) \<Rightarrow> None))"

lemma repo_inv_tables: "repo_inv E s \<Longrightarrow> tables_ok s"
  by (simp add: repo_inv_def work_inv_def)

lemma commit_okE:
  assumes "repo_inv E s" and "commit_ok E c s = Some s'"
  obtains chs a m ts where "commits_as E chs a m ts s s'" "sorted_wrt (<) (map change_path chs)" "effects chs = pend_of s"
proof -
  obtain a m ts where c: "c = (a, m, ts)" by (cases c)
  from repo_inv_tables [OF assms(1)] show ?thesis
  proof (cases rule: commit_result [where E = E and a = a and m = m and ts = ts])
    case rejected
    with assms(2) show ?thesis by (simp add: commit_ok_def c)
  next
    case (committed chs t)
    with assms(2) that [of chs a m ts] show ?thesis by (simp add: commit_ok_def c)
  qed
qed

lemma commit_sync_okE:
  assumes "repo_inv E s" and "commit_sync_ok E c s = Some s'"
  obtains chs a m ts where "commits_as E chs a m ts s s'" "sorted_wrt (<) (map change_path chs)" "effects chs = pend_of s"
proof -
  obtain a m ts where c: "c = (a, m, ts)" by (cases c)
  from repo_inv_tables [OF assms(1)] show ?thesis
  proof (cases rule: commit_sync_result [where E = E and a = a and m = m and ts = ts])
    case rejected
    with assms(2) show ?thesis by (simp add: commit_sync_ok_def c)
  next
    case (committed chs t)
    with assms(2) that [of chs a m ts] show ?thesis by (simp add: commit_sync_ok_def c)
  qed
qed

lemma commits_as_rev: "commits_as E chs a m ts s s' \<Longrightarrow> r_current_rev s' = Suc (r_current_rev s)"
  by (simp add: commits_as_def Let_def)

lemma edit_head_tree:
  "r_current_rev (apply_edit E e s) = r_current_rev s" "tree_of E (apply_edit E e s) = tree_of E s"
  using same_history_edit [of s E e] same_history_tree [OF same_history_edit]
  by (simp_all add: same_history_def)

interpretation sq: revision_store "repo_inv E" r_current_rev "tree_of E" work "apply_edit E" "edit_safe E" "commit_ok E"
  for E :: "'c repo_env"
proof
  fix s s' :: "'c repo" and m r
  assume inv: "repo_inv E s" and c: "commit_ok E m s = Some s'"
  from inv c obtain chs a msg ts where *: "commits_as E chs a msg ts s s'"
    "sorted_wrt (<) (map change_path chs)" "effects chs = pend_of s" by (rule commit_okE)
  note all = commits_as_repo_inv [OF inv *]
  show "repo_inv E s'" "tree_of E s' (Suc (r_current_rev s)) = work s" "work s' = work s" by (rule all)+
  show "r_current_rev s' = Suc (r_current_rev s)" by (rule commits_as_rev [OF *(1)])
  show "r \<le> r_current_rev s \<Longrightarrow> tree_of E s' r = tree_of E s r" by (rule commits_as_old [OF *(1)])
qed (auto intro: edit_repo_inv simp: edit_head_tree)

interpretation sqs: revision_store "repo_inv E" r_current_rev "tree_of E" work "apply_edit E" "edit_safe E" "commit_sync_ok E"
  for E :: "'c repo_env"
proof
  fix s s' :: "'c repo" and m r
  assume inv: "repo_inv E s" and c: "commit_sync_ok E m s = Some s'"
  from inv c obtain chs a msg ts where *: "commits_as E chs a msg ts s s'"
    "sorted_wrt (<) (map change_path chs)" "effects chs = pend_of s" by (rule commit_sync_okE)
  note all = commits_as_repo_inv [OF inv *]
  show "repo_inv E s'" "tree_of E s' (Suc (r_current_rev s)) = work s" "work s' = work s" by (rule all)+
  show "r_current_rev s' = Suc (r_current_rev s)" by (rule commits_as_rev [OF *(1)])
  show "r \<le> r_current_rev s \<Longrightarrow> tree_of E s' r = tree_of E s r" by (rule commits_as_old [OF *(1)])
qed (auto intro: edit_repo_inv simp: edit_head_tree)

end
