(* ===== verification/Sqlite_Behaviour.thy ===== *)
theory Sqlite_Behaviour
  imports Sqlite_Commit
begin

text \<open>
  What clients of the SQLite repository observe: opening and initialising, reading files and
  directories, the log, the metadata of a commit, and the states reachable by any sequence of
  these operations.
\<close>

section \<open>Opening and initialising\<close>

text \<open>A repository directory with nothing in it.\<close>

definition blank :: "'c \<Rightarrow> 'c repo" where
  "blank c = \<lparr>r_uuid = [], r_current_rev = 0, r_tree_entries = [], r_pending = [], r_objects = [],
     r_commits = [], r_snapshots = [], r_deltas = [], r_head_file = None, r_uuid_file = None,
     r_root_tree_bin = None, r_sled_db = None, r_cache = c, r_batch_mode = False\<rparr>"

definition head_saved :: "'c repo \<Rightarrow> bool" where
  "head_saved s \<longleftrightarrow> r_head_file s = Some (show_nat (r_current_rev s)) \<and> r_current_rev s < 2 ^ 64 \<and>
     r_root_tree_bin s = None \<and> r_sled_db s = None"

lemma parse_head_show: "n < 2 ^ 64 \<Longrightarrow> parse_head (show_nat n) = n"
  by (simp add: parse_head_def parse_show_nat)

lemma work_Nil: "r_tree_entries s = [] \<Longrightarrow> work s = []"
  by (simp add: work_def conn_build_tree_def tree_new_def)

lemma pend_Nil: "r_pending s = [] \<Longrightarrow> pend_of s = Map.empty"
  by (simp add: pend_of_def fun_eq_iff)

lemma repo_inv_history:
  assumes "repo_inv E s"
  shows "lru_ok E" and "history_inv E s" and "externals_ok E"
  using assms by (simp_all add: repo_inv_def env_ok_def)

lemma initialize_blank:
  assumes "env_ok E"
  obtains s where "initialize E now (repo_open E u (blank c)) = Some (s, Inr ())" and "repo_inv E s"
    and "head_saved s" and "r_current_rev s = 0" and "work s = []" and "r_uuid s = u"
    and "r_pending s = []" and "get_commit E s 0 \<noteq> None"
proof -
  let ?o = "repo_open E u (blank c)"
  let ?s = "fst (the (initialize E now ?o))"
  note d = initialize_def repo_open_def migrate_root_tree_def migrate_sled_def blank_def Let_def
  have i: "initialize E now ?o = Some (?s, Inr ())" by (simp add: d)
  have f: "r_current_rev ?s = 0" "r_tree_entries ?s = []" "r_pending ?s = []"
    "r_head_file ?s = Some (show_nat 0)" "r_root_tree_bin ?s = None" "r_uuid ?s = u" "r_cache ?s = lru_empty E"
    "\<exists>x. r_deltas ?s = [(0, x)]" "\<exists>x. r_snapshots ?s = [(0, x)]" 
    "r_commits ?s = [(0, ser_commit E (commit_new (tree_obj_id E tree_new) [] ''system'' ''Initial commit'' now 0))]"
    "r_sled_db ?s = None"
    by (simp_all add: d store_object_def store_commit_def store_tree_snapshot_def store_delta_tree_def save_head_def)
  have lru: "lru_ok E" using assms by (simp add: env_ok_def)
  have "history_inv E ?s"
    using f(1,7,8-10) lru_okD(4) [OF lru] by (auto simp: history_inv_def)
  moreover have "work_inv E ?s"
    using f(1-3) by (simp add: work_inv_def tables_ok_def work_Nil pend_Nil)
  ultimately have "repo_inv E ?s" using assms by (simp add: repo_inv_def)
  moreover have "get_commit E ?s 0 \<noteq> None"
    using f(10) externals_okD(5) [OF externals_ok_env [OF assms]]
    by (auto simp: get_commit_def load_commit_def)
  ultimately show ?thesis
    using f by (intro that [OF i]) (simp_all add: head_saved_def work_Nil)
qed

section \<open>Reopening\<close>

text \<open>
  \<open>open\<close> and \<open>initialize\<close> on an existing repository. Every stored entry has the shape the
  table rows can represent, so a lost \<open>tree.sqlite\<close> is rebuilt from the head revision.
\<close>

definition entry_ok :: "string \<Rightarrow> tree_entry \<Rightarrow> bool" where
  "entry_ok k e \<longleftrightarrow> te_name e = k \<and> oid_ok (te_id e) \<and> te_kind e \<noteq> KCommit"

definition entries_ok :: "tree_map \<Rightarrow> bool" where
  "entries_ok m \<longleftrightarrow> (\<forall>k e. map_of m k = Some e \<longrightarrow> entry_ok k e)"

definition trees_ok :: "'c repo_env \<Rightarrow> 'c repo \<Rightarrow> bool" where
  "trees_ok E s \<longleftrightarrow> (\<forall>r \<le> r_current_rev s. entries_ok (tree_of E s r))"

definition entry_row :: "tree_entry \<Rightarrow> tree_row" where
  "entry_row e = \<lparr>row_oid = as_bytes (te_id e), row_kind = kind_to_i64 (te_kind e), row_mode = uint (te_mode e)\<rparr>"

lemma row_entry_ok: "entry_ok k (row_entry k r)"
  by (simp add: entry_ok_def row_entry_def tree_entry_new_def bytes_to_oid_def oid_ok_def i64_to_kind_def)

lemma row_entry_row: "entry_ok k e \<Longrightarrow> row_entry k (entry_row e) = e"
  by (simp add: entry_ok_def row_entry_def entry_row_def tree_entry_new_def)

lemma work_entries_ok: "tables_ok s \<Longrightarrow> entries_ok (work s)"
  by (auto simp: entries_ok_def map_of_work row_entry_ok)

lemma entries_ok_names: "omap_ok m \<Longrightarrow> entries_ok m \<Longrightarrow> map (\<lambda>e. (te_name e, e)) (map snd m) = m"
  by (rule map_idI [of m "\<lambda>p. (te_name (snd p), snd p)", simplified, THEN trans [rotated]])
    (auto simp: entries_ok_def entry_ok_def comp_def omap_ok_distinct)

lemma map_to_tree_entries:
  assumes "omap_ok m" and "entries_ok m"
  shows "map_to_tree m = \<lparr>entries = m\<rparr>"
proof -
  have "entries (fold tree_insert es t) = fold (\<lambda>e n. oput (te_name e) e n) es (entries t)" for es t
    by (induction es arbitrary: t) (simp_all add: tree_insert_def)
  moreover have "fold (\<lambda>e n. oput (te_name e) e n) (map snd m) [] = fold (\<lambda>x n. oput (fst x) (snd x) n) m []"
    using arg_cong [OF entries_ok_names [OF assms], of "\<lambda>m. fold (\<lambda>x n. oput (fst x) (snd x) n) m []"]
    by (simp add: fold_map comp_def)
  ultimately show ?thesis
    using fold_oput_map [OF assms(1), of snd] by (simp add: map_to_tree_def tree_new_def)
qed

lemma insert_rows_ok:
  assumes "distinct (map te_name es)" and "\<forall>e \<in> set es. map_of rows (te_name e) = None"
  shows "insert_rows es rows = (fold (\<lambda>e n. oput (te_name e) (entry_row e) n) es rows, Inr ())"
  using assms
proof (induction es arbitrary: rows)
  case (Cons e es)
  from Cons.prems have "\<forall>x \<in> set es. map_of (oput (te_name e) (entry_row e) rows) (te_name x) = None"
    by (auto simp: omap_simps image_iff)
  with Cons show ?case by (auto simp: entry_row_def ohas_iff)
qed simp

lemma conn_populate_ok:
  assumes "omap_ok m" and "entries_ok m"
  shows "conn_populate \<lparr>entries = m\<rparr> s = (s\<lparr>r_tree_entries := omapv (\<lambda>_. entry_row) m\<rparr>, Inr ())"
proof -
  note names = entries_ok_names [OF assms]
  from arg_cong [OF names, of "map fst"] have n: "map te_name (map snd m) = map fst m"
    by (simp add: comp_def)
  have "fold (\<lambda>e n. oput (te_name e) (entry_row e) n) (map snd m) [] = fold (\<lambda>x n. oput (fst x) (entry_row (snd x)) n) m []"
    using arg_cong [OF names, of "\<lambda>m. fold (\<lambda>x n. oput (fst x) (entry_row (snd x)) n) m []"]
    by (simp add: fold_map comp_def)
  moreover have "distinct (map te_name (map snd m))" by (subst n) (rule omap_ok_distinct [OF assms(1)])
  ultimately show ?thesis
    using fold_oput_map [OF assms(1), of "\<lambda>x. entry_row (snd x)"] insert_rows_ok [of "map snd m" "[]"]
    by (simp add: conn_populate_def tree_iter_def omapv_def case_prod_unfold)
qed

lemma work_populated:
  assumes "omap_ok m" and "entries_ok m" and "r_tree_entries s = omapv (\<lambda>_. entry_row) m"
  shows "work s = m"
proof -
  have "map (\<lambda>x. (fst x, row_entry (fst x) (entry_row (snd x)))) m = m"
  proof (rule map_idI)
    fix x
    assume "x \<in> set m"
    with assms(1,2) have "entry_ok (fst x) (snd x)" by (auto simp: entries_ok_def omap_ok_distinct)
    then show "(fst x, row_entry (fst x) (entry_row (snd x))) = x" by (simp add: row_entry_row)
  qed
  then show ?thesis
    using assms(1) by (simp add: work_eq assms(3)) (simp add: omapv_def comp_def case_prod_unfold)
qed

lemma repo_open_saved:
  assumes "head_saved s"
  shows "r_current_rev (repo_open E u s) = r_current_rev s" "r_cache (repo_open E u s) = lru_empty E"
    "r_deltas (repo_open E u s) = r_deltas s" "r_snapshots (repo_open E u s) = r_snapshots s"
    "r_commits (repo_open E u s) = r_commits s" "r_objects (repo_open E u s) = r_objects s"
    "r_tree_entries (repo_open E u s) = r_tree_entries s" "r_pending (repo_open E u s) = r_pending s"
    "r_head_file (repo_open E u s) = Some (show_nat (r_current_rev s))" "head_saved (repo_open E u s)"
  using assms parse_head_show [of "r_current_rev s"]
  by (simp_all add: repo_open_def migrate_root_tree_def migrate_sled_def head_saved_def Let_def case_prod_unfold)

lemma repo_open_history:
  assumes "lru_ok E" and "head_saved s" and "history_inv E s"
  shows "history_inv E (repo_open E u s)" and "tree_of E (repo_open E u s) = tree_of E s"
proof -
  show t: "tree_of E (repo_open E u s) = tree_of E s"
    by (rule tree_of_cong [OF repo_open_saved(3) [OF assms(2)]])
  show "history_inv E (repo_open E u s)"
    using assms(3) unfolding history_inv_def t delta_at_def repo_open_saved [OF assms(2)] lru_okD(4) [OF assms(1)]
    by simp
qed

lemma repo_open_work:
  assumes "head_saved s"
  shows "work (repo_open E u s) = work s" "pend_of (repo_open E u s) = pend_of s"
    "tables_ok (repo_open E u s) = tables_ok s"
  using repo_open_saved(7,8) [OF assms, of E u]
  by (simp_all add: work_def conn_build_tree_def pend_of_def fun_eq_iff tables_ok_def)

lemma head_saved_cong:
  "r_head_file s' = r_head_file s \<Longrightarrow> r_current_rev s' = r_current_rev s \<Longrightarrow> r_root_tree_bin s' = r_root_tree_bin s \<Longrightarrow>
   r_sled_db s' = r_sled_db s \<Longrightarrow> head_saved s' = head_saved s"
  by (simp add: head_saved_def)

lemma only_cache_head: "only_cache s s' \<Longrightarrow> head_saved s' = head_saved s"
  by (auto simp: only_cache_def head_saved_def)

text \<open>With rows in the table nothing is rebuilt.\<close>

lemma reopen_rows:
  assumes "repo_inv E s" and "head_saved s" and "r_tree_entries s \<noteq> []"
  obtains s' where "initialize E now (repo_open E u s) = Some (s', Inr ())" and "repo_inv E s'"
    and "head_saved s'" and "r_current_rev s' = r_current_rev s" and "tree_of E s' = tree_of E s"
    and "work s' = work s" and "r_objects s' = r_objects s" and "r_deltas s' = r_deltas s"
    and "r_commits s' = r_commits s" and "r_pending s' = r_pending s" and "r_uuid s' = r_uuid (repo_open E u s)"
proof -
  let ?o = "repo_open E u s"
  note o = repo_open_saved [OF assms(2), of E u]
  have lru: "lru_ok E" and h: "history_inv E s" and e: "env_ok E"
    using assms(1) by (simp_all add: repo_inv_def env_ok_def)
  note oh = repo_open_history [OF lru assms(2) h, of u]
  note ow = repo_open_work [OF assms(2), of E u]
  have "?o\<lparr>r_current_rev := parse_head (show_nat (r_current_rev s))\<rparr> = ?o"
    using parse_head_show [of "r_current_rev s"] assms(2) o(1) by (simp add: head_saved_def)
  then have "initialize E now ?o = Some (?o, Inr ())"
    using o(9,7) assms(3) by (simp add: initialize_def Let_def conn_count_def)
  moreover have "repo_inv E ?o"
    using assms(1) oh ow o(1) by (simp add: repo_inv_def work_inv_def)
  ultimately show ?thesis using that [of ?o] o(1,3,5,6,8,10) oh(2) ow(1) by blast
qed

text \<open>With empty tables the working tree is rebuilt from the head revision.\<close>

lemma reopen_empty:
  assumes "env_ok E" and "history_inv E s" and "trees_ok E s" and "head_saved s"
    and "r_tree_entries s = []" and "r_pending s = []"
  obtains s' where "initialize E now (repo_open E u s) = Some (s', Inr ())" and "repo_inv E s'"
    and "head_saved s'" and "r_current_rev s' = r_current_rev s" and "tree_of E s' = tree_of E s"
    and "work s' = tree_of E s (r_current_rev s)" and "r_objects s' = r_objects s" and "r_deltas s' = r_deltas s"
    and "r_commits s' = r_commits s" and "r_pending s' = []" and "r_uuid s' = r_uuid (repo_open E u s)"
proof -
  let ?o = "repo_open E u s" and ?r = "r_current_rev s"
  let ?m = "tree_of E s ?r"
  note o = repo_open_saved [OF assms(4), of E u]
  have lru: "lru_ok E" using assms(1) by (simp add: env_ok_def)
  note oh = repo_open_history [OF lru assms(4,2), of u]
  obtain s2 where g: "get_tree_at_rev E ?r ?o = Some (s2, Inr ?m)" and oc: "only_cache ?o s2" and h2: "history_inv E s2"
    using get_tree_at_rev_ok [OF lru oh(1), of ?r] o(1) oh(2) by auto
  have m: "omap_ok ?m" "entries_ok ?m" using assms(3) by (simp_all add: trees_ok_def)
  let ?s' = "s2\<lparr>r_tree_entries := omapv (\<lambda>_. entry_row) ?m\<rparr>"
  have "?o\<lparr>r_current_rev := parse_head (show_nat ?r)\<rparr> = ?o"
    using parse_head_show [of ?r] assms(4) o(1) by (simp add: head_saved_def)
  then have i: "initialize E now ?o = Some (?s', Inr ())"
    using o(9,7) assms(5) parse_head_show [of ?r] assms(4) g
    by (simp add: initialize_def Let_def conn_count_def head_saved_def map_to_tree_entries [OF m] conn_populate_ok [OF m])
  have w: "work ?s' = ?m" by (rule work_populated [OF m]) simp
  have t: "tree_of E ?s' = tree_of E s"
    using only_cache_tree_of [OF oc, of E] oh(2) by (simp add: tree_of_def fun_eq_iff)
  have cr: "r_current_rev ?s' = ?r" and pend: "r_pending ?s' = []" and ob: "r_objects ?s' = r_objects s"
    and dl: "r_deltas ?s' = r_deltas s" "r_commits ?s' = r_commits s" "r_uuid ?s' = r_uuid ?o"
    using only_cacheD [OF oc] o(1,3,5,6,8) assms(6) by simp_all
  have "tables_ok ?s'" using pend m(1) by (simp add: tables_ok_def)
  then have "work_inv E ?s'"
    unfolding work_inv_def w t cr pend_Nil [OF pend] by simp
  moreover have "history_inv E ?s'"
    using same_history_inv [of s2 ?s' E] h2 by (simp add: same_history_def)
  moreover have "head_saved ?s'"
    using only_cache_head [OF oc] o(10) head_saved_cong [of ?s' s2] by simp
  ultimately show ?thesis using assms(1) i cr t w ob dl pend that [of ?s'] by (simp add: repo_inv_def)
qed

section \<open>Reading\<close>

text \<open>A revision that does not exist is reported, whatever the caches hold.\<close>

lemma get_tree_beyond_head:
  assumes "lru_ok E" and "history_inv E s" and "r_current_rev s < r"
  obtains s' where "get_tree_at_rev E r s = Some (s', Inl (CommitNotFound r))" and "only_cache s s'" and "history_inv E s'"
proof -
  obtain s1 where g: "cache_get E r s = (lru_view E (r_cache s) r, s1)"
    and oc: "only_cache s s1" and view: "lru_view E (r_cache s1) = lru_view E (r_cache s)"
    using cache_get_ok [OF assms(1)] .
  obtain s2 where g2: "cache_get E r s1 = (lru_view E (r_cache s1) r, s2)"
    and oc2: "only_cache s1 s2" and view2: "lru_view E (r_cache s2) = lru_view E (r_cache s1)"
    using cache_get_ok [OF assms(1)] .
  have miss: "lru_view E (r_cache s) r = None"
    using history_invD(6) [OF assms(2), of r] assms(3) by (cases "lru_view E (r_cache s) r") auto
  have none: "map_of (r_deltas s) r = None" "map_of (r_snapshots s) r = None" "map_of (r_commits s) r = None"
    using history_invD(2-4) [OF assms(2,3)] .
  note oc02 = only_cache_trans [OF oc oc2]
  have "collect_chain E s1 r [] = Some (s2, ChainLegacy)"
    using assms(3) g2 miss view none only_cacheD [OF oc02]
    by (subst collect_chain.simps) (simp add: has_tree_snapshot_def has_delta_tree_def ohas_iff domIff)
  moreover have "get_tree_at_rev_legacy E r s2 = (s2, Inl (CommitNotFound r))"
    using none only_cacheD [OF oc02] by (simp add: get_tree_at_rev_legacy_def load_commit_def)
  ultimately have "get_tree_at_rev E r s = Some (s2, Inl (CommitNotFound r))"
    using assms(3) g miss none only_cacheD [OF oc]
    by (simp add: get_tree_at_rev_def has_tree_snapshot_def ohas_iff domIff)
  moreover have "history_inv E s2"
    by (rule history_inv_cache_view [OF assms(2) oc02]) (simp add: view2 view)
  ultimately show ?thesis using that oc02 by blast
qed

text \<open>What a path holds in a tree of the history.\<close>

definition file_of :: "'c repo_env \<Rightarrow> 'c repo \<Rightarrow> nat \<Rightarrow> string \<Rightarrow> bytes option" where
  "file_of E s r q =
     (case map_of (tree_of E s r) q of
        Some e \<Rightarrow> if te_kind e = KBlob
                  then Option.bind (map_of (r_objects s) (te_id e)) (\<lambda>bs. map_option fst (de_blob E bs)) else None
      | None \<Rightarrow> None)"

definition read_ok :: "'c repo_env \<Rightarrow> 'c repo \<Rightarrow> 'c repo \<Rightarrow> bool" where
  "read_ok E s s' \<longleftrightarrow> only_cache s s' \<and> history_inv E s'"

lemma read_ok_trans: "read_ok E s t \<Longrightarrow> read_ok E t u \<Longrightarrow> read_ok E s u"
  by (auto simp: read_ok_def intro: only_cache_trans)

lemma get_file_ok:
  assumes "lru_ok E" and "history_inv E s"
  obtains s' res where "get_file E p r s = Some (s', res)" and "read_ok E s s'"
    and "result_ok res = (if r \<le> r_current_rev s then file_of E s r (trim_start_matches CHR ''/'' p) else None)"
proof (cases "r \<le> r_current_rev s")
  case True
  obtain s' where g: "get_tree_at_rev E r s = Some (s', Inr (tree_of E s r))" and oc: "only_cache s s'" and h: "history_inv E s'"
    using get_tree_at_rev_ok [OF assms True] by blast
  let ?res = "snd (the (get_file E p r s))"
  have "get_file E p r s = Some (s', ?res)" by (simp add: get_file_def g Let_def)
  moreover have "result_ok ?res = file_of E s r (trim_start_matches CHR ''/'' p)"
    using only_cacheD(4) [OF oc]
    by (simp add: get_file_def g Let_def file_of_def load_object_def blob_deserialize_def split: option.split)
      (auto simp: rbind_def ok_or_def split: option.split)
  ultimately show ?thesis using that oc h True by (simp add: read_ok_def)
next
  case False
  then obtain s' where "get_tree_at_rev E r s = Some (s', Inl (CommitNotFound r))" "only_cache s s'" "history_inv E s'"
    using get_tree_beyond_head [OF assms, of r] by auto
  with False that [of s' "Inl (CommitNotFound r)"] show ?thesis by (simp add: get_file_def Let_def read_ok_def)
qed

lemma read_ok_repo_inv:
  assumes "repo_inv E s" and "read_ok E s s'"
  shows "repo_inv E s'"
proof -
  have oc: "only_cache s s'" and h: "history_inv E s'" using assms(2) by (simp_all add: read_ok_def)
  have "work s' = work s" "pend_of s' = pend_of s" "tables_ok s' = tables_ok s"
    using only_cacheD(6,7) [OF oc] by (simp_all add: work_def conn_build_tree_def pend_of_def fun_eq_iff tables_ok_def)
  with assms(1) h only_cache_tree_of [OF oc, of E] only_cacheD(5) [OF oc] show ?thesis
    by (simp add: repo_inv_def work_inv_def)
qed

lemma read_ok_trees: "read_ok E s s' \<Longrightarrow> trees_ok E s' = trees_ok E s"
  using only_cache_tree_of [of s s' E] only_cacheD(5) [of s s'] by (simp add: read_ok_def trees_ok_def)

text \<open>Directory listings: the first component below the directory of every path of the tree.\<close>

definition children :: "string \<Rightarrow> tree_map \<Rightarrow> string set" where
  "children d m = {n. \<exists>k rest. map_of m k \<noteq> None \<and> CHR ''/'' \<notin> set n \<and>
     (rest = [] \<or> hd rest = CHR ''/'') \<and> k = (if d = [] then [] else d @ ''/'') @ n @ rest}"

lemma hd_split: "hd (split c s) = n \<longleftrightarrow> c \<notin> set n \<and> (\<exists>rest. (rest = [] \<or> hd rest = c) \<and> s = n @ rest)"
proof (induction s arbitrary: n)
  case (Cons x s)
  have IH: "hd (split c s) = n' \<longleftrightarrow> c \<notin> set n' \<and> (\<exists>rest. (rest = [] \<or> hd rest = c) \<and> s = n' @ rest)" for n'
    by (rule Cons.IH)
  show ?case
  proof (cases n)
    case Nil
    then show ?thesis by (auto simp: list.case_eq_if)
  next
    case (Cons y n')
    with IH [of n'] show ?thesis
      by (cases "split c s") (auto simp: split_nonempty)
  qed
qed auto

lemma dir_entry_name_eq:
  "dir_entry_name d k = Some n \<longleftrightarrow> CHR ''/'' \<notin> set n \<and>
     (\<exists>rest. (rest = [] \<or> hd rest = CHR ''/'') \<and> k = (if d = [] then [] else d @ ''/'') @ n @ rest)"
  using hd_split [of "CHR ''/''"] strip_prefix_Some_iff [of k "d @ ''/''"]
  by (auto simp: dir_entry_name_def)

lemma children_eq: "children d m = {n. \<exists>k. map_of m k \<noteq> None \<and> dir_entry_name d k = Some n}"
  unfolding children_def dir_entry_name_eq by blast

lemma set_children: "set (List.map_filter (dir_entry_name d) (okeys m)) = children d m"
  by (auto simp: List.map_filter_def children_def set_okeys dom_def dir_entry_name_eq [symmetric] image_iff)
    (metis option.sel)

lemma list_dir_ok:
  fixes p :: string
  assumes "lru_ok E" and "history_inv E s" and "r \<le> r_current_rev s"
  defines "d \<equiv> trim_end_matches CHR ''/'' (trim_start_matches CHR ''/'' p)"
  obtains s' where "read_ok E s s'"
    and "list_dir E p r s = Some (s',
          (if children d (tree_of E s r) = {} \<and> d \<noteq> [] then Inl (DirectoryNotFound p)
           else Inr (sorted_list_of_set (children d (tree_of E s r)))))"
proof -
  obtain s' where g: "get_tree_at_rev E r s = Some (s', Inr (tree_of E s r))" and r: "read_ok E s s'"
    using get_tree_at_rev_ok [OF assms(1-3)] by (auto simp: read_ok_def)
  let ?ns = "List.map_filter (dir_entry_name d) (okeys (tree_of E s r))"
  have "sort (remdups ?ns) = sorted_list_of_set (set ?ns)"
    by (simp add: sorted_list_of_set_sort_remdups)
  moreover have "sort (remdups ?ns) = [] \<longleftrightarrow> set ?ns = {}" by (metis set_empty set_remdups set_sort)
  ultimately show ?thesis
    using that [OF r] by (simp add: list_dir_def g Let_def d_def set_children)
qed

section \<open>The log\<close>

lemma log_loop_eq:
  "log_loop E s limit rs acc = acc @ take (limit - length acc) (List.map_filter (get_commit E s) rs)"
proof (induction rs arbitrary: acc)
  case (Cons r rs)
  show ?case
  proof (cases "limit \<le> length acc")
    case False
    then obtain k where k: "limit - length acc = Suc k" by (cases "limit - length acc") auto
    then have "limit - Suc (length acc) = k" by simp
    with False k Cons show ?thesis
      by (simp add: get_commit_def List.map_filter_simps split: sum.split)
  qed simp
qed (simp add: List.map_filter_simps)

lemma log_eq:
  "log E s start limit = take limit (List.map_filter (get_commit E s) (rev [0..<Suc (min start (r_current_rev s))]))"
  by (simp add: log_def log_loop_eq del: upt_Suc)

section \<open>What a commit leaves behind\<close>

lemma commits_as_commit:
  assumes "externals_ok E" and "commits_as E chs a m ts s s'"
  obtains c where "get_commit E s' (Suc (r_current_rev s)) = Some c" and "author c = a" and "message c = m"
    and "timestamp c = ts" and "parents c = parents_of E (r_current_rev s) s"
proof -
  obtain tid where "r_commits s' = oput (Suc (r_current_rev s))
      (ser_commit E (commit_new tid (parents_of E (r_current_rev s) s) a m ts 0)) (r_commits s)"
    using assms(2) by (auto simp: commits_as_def Let_def)
  then show ?thesis
    using externals_okD(5) [OF assms(1)]
    by (intro that) (auto simp: get_commit_def load_commit_def omap_simps commit_new_def)
qed

lemma parents_of_known: "get_commit E s r = Some c \<Longrightarrow> parents_of E r s = [commit_id E c]"
  by (auto simp: get_commit_def load_commit_def parents_of_def ohas_iff result_ok_def rbind_def ok_or_def
      split: sum.splits option.splits)

lemma commits_as_old_commit:
  assumes "commits_as E chs a m ts s s'" and "r \<le> r_current_rev s"
  shows "get_commit E s' r = get_commit E s r"
  using assms by (auto simp: commits_as_def Let_def get_commit_def load_commit_def omap_simps)

lemma commits_as_head:
  assumes "commits_as E chs a m ts s s'" and "r_root_tree_bin s' = r_root_tree_bin s \<and> r_sled_db s' = r_sled_db s"
    and "head_saved s" and "Suc (r_current_rev s) < 2 ^ 64"
  shows "head_saved s'"
  using assms by (simp add: commits_as_def Let_def head_saved_def)

lemma commits_as_trees:
  assumes "repo_inv E s" and "trees_ok E s" and "commits_as E chs a m ts s s'"
    and "tree_of E s' (Suc (r_current_rev s)) = work s"
  shows "trees_ok E s'"
  unfolding trees_ok_def
proof (intro allI impI)
  fix r
  assume "r \<le> r_current_rev s'"
  then consider "r \<le> r_current_rev s" | "r = Suc (r_current_rev s)"
    using commits_as_rev [OF assms(3)] by linarith
  then show "entries_ok (tree_of E s' r)"
  proof cases
    case 1
    with assms(2) commits_as_old [OF assms(3)] show ?thesis by (simp add: trees_ok_def)
  next
    case 2
    with assms(4) work_entries_ok [OF repo_inv_tables [OF assms(1)]] show ?thesis by simp
  qed
qed

lemma legacy_kept:
  "r_root_tree_bin (fst (commit E a m ts s)) = r_root_tree_bin s \<and> r_sled_db (fst (commit E a m ts s)) = r_sled_db s"
  "r_root_tree_bin (fst (commit_sync E a m ts s)) = r_root_tree_bin s \<and> r_sled_db (fst (commit_sync E a m ts s)) = r_sled_db s"
  "r_root_tree_bin (apply_edit E e s) = r_root_tree_bin s \<and> r_sled_db (apply_edit E e s) = r_sled_db s"
  by (simp_all add: commit_def commit_sync_def conn_collect_pending_def Let_def record_commit_def
      store_object_def store_commit_def store_delta_tree_def store_tree_snapshot_def save_head_def
      split: sum.split)
    (cases e; simp add: add_file_def mkdir_def delete_file_def conn_tree_insert_def conn_tree_remove_def
      store_object_def Let_def)

section \<open>Reachable states\<close>

text \<open>
  The life of a repository: created in an empty directory, then edited, committed (by either
  commit), read, switched between batch and normal mode, and reopened, where the database of
  the working tree may have been lost together with the uncommitted changes.
\<close>

definition lose_tables :: "'c repo \<Rightarrow> 'c repo" where
  "lose_tables s = s\<lparr>r_tree_entries := [], r_pending := []\<rparr>"

inductive reachable :: "'c repo_env \<Rightarrow> 'c repo \<Rightarrow> bool" for E where
  created: "env_ok E \<Longrightarrow> initialize E now (repo_open E u (blank c)) = Some (s, Inr ()) \<Longrightarrow> reachable E s"
| edited: "reachable E s \<Longrightarrow> edit_safe E e s \<Longrightarrow> reachable E (apply_edit E e s)"
| committed: "reachable E s \<Longrightarrow> commit E a m ts s = (s', Inr r) \<Longrightarrow> r < 2 ^ 64 \<Longrightarrow> reachable E s'"
| committed_sync: "reachable E s \<Longrightarrow> commit_sync E a m ts s = (s', Inr r) \<Longrightarrow> r < 2 ^ 64 \<Longrightarrow> reachable E s'"
| read: "reachable E s \<Longrightarrow> get_file E p r s = Some (s', res) \<Longrightarrow> reachable E s'"
| batch_on: "reachable E s \<Longrightarrow> reachable E (begin_batch s)"
| batch_off: "reachable E s \<Longrightarrow> reachable E (end_batch s)"
| reopened: "reachable E s \<Longrightarrow> r_tree_entries s \<noteq> [] \<Longrightarrow>
    initialize E now (repo_open E u s) = Some (s', Inr ()) \<Longrightarrow> reachable E s'"
| recovered: "reachable E s \<Longrightarrow>
    initialize E now (repo_open E u (lose_tables s)) = Some (s', Inr ()) \<Longrightarrow> reachable E s'"

definition life_inv :: "'c repo_env \<Rightarrow> 'c repo \<Rightarrow> bool" where
  "life_inv E s \<longleftrightarrow> repo_inv E s \<and> head_saved s \<and> trees_ok E s"

lemma commit_okI: "commit E a m ts s = (s', Inr r) \<Longrightarrow> commit_ok E (a, m, ts) s = Some s'"
  by (simp add: commit_ok_def)

lemma commit_sync_okI: "commit_sync E a m ts s = (s', Inr r) \<Longrightarrow> commit_sync_ok E (a, m, ts) s = Some s'"
  by (simp add: commit_sync_ok_def)

lemma commit_number:
  assumes "tables_ok s"
  shows "commit E a m ts s = (s', Inr r) \<Longrightarrow> r = Suc (r_current_rev s)"
    and "commit_sync E a m ts s = (s', Inr r) \<Longrightarrow> r = Suc (r_current_rev s)"
  using assms by (cases rule: commit_result [where E = E and a = a and m = m and ts = ts], auto)
    (cases rule: commit_sync_result [where E = E and a = a and m = m and ts = ts], auto)

lemma commits_as_life:
  assumes "life_inv E s" and "commits_as E chs a m ts s s'" and "sorted_wrt (<) (map change_path chs)"
    and "effects chs = pend_of s" and "r_root_tree_bin s' = r_root_tree_bin s \<and> r_sled_db s' = r_sled_db s" and "Suc (r_current_rev s) < 2 ^ 64"
  shows "life_inv E s'"
proof -
  have i: "repo_inv E s" and h: "head_saved s" and t: "trees_ok E s" using assms(1) by (simp_all add: life_inv_def)
  note n = commits_as_repo_inv [OF i assms(2-4)]
  show ?thesis
    using n(1) commits_as_head [OF assms(2,5) h assms(6)] commits_as_trees [OF i t assms(2) n(2)]
    by (simp add: life_inv_def)
qed

lemma commit_life:
  assumes "life_inv E s" and "commit E a m ts s = (s', Inr r)" and "r < 2 ^ 64"
  shows "life_inv E s'"
proof -
  have i: "repo_inv E s" using assms(1) by (simp add: life_inv_def)
  obtain chs a' m' ts' where *: "commits_as E chs a' m' ts' s s'" "sorted_wrt (<) (map change_path chs)" "effects chs = pend_of s"
    using commit_okE [OF i commit_okI [OF assms(2)]] .
  show ?thesis
    using commits_as_life [OF assms(1) *] legacy_kept(1) [of E a m ts s] assms(2,3)
      commit_number(1) [OF repo_inv_tables [OF i] assms(2)] by simp
qed

lemma commit_sync_life:
  assumes "life_inv E s" and "commit_sync E a m ts s = (s', Inr r)" and "r < 2 ^ 64"
  shows "life_inv E s'"
proof -
  have i: "repo_inv E s" using assms(1) by (simp add: life_inv_def)
  obtain chs a' m' ts' where *: "commits_as E chs a' m' ts' s s'" "sorted_wrt (<) (map change_path chs)" "effects chs = pend_of s"
    using commit_sync_okE [OF i commit_sync_okI [OF assms(2)]] .
  show ?thesis
    using commits_as_life [OF assms(1) *] legacy_kept(2) [of E a m ts s] assms(2,3)
      commit_number(2) [OF repo_inv_tables [OF i] assms(2)] by simp
qed

lemma edit_life:
  assumes "life_inv E s" and "edit_safe E e s"
  shows "life_inv E (apply_edit E e s)"
  using assms edit_repo_inv [of E s e] edit_head_tree [of E e s] legacy_kept(3) [of E e s]
    head_saved_cong [of "apply_edit E e s" s] same_history_edit [of s E e]
  by (simp add: life_inv_def trees_ok_def same_history_def)

lemma read_life:
  assumes "life_inv E s" and "get_file E p r s = Some (s', res)"
  shows "life_inv E s'"
proof -
  have "lru_ok E" "history_inv E s" using assms(1) by (simp_all add: life_inv_def repo_inv_def env_ok_def)
  then have "read_ok E s s'" using assms(2) by (auto elim: get_file_ok [where p = p and r = r])
  with assms(1) read_ok_repo_inv [of E s s'] read_ok_trees [of E s s'] only_cache_head [of s s'] show ?thesis
    by (simp add: life_inv_def read_ok_def)
qed

lemma batch_pend [simp]: "pend_of (s\<lparr>r_batch_mode := b\<rparr>) = pend_of s"
  by (simp add: pend_of_def fun_eq_iff)

lemma batch_life:
  "life_inv E (begin_batch s) = life_inv E s" "life_inv E (end_batch s) = life_inv E s"
  by (simp_all add: life_inv_def repo_inv_def history_inv_def work_inv_def tables_ok_def work_def
      conn_build_tree_def head_saved_def trees_ok_def delta_at_def tree_of_def begin_batch_def end_batch_def)

lemma reopen_life:
  assumes "life_inv E s" and "r_tree_entries s \<noteq> []" and "initialize E now (repo_open E u s) = Some (s', Inr ())"
  shows "life_inv E s'" and "r_current_rev s' = r_current_rev s" and "tree_of E s' = tree_of E s" and "work s' = work s"
proof -
  from assms(1) have l: "repo_inv E s" "head_saved s" "trees_ok E s" by (simp_all add: life_inv_def)
  from reopen_rows [OF l(1,2) assms(2), of now u] obtain t where
    "initialize E now (repo_open E u s) = Some (t, Inr ())" "repo_inv E t" "head_saved t"
    "r_current_rev t = r_current_rev s" "tree_of E t = tree_of E s" "work t = work s" by blast
  with l(3) assms(3) show "life_inv E s'" "r_current_rev s' = r_current_rev s" "tree_of E s' = tree_of E s" "work s' = work s"
    by (simp_all add: life_inv_def trees_ok_def)
qed

lemma lose_tables_facts:
  assumes "life_inv E s"
  shows "env_ok E" "history_inv E (lose_tables s)" "trees_ok E (lose_tables s)" "head_saved (lose_tables s)"
    "tree_of E (lose_tables s) = tree_of E s"
proof -
  show tr: "tree_of E (lose_tables s) = tree_of E s" by (simp add: lose_tables_def tree_of_def fun_eq_iff)
  have "same_history s (lose_tables s)" by (simp add: same_history_def lose_tables_def)
  then show "env_ok E" "history_inv E (lose_tables s)" "trees_ok E (lose_tables s)" "head_saved (lose_tables s)"
    using assms tr same_history_inv [of s "lose_tables s" E]
    by (simp_all add: life_inv_def repo_inv_def trees_ok_def head_saved_def lose_tables_def)
qed

lemma recover_result:
  assumes "life_inv E s"
  obtains t where "initialize E now (repo_open E u (lose_tables s)) = Some (t, Inr ())" "repo_inv E t" "head_saved t"
    "r_current_rev t = r_current_rev s" "tree_of E t = tree_of E s" "work t = tree_of E s (r_current_rev s)"
proof -
  note f = lose_tables_facts [OF assms]
  have e: "r_tree_entries (lose_tables s) = []" "r_pending (lose_tables s) = []" "r_current_rev (lose_tables s) = r_current_rev s"
    by (simp_all add: lose_tables_def)
  from reopen_empty [OF f(1-4) e(1,2), of now u] that show ?thesis unfolding f(5) e(3) by blast
qed

lemma recover_returns:
  assumes "life_inv E s"
  obtains t where "initialize E now (repo_open E u (lose_tables s)) = Some (t, Inr ())"
  using recover_result [OF assms] by blast

lemma recover_life:
  assumes "life_inv E s" and "initialize E now (repo_open E u (lose_tables s)) = Some (s', Inr ())"
  shows "life_inv E s'" and "r_current_rev s' = r_current_rev s" and "tree_of E s' = tree_of E s"
    and "work s' = tree_of E s (r_current_rev s)"
proof -
  obtain t where t: "initialize E now (repo_open E u (lose_tables s)) = Some (t, Inr ())" "repo_inv E t" "head_saved t"
    "r_current_rev t = r_current_rev s" "tree_of E t = tree_of E s" "work t = tree_of E s (r_current_rev s)"
    using recover_result [OF assms(1)] .
  moreover have "t = s'" using t(1) assms(2) by simp
  moreover have "trees_ok E s" using assms(1) by (simp add: life_inv_def)
  ultimately show "life_inv E s'" "r_current_rev s' = r_current_rev s" "tree_of E s' = tree_of E s"
    "work s' = tree_of E s (r_current_rev s)"
    by (simp_all add: life_inv_def trees_ok_def)
qed

lemma reachable_life: "reachable E s \<Longrightarrow> life_inv E s"
proof (induction rule: reachable.induct)
  case (created now u c s)
  from initialize_blank [OF created(1), of now u c] obtain t where
    "initialize E now (repo_open E u (blank c)) = Some (t, Inr ())" "repo_inv E t" "head_saved t" "r_current_rev t = 0"
    by blast
  with created(2) show ?case by (simp add: life_inv_def trees_ok_def entries_ok_def)
qed (auto simp: batch_life intro: commit_life commit_sync_life edit_life read_life reopen_life(1) recover_life(1))

section \<open>Contents persist\<close>

definition objects_kept :: "'c repo \<Rightarrow> 'c repo \<Rightarrow> bool" where
  "objects_kept s s' \<longleftrightarrow> (\<forall>i bs. map_of (r_objects s) i = Some bs \<longrightarrow> map_of (r_objects s') i = Some bs)"

lemma objects_kept_trans: "objects_kept s t \<Longrightarrow> objects_kept t u \<Longrightarrow> objects_kept s u"
  by (simp add: objects_kept_def)

lemma objects_kept_edit: "objects_kept s (apply_edit E e s)"
  by (cases e) (simp_all add: objects_kept_def add_file_def mkdir_def delete_file_def Let_def
      conn_tree_insert_def conn_tree_remove_def store_object_keeps)

lemma objects_kept_commit: "commits_as E chs a m ts s s' \<Longrightarrow> objects_kept s s'"
  by (simp add: commits_as_def objects_kept_def Let_def)

lemma run_keeps_objects:
  assumes "repo_inv E s" and "run_steps (apply_edit E) (edit_safe E) (commit_ok E) steps s = Some s'"
  shows "objects_kept s s'"
  using assms
proof (induction steps arbitrary: s)
  case Nil
  then show ?case by (simp add: objects_kept_def)
next
  case (Cons st steps)
  show ?case
  proof (cases st)
    case (Inl e)
    with Cons.prems have "edit_safe E e s" "run_steps (apply_edit E) (edit_safe E) (commit_ok E) steps (apply_edit E e s) = Some s'"
      by (simp_all split: if_splits)
    with Cons.IH [OF edit_repo_inv [OF Cons.prems(1)]] objects_kept_trans [OF objects_kept_edit] show ?thesis by blast
  next
    case (Inr m)
    with Cons.prems obtain t where c: "commit_ok E m s = Some t"
      and run: "run_steps (apply_edit E) (edit_safe E) (commit_ok E) steps t = Some s'"
      by (auto split: option.splits)
    obtain chs a msg ts where *: "commits_as E chs a msg ts s t"
      using commit_okE [OF Cons.prems(1) c] .
    have "repo_inv E t" by (rule sq.cmt_inv [OF Cons.prems(1) c])
    from objects_kept_trans [OF objects_kept_commit [OF *] Cons.IH [OF this run]] show ?thesis .
  qed
qed

text \<open>
  The object file of a blob is written unless one is there already. With the slot of the
  content's hash free or holding that content, adding a file makes its content readable.
\<close>

definition slot_ok :: "'c repo_env \<Rightarrow> 'c repo \<Rightarrow> bytes \<Rightarrow> bool" where
  "slot_ok E s d \<longleftrightarrow>
     (case map_of (r_objects s) (from_data E d) of
        None \<Rightarrow> True | Some bs \<Rightarrow> map_option fst (de_blob E bs) = Some d)"

lemma add_file_work:
  assumes "repo_inv E s"
  shows "map_of (work (fst (add_file E p d x s))) =
           (map_of (work s))(trim_start_matches CHR ''/'' p \<mapsto>
              tree_entry_new (trim_start_matches CHR ''/'' p) (from_data E d) KBlob (file_mode x))"
proof -
  have t: "tables_ok s" by (rule repo_inv_tables [OF assms])
  have o: "oid_ok (from_data E d)" using assms by (simp add: repo_inv_def env_ok_def)
  show ?thesis
    using work_insert [of "store_object (from_data E d) (blob_to_bytes E (blob_new d x)) s" "from_data E d" KBlob] t o
    by (simp add: add_file_def Let_def)
qed

lemma sync_edits:
  "add_file_sync E p c x t = add_file E p c x t" "mkdir_sync E p t = mkdir E p t" "delete_file_sync p t = delete_file p t"
  by (simp_all add: add_file_sync_def add_file_def mkdir_sync_def mkdir_def delete_file_sync_def delete_file_def)

lemma mkdir_work:
  assumes "repo_inv E t"
  shows "map_of (work (fst (mkdir E p t))) =
           (map_of (work t))(trim_start_matches CHR ''/'' p \<mapsto>
              tree_entry_new (trim_start_matches CHR ''/'' p) (tree_obj_id E tree_new) KTree (file_mode True))"
proof -
  have o: "oid_ok (tree_obj_id E tree_new)" using assms by (simp add: repo_inv_def env_ok_def tree_obj_id_def)
  show ?thesis
    using work_insert [of "store_object (tree_obj_id E tree_new) (tree_to_bytes E tree_new) t" "tree_obj_id E tree_new" KTree]
      repo_inv_tables [OF assms] o
    by (simp add: mkdir_def Let_def)
qed

lemma add_file_object:
  assumes "externals_ok E" and "slot_ok E s d"
  shows "\<exists>bs. map_of (r_objects (fst (add_file E p d x s))) (from_data E d) = Some bs \<and>
           map_option fst (de_blob E bs) = Some d"
  using assms(2) externals_okD(3) [OF assms(1)]
  by (cases "map_of (r_objects s) (from_data E d)")
    (auto simp: slot_ok_def add_file_def Let_def conn_tree_insert_def store_object_def ohas_iff omap_simps blob_to_bytes_def)

lemma delete_file_work:
  assumes "repo_inv E s" and "delete_safe s (trim_start_matches CHR ''/'' p)"
  shows "map_of (work (delete_file p s)) =
     (\<lambda>k. if k = trim_start_matches CHR ''/'' p \<or> below (trim_start_matches CHR ''/'' p) k then None else map_of (work s) k)"
proof
  fix k
  let ?q = "trim_start_matches CHR ''/'' p"
  have t: "tables_ok s" by (rule repo_inv_tables [OF assms(1)])
  have "map_of (work s) k = None" if "sql_like (?q @ ''/%'') k" "\<not> below ?q k"
  proof -
    have "k \<notin> dom (map_of (r_tree_entries s))"
      using assms(2) that unfolding delete_safe_def set_okeys by blast
    then show ?thesis by (simp add: map_of_work [OF t] domIff)
  qed
  then show "map_of (work (delete_file p s)) k = (if k = ?q \<or> below ?q k then None else map_of (work s) k)"
    using below_sql_like [of ?q k] unfolding delete_file_def work_remove [OF t] by presburger
qed

lemma file_of_later:
  assumes "map_of (tree_of E s r) q = Some e" and "te_kind e = KBlob"
    and "map_of (r_objects s) (te_id e) = Some bs" and "map_option fst (de_blob E bs) = Some d"
  shows "file_of E s r q = Some d"
  using assms by (simp add: file_of_def)

lemma read_back:
  assumes "repo_inv E s" and "edit_safe E (AddFile p d x) s" and "slot_ok E s d"
    and "commit_ok E c (fst (add_file E p d x s)) = Some s1"
    and "run_steps (apply_edit E) (edit_safe E) (commit_ok E) steps s1 = Some s2"
  shows "file_of E s2 (Suc (r_current_rev s)) (trim_start_matches CHR ''/'' p) = Some d"
    and "Suc (r_current_rev s) \<le> r_current_rev s2" and "repo_inv E s2"
proof -
  let ?t = "fst (add_file E p d x s)" and ?q = "trim_start_matches CHR ''/'' p"
  have it: "repo_inv E ?t" using edit_repo_inv [OF assms(1,2)] by simp
  have cr: "r_current_rev ?t = r_current_rev s" using edit_head_tree(1) [of E "AddFile p d x" s] by simp
  have ext: "externals_ok E" using assms(1) by (simp add: repo_inv_def env_ok_def)
  have i1: "repo_inv E s1" by (rule sq.cmt_inv [OF it assms(4)])
  note run = sq.run_steps_ok [OF i1 assms(5)]
  then show "repo_inv E s2" by simp
  have "run_steps (apply_edit E) (edit_safe E) (commit_ok E) [Inl (AddFile p d x)] s = Some ?t"
    using assms(2) by simp
  from sq.run_records_commit [OF assms(1) this assms(4,5)]
  have "map_of (tree_of E s2 (Suc (r_current_rev s))) = map_of (work ?t)" by (simp add: count_commits_def)
  then have e: "map_of (tree_of E s2 (Suc (r_current_rev s))) ?q = Some (tree_entry_new ?q (from_data E d) KBlob (file_mode x))"
    by (simp add: add_file_work [OF assms(1)])
  obtain bs where b: "map_of (r_objects ?t) (from_data E d) = Some bs" "map_option fst (de_blob E bs) = Some d"
    using add_file_object [OF ext assms(3)] by blast
  obtain chs a m ts where ca: "commits_as E chs a m ts ?t s1" using commit_okE [OF it assms(4)] .
  have "objects_kept ?t s2"
    using objects_kept_trans [OF objects_kept_commit [OF ca] run_keeps_objects [OF i1 assms(5)]] .
  with b have "map_of (r_objects s2) (from_data E d) = Some bs" by (simp add: objects_kept_def)
  with e b(2) show "file_of E s2 (Suc (r_current_rev s)) ?q = Some d"
    by (intro file_of_later [OF e]) (simp_all add: tree_entry_new_def)
  show "Suc (r_current_rev s) \<le> r_current_rev s2"
    using run sq.cmt_head [OF it assms(4)] cr by simp
qed

text \<open>A revision a commit has just created, seen through \<open>get_file\<close>.\<close>

lemma get_file_new_revision:
  assumes "repo_inv E s" and "commit E a m ts s = (s1, Inr n)"
  obtains s2 res where "get_file E p n s1 = Some (s2, res)" and "n = Suc (r_current_rev s)" and "tree_of E s1 n = work s"
    and "result_ok res = file_of E s1 n (trim_start_matches CHR ''/'' p)"
proof -
  note c = commit_okI [OF assms(2)]
  have n: "n = Suc (r_current_rev s)" by (rule commit_number(1) [OF repo_inv_tables [OF assms(1)] assms(2)])
  note i1 = repo_inv_history [OF sq.cmt_inv [OF assms(1) c]]
  obtain s2 res where "get_file E p n s1 = Some (s2, res)"
    "result_ok res = (if n \<le> r_current_rev s1 then file_of E s1 n (trim_start_matches CHR ''/'' p) else None)"
    using get_file_ok [OF i1(1,2)] .
  with sq.cmt_head [OF assms(1) c] sq.cmt_new [OF assms(1) c] n that show ?thesis by simp
qed

lemma file_of_same_entry:
  "map_of (tree_of E s' r') q = map_of (tree_of E s r) q \<Longrightarrow> r_objects s' = r_objects s \<Longrightarrow> file_of E s' r' q = file_of E s r q"
  by (simp add: file_of_def split: option.split)

section \<open>The two commits\<close>

text \<open>
  \<open>commit_sync\<close>, used by the bulk loader, stores no tree object between snapshots and names the
  delta in the commit; everything else it writes is what \<open>commit\<close> writes.
\<close>

lemma commits_agree:
  "snd (commit_sync E a m ts s) = snd (commit E a m ts s)"
  "r_deltas (fst (commit_sync E a m ts s)) = r_deltas (fst (commit E a m ts s))"
  "r_snapshots (fst (commit_sync E a m ts s)) = r_snapshots (fst (commit E a m ts s))"
  "r_head_file (fst (commit_sync E a m ts s)) = r_head_file (fst (commit E a m ts s))"
  "r_current_rev (fst (commit_sync E a m ts s)) = r_current_rev (fst (commit E a m ts s))"
  "r_tree_entries (fst (commit_sync E a m ts s)) = r_tree_entries (fst (commit E a m ts s))"
  "r_pending (fst (commit_sync E a m ts s)) = r_pending (fst (commit E a m ts s))"
  by (simp_all add: commit_def commit_sync_def Let_def split: prod.split sum.split)

section \<open>Rejected commits\<close>

text \<open>What a rejecting hook leaves behind: everything but the list of pending changes.\<close>

lemma commit_rejected:
  assumes "tables_ok s" and "commit E a m ts s = (s', Inl e)"
  shows "s' = s\<lparr>r_pending := []\<rparr> \<and> (\<exists>h. e = HookFailed h)"
  using assms(1)
proof (cases rule: commit_result [where E = E and a = a and m = m and ts = ts])
  case rejected
  with assms(2) show ?thesis by auto
qed (use assms(2) in auto)

lemma commit_sync_rejected:
  assumes "tables_ok s" and "commit_sync E a m ts s = (s', Inl e)"
  shows "s' = s\<lparr>r_pending := []\<rparr> \<and> (\<exists>h. e = HookFailed h)"
  using assms(1)
proof (cases rule: commit_sync_result [where E = E and a = a and m = m and ts = ts])
  case rejected
  with assms(2) show ?thesis by auto
qed (use assms(2) in auto)

lemma effects_empty: "effects chs = Map.empty \<Longrightarrow> chs = []"
  by (cases chs) (auto simp: effects_Cons)

lemma commit_without_pending:
  assumes "externals_ok E" and "tables_ok s" and "r_pending s = []" and "commit E a m ts s = (s', Inr n)"
  shows "tree_of E s' n = tree_of E s (r_current_rev s)" and "n = Suc (r_current_rev s)" and "work s' = work s"
proof -
  show n: "n = Suc (r_current_rev s)" by (rule commit_number(1) [OF assms(2,4)])
  from assms(2) obtain chs where c: "effects chs = pend_of s" "commits_as E chs a m ts s s'"
    by (cases rule: commit_result [where E = E and a = a and m = m and ts = ts]) (use assms(4) in auto)
  then have "chs = []" using effects_empty pend_Nil [OF assms(3)] by simp
  with commits_as_new [OF assms(1) c(2)] n show "tree_of E s' n = tree_of E s (r_current_rev s)"
    by (simp add: apply_changes_def)
  from c(2) show "work s' = work s" by (simp add: commits_as_def Let_def work_def conn_build_tree_def)
qed

end
