(* ===== verification/Codecs.thy ===== *)
theory Codecs
  imports Prelude
begin

text \<open>
  Self-delimiting binary codecs, built from combinators: decimal numbers, each ended by a line
  feed, pairs, lists, strings, options. They give concrete instances of the external codecs
  (\<open>bincode\<close>, \<open>serde_json\<close>) whose laws the theorems assume.
\<close>

section \<open>Self-delimiting codecs\<close>

locale codec =
  fixes enc :: "'a \<Rightarrow> bytes"
    and dec :: "bytes \<Rightarrow> ('a \<times> bytes) option"
  assumes dec_enc: "dec (enc x @ rest) = Some (x, rest)"
begin

definition decode_all :: "bytes \<Rightarrow> 'a option" where
  "decode_all bs = map_option fst (dec bs)"

lemma decode_all_enc: "decode_all (enc x) = Some x"
  using dec_enc [of x "[]"] by (simp add: decode_all_def)

lemma enc_inject: "enc x = enc y \<longleftrightarrow> x = y"
  by (metis decode_all_enc option.inject)

end

definition whole :: "(bytes \<Rightarrow> ('a \<times> bytes) option) \<Rightarrow> bytes \<Rightarrow> 'a option" where
  "whole d bs = map_option fst (d bs)"

lemma whole_enc: "codec e d \<Longrightarrow> whole d (e x) = Some x"
  using codec.dec_enc [of e d x "[]"] by (simp add: whole_def)

definition enc_nat :: "nat \<Rightarrow> bytes" where
  "enc_nat n = map char_byte (show_nat n) @ [10]"

definition dec_nat :: "bytes \<Rightarrow> (nat \<times> bytes) option" where
  "dec_nat bs = Option.bind (split_once 10 bs)
     (\<lambda>(ds, rest). map_option (\<lambda>n. (n, rest)) (digits_val 0 (map byte_char ds)))"

definition enc_pair :: "('a \<Rightarrow> bytes) \<Rightarrow> ('b \<Rightarrow> bytes) \<Rightarrow> 'a \<times> 'b \<Rightarrow> bytes" where
  "enc_pair e1 e2 p = e1 (fst p) @ e2 (snd p)"

definition dec_pair ::
    "(bytes \<Rightarrow> ('a \<times> bytes) option) \<Rightarrow> (bytes \<Rightarrow> ('b \<times> bytes) option) \<Rightarrow> bytes \<Rightarrow> (('a \<times> 'b) \<times> bytes) option" where
  "dec_pair d1 d2 bs = Option.bind (d1 bs) (\<lambda>(x, r). map_option (\<lambda>(y, r'). ((x, y), r')) (d2 r))"

definition enc_list :: "('a \<Rightarrow> bytes) \<Rightarrow> 'a list \<Rightarrow> bytes" where
  "enc_list e xs = enc_nat (length xs) @ concat (map e xs)"

fun dec_many :: "(bytes \<Rightarrow> ('a \<times> bytes) option) \<Rightarrow> nat \<Rightarrow> bytes \<Rightarrow> ('a list \<times> bytes) option" where
  "dec_many d 0 bs = Some ([], bs)"
| "dec_many d (Suc n) bs =
     Option.bind (d bs) (\<lambda>(x, r). map_option (\<lambda>(xs, r'). (x # xs, r')) (dec_many d n r))"

definition dec_list :: "(bytes \<Rightarrow> ('a \<times> bytes) option) \<Rightarrow> bytes \<Rightarrow> ('a list \<times> bytes) option" where
  "dec_list d bs = Option.bind (dec_nat bs) (\<lambda>(n, r). dec_many d n r)"

definition dec_map :: "('a \<Rightarrow> 'b) \<Rightarrow> (bytes \<Rightarrow> ('a \<times> bytes) option) \<Rightarrow> bytes \<Rightarrow> ('b \<times> bytes) option" where
  "dec_map g d bs = map_option (\<lambda>(x, r). (g x, r)) (d bs)"

lemma show_nat_no_lf: "(10 :: byte) \<notin> set (map char_byte (show_nat n))"
proof
  assume "(10 :: byte) \<in> set (map char_byte (show_nat n))"
  then obtain c where c: "c \<in> set (show_nat n)" and lf: "char_byte c = 10" by auto
  from lf have "unat (char_byte c) = unat (10 :: byte)" by simp
  then have "(of_char c :: nat) = 10" by simp
  with show_nat_digits [OF c] show False by (simp add: digit_val_def)
qed

lemma codec_nat: "codec enc_nat dec_nat"
proof
  fix n rest
  show "dec_nat (enc_nat n @ rest) = Some (n, rest)"
    using split_once_append [OF show_nat_no_lf [of n], of rest]
    by (simp add: dec_nat_def enc_nat_def digits_val_show_nat)
qed

lemma codec_pair: "codec e1 d1 \<Longrightarrow> codec e2 d2 \<Longrightarrow> codec (enc_pair e1 e2) (dec_pair d1 d2)"
  by (auto simp: codec_def enc_pair_def dec_pair_def)

lemma dec_many_enc: "codec e d \<Longrightarrow> dec_many d (length xs) (concat (map e xs) @ rest) = Some (xs, rest)"
  by (induction xs) (simp_all add: codec_def)

lemma codec_list: "codec e d \<Longrightarrow> codec (enc_list e) (dec_list d)"
  using codec.dec_enc [OF codec_nat]
  by (simp add: codec_def enc_list_def dec_list_def dec_many_enc [unfolded codec_def])

lemma codec_map: "codec e d \<Longrightarrow> (\<And>x. g (f x) = x) \<Longrightarrow> codec (e \<circ> f) (dec_map g d)"
  by (simp add: codec_def dec_map_def)

interpretation cn: codec enc_nat dec_nat
  by (rule codec_nat)

section \<open>Basic types\<close>

definition int_code :: "int \<Rightarrow> nat \<times> nat" where
  "int_code i = (if i < 0 then (1, nat (- i)) else (0, nat i))"

definition int_uncode :: "nat \<times> nat \<Rightarrow> int" where
  "int_uncode p = (if fst p = 1 then - int (snd p) else int (snd p))"

definition enc_bytes :: "bytes \<Rightarrow> bytes" where
  "enc_bytes = enc_list (enc_nat \<circ> unat)"

definition dec_bytes :: "bytes \<Rightarrow> ((bytes) \<times> bytes) option" where
  "dec_bytes = dec_list (dec_map (of_nat :: nat \<Rightarrow> byte) dec_nat)"

definition enc_string :: "string \<Rightarrow> bytes" where
  "enc_string = enc_list (enc_nat \<circ> of_char)"

definition dec_string :: "bytes \<Rightarrow> ((string) \<times> bytes) option" where
  "dec_string = dec_list (dec_map (char_of :: nat \<Rightarrow> char) dec_nat)"

definition enc_int :: "int \<Rightarrow> bytes" where
  "enc_int = enc_pair enc_nat enc_nat \<circ> int_code"

definition dec_int :: "bytes \<Rightarrow> ((int) \<times> bytes) option" where
  "dec_int = dec_map int_uncode (dec_pair dec_nat dec_nat)"

lemma codec_bytes: "codec enc_bytes dec_bytes"
  unfolding enc_bytes_def dec_bytes_def
  by (intro codec_list codec_map codec_nat) simp

lemma codec_string: "codec enc_string dec_string"
  unfolding enc_string_def dec_string_def
  by (intro codec_list codec_map codec_nat) simp

lemma codec_int: "codec enc_int dec_int"
  unfolding enc_int_def dec_int_def
  by (intro codec_map codec_pair codec_nat) (simp add: int_code_def int_uncode_def)

definition enc_bool :: "bool \<Rightarrow> bytes" where
  "enc_bool = enc_nat \<circ> of_bool"

definition dec_bool :: "bytes \<Rightarrow> (bool \<times> bytes) option" where
  "dec_bool = dec_map (\<lambda>n. n = 1) dec_nat"

lemma codec_bool: "codec enc_bool dec_bool"
  unfolding enc_bool_def dec_bool_def by (intro codec_map codec_nat) simp

definition enc_option :: "('a \<Rightarrow> bytes) \<Rightarrow> 'a option \<Rightarrow> bytes" where
  "enc_option e = enc_list e \<circ> (\<lambda>x. case x of None \<Rightarrow> [] | Some y \<Rightarrow> [y])"

definition dec_option :: "(bytes \<Rightarrow> ('a \<times> bytes) option) \<Rightarrow> bytes \<Rightarrow> ('a option \<times> bytes) option" where
  "dec_option d = dec_map (\<lambda>xs. case xs of [] \<Rightarrow> None | y # _ \<Rightarrow> Some y) (dec_list d)"

lemma codec_option: "codec e d \<Longrightarrow> codec (enc_option e) (dec_option d)"
  unfolding enc_option_def dec_option_def by (intro codec_map codec_list) (auto split: option.split)

lemmas codec_intros = codec_map codec_list codec_pair codec_nat codec_string codec_int codec_bool codec_option codec_bytes

text \<open>A codec into text.\<close>

definition text_enc :: "('a \<Rightarrow> bytes) \<Rightarrow> 'a \<Rightarrow> string" where
  "text_enc e x = map byte_char (e x)"

definition text_dec :: "(bytes \<Rightarrow> ('a \<times> bytes) option) \<Rightarrow> string \<Rightarrow> 'a option" where
  "text_dec d s = whole d (map char_byte s)"

lemma text_dec_enc: "codec e d \<Longrightarrow> text_dec d (text_enc e x) = Some x"
  by (simp add: text_dec_def text_enc_def whole_enc comp_def)

end
