(* ===== verification/Sample_Environment.thy ===== *)
theory Sample_Environment
  imports Sqlite_Behaviour Codecs
begin

text \<open>
  A concrete environment that satisfies what is assumed of the external code: a
  self-delimiting codec for every stored type (decimal numbers, each ended by a line feed), a
  padding function in the place of SHA-256, a cache that keeps everything, and no hook
  scripts. The hypotheses \<open>externals_ok\<close> and \<open>lru_ok\<close> hold for it, so the theorems that rest
  on them are not empty; the witnesses run the model in it.
\<close>

section \<open>Codecs of the stored types\<close>

definition enc_oid :: "object_id \<Rightarrow> bytes" where
  "enc_oid = enc_bytes \<circ> as_bytes"

definition dec_oid :: "bytes \<Rightarrow> ((object_id) \<times> bytes) option" where
  "dec_oid = dec_map ObjectId dec_bytes"


lemma codec_oid: "codec enc_oid dec_oid"
  unfolding enc_oid_def dec_oid_def
  by (intro codec_map codec_bytes) simp

fun kind_code :: "object_kind \<Rightarrow> nat" where
  "kind_code KBlob = 0"
| "kind_code KTree = 1"
| "kind_code KCommit = 2"

definition kind_uncode :: "nat \<Rightarrow> object_kind" where
  "kind_uncode n = (if n = 0 then KBlob else if n = 1 then KTree else KCommit)"

definition entry_code :: "tree_entry \<Rightarrow> string \<times> object_id \<times> nat \<times> nat" where
  "entry_code e = (te_name e, te_id e, kind_code (te_kind e), unat (te_mode e))"

definition entry_uncode :: "string \<times> object_id \<times> nat \<times> nat \<Rightarrow> tree_entry" where
  "entry_uncode = (\<lambda>(n, i, k, m). \<lparr>te_name = n, te_id = i, te_kind = kind_uncode k, te_mode = of_nat m\<rparr>)"

definition enc_entry :: "tree_entry \<Rightarrow> bytes" where
  "enc_entry = enc_pair enc_string (enc_pair enc_oid (enc_pair enc_nat enc_nat)) \<circ> entry_code"

definition dec_entry :: "bytes \<Rightarrow> ((tree_entry) \<times> bytes) option" where
  "dec_entry = dec_map entry_uncode (dec_pair dec_string (dec_pair dec_oid (dec_pair dec_nat dec_nat)))"


lemma codec_entry: "codec enc_entry dec_entry"
  unfolding enc_entry_def dec_entry_def
proof (intro codec_map codec_pair codec_nat codec_string codec_oid)
  fix e :: tree_entry
  show "entry_uncode (entry_code e) = e"
    by (cases "te_kind e") (simp_all add: entry_code_def entry_uncode_def kind_uncode_def)
qed

definition commit_code :: "commit \<Rightarrow> object_id \<times> object_id list \<times> string \<times> string \<times> int \<times> int" where
  "commit_code c = (tree_id c, parents c, author c, message c, timestamp c, tz_offset c)"

definition commit_uncode :: "object_id \<times> object_id list \<times> string \<times> string \<times> int \<times> int \<Rightarrow> commit" where
  "commit_uncode = (\<lambda>(t, ps, a, m, ts, z).
     \<lparr>tree_id = t, parents = ps, author = a, message = m, timestamp = ts, tz_offset = z\<rparr>)"

definition change_code :: "tree_change \<Rightarrow> string \<times> tree_entry list" where
  "change_code ch = (case ch of Upsert p e \<Rightarrow> (p, [e]) | Delete p \<Rightarrow> (p, []))"

definition change_uncode :: "string \<times> tree_entry list \<Rightarrow> tree_change" where
  "change_uncode = (\<lambda>(p, es). case es of [] \<Rightarrow> Delete p | e # _ \<Rightarrow> Upsert p e)"

definition delta_code :: "delta_tree \<Rightarrow> nat \<times> nat \<times> tree_change list" where
  "delta_code d = (parent_rev d, total_entries d, changes d)"

definition delta_uncode :: "nat \<times> nat \<times> tree_change list \<Rightarrow> delta_tree" where
  "delta_uncode = (\<lambda>(p, n, chs). \<lparr>parent_rev = p, changes = chs, total_entries = n\<rparr>)"

definition enc_tree :: "tree \<Rightarrow> bytes" where
  "enc_tree = enc_list (enc_pair enc_string enc_entry) \<circ> entries"

definition dec_tree :: "bytes \<Rightarrow> ((tree) \<times> bytes) option" where
  "dec_tree = dec_map (\<lambda>m. \<lparr>entries = m\<rparr>) (dec_list (dec_pair dec_string dec_entry))"

definition enc_blob :: "bytes \<times> bool \<Rightarrow> bytes" where
  "enc_blob = enc_pair enc_bytes (enc_nat \<circ> of_bool)"

definition dec_blob :: "bytes \<Rightarrow> ((bytes \<times> bool) \<times> bytes) option" where
  "dec_blob = dec_pair dec_bytes (dec_map (\<lambda>n. n = 1) dec_nat)"

definition enc_commit :: "commit \<Rightarrow> bytes" where
  "enc_commit = enc_pair enc_oid (enc_pair (enc_list enc_oid)
  (enc_pair enc_string (enc_pair enc_string (enc_pair enc_int enc_int)))) \<circ> commit_code"

definition dec_commit :: "bytes \<Rightarrow> ((commit) \<times> bytes) option" where
  "dec_commit = dec_map commit_uncode (dec_pair dec_oid (dec_pair (dec_list dec_oid)
  (dec_pair dec_string (dec_pair dec_string (dec_pair dec_int dec_int)))))"

definition enc_change :: "tree_change \<Rightarrow> bytes" where
  "enc_change = enc_pair enc_string (enc_list enc_entry) \<circ> change_code"

definition dec_change :: "bytes \<Rightarrow> ((tree_change) \<times> bytes) option" where
  "dec_change = dec_map change_uncode (dec_pair dec_string (dec_list dec_entry))"

definition enc_delta :: "delta_tree \<Rightarrow> bytes" where
  "enc_delta = enc_pair enc_nat (enc_pair enc_nat (enc_list enc_change)) \<circ> delta_code"

definition dec_delta :: "bytes \<Rightarrow> ((delta_tree) \<times> bytes) option" where
  "dec_delta = dec_map delta_uncode (dec_pair dec_nat (dec_pair dec_nat (dec_list dec_change)))"


lemma codec_tree: "codec enc_tree dec_tree"
  unfolding enc_tree_def dec_tree_def
  by (intro codec_map codec_list codec_pair codec_string codec_entry) simp

lemma codec_blob: "codec enc_blob dec_blob"
  unfolding enc_blob_def dec_blob_def
  by (intro codec_map codec_pair codec_nat codec_bytes) simp

lemma codec_commit: "codec enc_commit dec_commit"
  unfolding enc_commit_def dec_commit_def
  by (intro codec_map codec_list codec_pair codec_nat codec_string codec_oid codec_int)
    (simp add: commit_code_def commit_uncode_def)

lemma codec_change: "codec enc_change dec_change"
  unfolding enc_change_def dec_change_def
proof (intro codec_map codec_list codec_pair codec_string codec_entry)
  fix ch
  show "change_uncode (change_code ch) = ch"
    by (cases ch) (simp_all add: change_code_def change_uncode_def)
qed

lemma codec_delta: "codec enc_delta dec_delta"
  unfolding enc_delta_def dec_delta_def
  by (intro codec_map codec_list codec_pair codec_nat codec_change)
    (simp add: delta_code_def delta_uncode_def)

section \<open>The environment\<close>

definition pad32 :: "bytes \<Rightarrow> bytes" where
  "pad32 d = take 32 (rev d @ replicate 32 0)"

definition hex_digit :: "nat \<Rightarrow> char" where
  "hex_digit d = (if d < 10 then char_of (48 + d) else char_of (87 + d))"

definition hex_value :: "char \<Rightarrow> nat option" where
  "hex_value c = (let n = of_char c :: nat in
     if 48 \<le> n \<and> n \<le> 57 then Some (n - 48) else if 97 \<le> n \<and> n \<le> 102 then Some (n - 87) else None)"

definition hex_of :: "bytes \<Rightarrow> string" where
  "hex_of bs = concat (map (\<lambda>b. [hex_digit (unat b div 16), hex_digit (unat b mod 16)]) bs)"

fun unhex :: "string \<Rightarrow> bytes option" where
  "unhex [] = Some []"
| "unhex [c] = None"
| "unhex (c # d # s) =
     (case (hex_value c, hex_value d, unhex s) of
        (Some h, Some l, Some bs) \<Rightarrow> Some (of_nat (16 * h + l) # bs)
      | _ \<Rightarrow> None)"

definition sample :: "(nat \<rightharpoonup> tree_map) repo_env" where
  "sample = \<lparr>sha256 = pad32, hex_encode = hex_of, hex_decode = unhex,
     ser_blob = enc_blob, de_blob = whole dec_blob, ser_tree = enc_tree, de_tree = whole dec_tree,
     ser_commit = enc_commit, de_commit = whole dec_commit, ser_delta = enc_delta, de_delta = whole dec_delta,
     hooks = (\<lambda>_. None), rfc3339 = (\<lambda>_. None), lru_empty = Map.empty, lru_get = (\<lambda>c k. (c k, c)),
     lru_put = (\<lambda>k t c. c(k \<mapsto> t)), lru_view = (\<lambda>c. c)\<rparr>"

lemma hex_value_digit: "d < 16 \<Longrightarrow> hex_value (hex_digit d) = Some d"
  by (auto simp: hex_value_def hex_digit_def Let_def)

lemma unhex_hex_of: "unhex (hex_of bs) = Some bs"
proof (induction bs)
  case (Cons b bs)
  have "unat b < 256" by (rule unat_byte_less)
  then have "unat b div 16 < 16" by linarith
  then show ?case using Cons by (simp add: hex_of_def hex_value_digit)
qed (simp add: hex_of_def)

lemma length_pad32: "length (pad32 d) = 32"
  by (simp add: pad32_def)

lemma sample_ok: "env_ok sample"
  by (simp add: env_ok_def externals_ok_def lru_ok_def sample_def length_pad32 unhex_hex_of
      whole_enc [OF codec_blob] whole_enc [OF codec_tree] whole_enc [OF codec_commit] whole_enc [OF codec_delta])

lemma sample_no_hooks [simp]: "hooks sample = (\<lambda>_. None)"
  by (simp add: sample_def)

section \<open>A repository in it\<close>

definition sample_repo :: "(nat \<rightharpoonup> tree_map) repo" where
  "sample_repo = fst (the (initialize sample 0 (repo_open sample ''uuid'' (blank Map.empty))))"

lemma sample_repo_facts:
  shows sample_created: "initialize sample 0 (repo_open sample ''uuid'' (blank Map.empty)) = Some (sample_repo, Inr ())"
    and "repo_inv sample sample_repo" and "r_current_rev sample_repo = 0" and "r_pending sample_repo = []"
    and "work sample_repo = []" and "head_saved sample_repo"
proof -
  obtain s where s: "initialize sample 0 (repo_open sample ''uuid'' (blank Map.empty)) = Some (s, Inr ())"
    and f: "repo_inv sample s" "r_current_rev s = 0" "r_pending s = []" "work s = []" "head_saved s"
    using initialize_blank [OF sample_ok] by blast
  then have "s = sample_repo" by (simp add: sample_repo_def)
  with s f show "initialize sample 0 (repo_open sample ''uuid'' (blank Map.empty)) = Some (sample_repo, Inr ())"
    "repo_inv sample sample_repo" "r_current_rev sample_repo = 0" "r_pending sample_repo = []"
    "work sample_repo = []" "head_saved sample_repo"
    by simp_all
qed

lemma sample_reachable: "reachable sample sample_repo"
  by (rule reachable.created [OF sample_ok sample_created])

text \<open>Every encoding ends with a line feed, so content that does not has a hash of its own.\<close>

lemma pad32_lf: "hd (pad32 (xs @ enc_nat n)) = 10"
  by (simp add: pad32_def enc_nat_def)

lemma hash_lf: "hd (pad32 (enc_commit c)) = 10" "hd (pad32 (enc_tree tree_new)) = 10"
  using pad32_lf [of _ "snd (int_code (tz_offset c))"] pad32_lf [of "[]" 0]
  by (simp_all add: enc_commit_def enc_pair_def enc_int_def commit_code_def enc_tree_def enc_list_def tree_new_def
      flip: append_assoc)

lemma sample_slot:
  assumes "d \<noteq> []" and "last d \<noteq> 10"
  shows "map_of (r_objects sample_repo) (from_data sample d) = None"
proof -
  have h: "hd (pad32 d) = last d"
    using assms(1) by (cases d rule: rev_cases) (simp_all add: pad32_def)
  have "pad32 d \<noteq> pad32 (enc_commit c)" "pad32 d \<noteq> pad32 (enc_tree tree_new)" for c
    using h assms(2) hash_lf by metis+
  then show ?thesis
    by (simp add: sample_repo_def initialize_def repo_open_def migrate_root_tree_def migrate_sled_def blank_def Let_def
        store_object_def store_commit_def store_delta_tree_def store_tree_snapshot_def save_head_def ohas_iff
        from_data_def tree_obj_id_def commit_id_def sample_def)
qed

text \<open>No hook is installed, so every commit succeeds.\<close>

lemma sample_commits:
  assumes "repo_inv sample s"
  obtains s' where "commit sample a m ts s = (s', Inr (Suc (r_current_rev s)))"
  using repo_inv_tables [OF assms]
proof (cases rule: commit_result [where E = sample and a = a and m = m and ts = ts])
  case (rejected h chs)
  then show ?thesis by (simp add: run_pre_commit_def)
next
  case (committed chs s')
  then show ?thesis using that by blast
qed

lemma add_safe_clean: "r_pending s = [] \<Longrightarrow> add_safe E s q"
  by (simp add: add_safe_def pend_Nil)

text \<open>One file, committed as revision 1.\<close>

definition sample_edited :: "(nat \<rightharpoonup> tree_map) repo" where
  "sample_edited = apply_edit sample (AddFile ''/src/a'' [104, 105] False) sample_repo"

definition sample_one :: "(nat \<rightharpoonup> tree_map) repo" where
  "sample_one = fst (commit sample ''ann'' ''first'' 0 sample_edited)"

lemma sample_edit_safe: "edit_safe sample (AddFile p d x) sample_repo"
  using add_safe_clean [of sample_repo sample] sample_repo_facts by simp

lemma sample_edited_reachable: "reachable sample sample_edited"
  unfolding sample_edited_def by (rule reachable.edited [OF sample_reachable sample_edit_safe])

lemma sample_edited_facts: "repo_inv sample sample_edited" "r_current_rev sample_edited = 0"
  using reachable_life [OF sample_edited_reachable] sample_repo_facts(3)
  by (simp_all add: life_inv_def) (simp only: sample_edited_def edit_head_tree(1))

lemma sample_initial_commit: "\<exists>c. get_commit sample sample_edited 0 = Some c"
proof -
  obtain s where s: "initialize sample 0 (repo_open sample ''uuid'' (blank Map.empty)) = Some (s, Inr ())"
    and f: "get_commit sample s 0 \<noteq> None"
    using initialize_blank [OF sample_ok] by blast
  then have "s = sample_repo" by (simp add: sample_repo_def)
  moreover have "get_commit sample sample_edited 0 = get_commit sample sample_repo 0"
    using same_history_edit [of sample_repo sample]
    by (simp only: sample_edited_def get_commit_def load_commit_def same_history_def)
  ultimately show ?thesis using f by simp
qed

lemma sample_one_commit: "commit sample ''ann'' ''first'' 0 sample_edited = (sample_one, Inr 1)"
proof -
  obtain s' where "commit sample ''ann'' ''first'' 0 sample_edited = (s', Inr (Suc (r_current_rev sample_edited)))"
    by (rule sample_commits [OF sample_edited_facts(1)])
  with sample_edited_facts(2) show ?thesis by (simp add: sample_one_def)
qed

lemma sample_one_reachable: "reachable sample sample_one"
  by (rule reachable.committed [OF sample_edited_reachable sample_one_commit]) simp

lemma sample_one_facts:
  "repo_inv sample sample_one" "r_current_rev sample_one = 1" "r_pending sample_one = []"
  "work sample_one = work sample_edited" "tree_of sample sample_one 1 = work sample_edited"
proof -
  note c = commit_okI [OF sample_one_commit]
  obtain chs a m ts where "commits_as sample chs a m ts sample_edited sample_one"
    using commit_okE [OF sample_edited_facts(1) c] .
  then show "r_pending sample_one = []" by (simp add: commits_as_def Let_def)
  show "repo_inv sample sample_one" "r_current_rev sample_one = 1"
    "work sample_one = work sample_edited" "tree_of sample sample_one 1 = work sample_edited"
    using sq.cmt_inv [OF sample_edited_facts(1) c] sq.cmt_head [OF sample_edited_facts(1) c]
      sq.cmt_working [OF sample_edited_facts(1) c] sq.cmt_new [OF sample_edited_facts(1) c] sample_edited_facts(2)
    by simp_all
qed

lemma sample_one_work:
  "map_of (work sample_edited) = [''src/a'' \<mapsto> tree_entry_new ''src/a'' (from_data sample [104, 105]) KBlob 420]"
  using add_file_work [OF sample_repo_facts(2), of "''/src/a''" "[104, 105]" False] sample_repo_facts
  by (simp add: sample_edited_def file_mode_def trim_start_matches_def)

definition sample_change :: tree_change where
  "sample_change = Upsert ''src/a'' (tree_entry_new ''src/a'' (from_data sample [104, 105]) KBlob 420)"

lemma sample_rev_changes: "rev_changes sample sample_one 1 = [sample_change]"
proof -
  have o: "oid_ok (from_data sample [104, 105])" and ext: "externals_ok sample" using sample_ok by (simp_all add: env_ok_def)
  have "r_pending sample_edited = [(''src/a'', \<lparr>pr_change_type = 0, pr_oid = Some (as_bytes (from_data sample [104, 105])),
      pr_kind = Some 0, pr_mode = Some (uint (420 :: 32 word))\<rparr>)]"
    using sample_repo_facts(4) by (simp add: sample_edited_def add_file_def Let_def conn_tree_insert_def
        file_mode_def trim_start_matches_def)
  then have "conn_collect_pending sample_edited = (sample_edited\<lparr>r_pending := []\<rparr>, Inr ([sample_change], length (r_tree_entries sample_edited)))"
    using o by (simp add: conn_collect_pending_def pending_change_def i64_to_kind_def sample_change_def)
  then have "map_of (r_deltas sample_one) 1 = Some (ser_delta sample (delta_tree_new 0 [sample_change] (length (r_tree_entries sample_edited))))"
    using sample_edited_facts(2)
    by (simp add: sample_one_def commit_def Let_def run_pre_commit_def run_post_commit_def omap_simps SNAPSHOT_INTERVAL_def)
  then show ?thesis
    using externals_okD(6) [OF ext] by (simp add: rev_changes_def delta_at_def delta_tree_new_def)
qed

lemma sample_file: "file_of sample sample_one 1 ''src/a'' = Some [104, 105]"
proof -
  have "commit_ok sample (''ann'', ''first'', 0) (fst (add_file sample ''/src/a'' [104, 105] False sample_repo)) = Some sample_one"
    using commit_okI [OF sample_one_commit] by (simp add: sample_edited_def)
  from read_back(1) [OF sample_repo_facts(2) sample_edit_safe _ this, of "[]"] sample_slot [of "[104, 105]"] sample_repo_facts(3)
  show ?thesis by (simp add: slot_ok_def trim_start_matches_def)
qed

lemma sample_uuids:
  "r_uuid sample_repo = ''uuid''" "r_uuid sample_one = ''uuid''" "\<not> r_batch_mode sample_repo" "r_tree_entries sample_repo = []"
proof -
  show u: "r_uuid sample_repo = ''uuid''" "\<not> r_batch_mode sample_repo" "r_tree_entries sample_repo = []"
    by (simp_all add: sample_repo_def initialize_def repo_open_def migrate_root_tree_def migrate_sled_def blank_def Let_def
        store_object_def store_commit_def store_delta_tree_def store_tree_snapshot_def save_head_def)
  have "r_uuid sample_edited = r_uuid sample_repo"
    by (simp add: sample_edited_def add_file_def Let_def conn_tree_insert_def store_object_def)
  moreover have "r_uuid sample_one = r_uuid sample_edited"
    using sample_one_commit by (auto simp: sample_one_def commit_def Let_def conn_collect_pending_def store_object_def record_commit_def
        store_commit_def store_delta_tree_def store_tree_snapshot_def save_head_def split: sum.splits prod.splits)
  ultimately show "r_uuid sample_one = ''uuid''" using u(1) by simp
qed

section \<open>An environment with a hook\<close>

text \<open>A pre-commit script that accepts only the log message \<open>ok\<close>.\<close>

definition strict_hook :: installed where
  "strict_hook name =
     (if name = ''pre-commit''
      then Some (\<lambda>inp. if contains_sub inp (hook_line ''LOG: '' ''ok'') then Exited (Some 0) [] [] else Exited (Some 1) [] ''bad log'')
      else None)"

definition strict :: "(nat \<rightharpoonup> tree_map) repo_env" where
  "strict = sample\<lparr>hooks := strict_hook\<rparr>"

lemma env_ok_hooks: "env_ok (E\<lparr>hooks := h\<rparr>) = env_ok E"
  by (simp add: env_ok_def externals_ok_def lru_ok_def)

lemma strict_ok: "env_ok strict"
  by (simp only: strict_def env_ok_hooks sample_ok)

definition strict_repo :: "(nat \<rightharpoonup> tree_map) repo" where
  "strict_repo = fst (the (initialize strict 0 (repo_open strict ''uuid'' (blank Map.empty))))"

definition strict_edited :: "(nat \<rightharpoonup> tree_map) repo" where
  "strict_edited = apply_edit strict (AddFile ''/src/a'' [104, 105] False) strict_repo"

lemma strict_repo_facts: "reachable strict strict_repo" "r_current_rev strict_repo = 0" "r_pending strict_repo = []"
proof -
  obtain s where s: "initialize strict 0 (repo_open strict ''uuid'' (blank Map.empty)) = Some (s, Inr ())"
    and f: "r_current_rev s = 0" "r_pending s = []"
    using initialize_blank [OF strict_ok] by blast
  then have "s = strict_repo" by (simp add: strict_repo_def)
  with s f reachable.created [OF strict_ok s] show "reachable strict strict_repo" "r_current_rev strict_repo = 0"
    "r_pending strict_repo = []" by simp_all
qed

lemma strict_edited_facts: "reachable strict strict_edited" "r_current_rev strict_edited = 0" "tables_ok strict_edited"
proof -
  show r: "reachable strict strict_edited"
    unfolding strict_edited_def
    by (rule reachable.edited [OF strict_repo_facts(1)]) (simp add: add_safe_clean strict_repo_facts(3))
  show "tables_ok strict_edited"
    using reachable_life [OF r] repo_inv_tables [of strict] by (simp add: life_inv_def)
  show "r_current_rev strict_edited = 0"
    using strict_repo_facts(2) by (simp only: strict_edited_def edit_head_tree(1))
qed

lemma strict_pending: "\<exists>n. conn_collect_pending strict_edited =
    (strict_edited\<lparr>r_pending := []\<rparr>, Inr ([Upsert ''src/a'' (tree_entry_new ''src/a'' (from_data strict [104, 105]) KBlob 420)], n))"
proof -
  have o: "oid_ok (from_data strict [104, 105])" using strict_ok by (simp add: env_ok_def)
  have "r_pending strict_edited = [(''src/a'', \<lparr>pr_change_type = 0, pr_oid = Some (as_bytes (from_data strict [104, 105])),
      pr_kind = Some 0, pr_mode = Some (uint (420 :: 32 word))\<rparr>)]"
    using strict_repo_facts(3) by (simp add: strict_edited_def add_file_def Let_def conn_tree_insert_def
        file_mode_def trim_start_matches_def)
  then show ?thesis
    using o by (simp add: conn_collect_pending_def pending_change_def i64_to_kind_def)
qed

lemma strict_decides:
  "run_pre_commit strict_hook 1 ''ann'' ''no'' ''0'' [(''A'', ''src/a'')] = Inl (HookRejected ''pre-commit'' ''bad log'')"
  "run_pre_commit strict_hook 1 ''ann'' ''ok'' ''0'' [] = Inr ()"
  by code_simp+

lemma show_int_0: "show_int 0 = ''0''"
  by code_simp

lemma strict_env: "hooks strict = strict_hook" "hook_date strict 0 = ''0''"
  by (simp_all add: strict_def sample_def hook_date_def show_int_0)

definition strict_rejected :: "(nat \<rightharpoonup> tree_map) repo" where
  "strict_rejected = strict_edited\<lparr>r_pending := []\<rparr>"

lemma strict_rejects:
  "commit strict ''ann'' ''no'' 0 strict_edited = (strict_rejected, Inl (HookFailed (HookRejected ''pre-commit'' ''bad log'')))"
  using strict_pending strict_decides(1) strict_env strict_edited_facts(2)
  by (auto simp: commit_def Let_def hook_files_def strict_rejected_def)

lemma strict_accepts: "\<exists>s'. commit strict ''ann'' ''ok'' 0 strict_rejected = (s', Inr 1)"
  using strict_decides(2) strict_env strict_edited_facts(2)
  by (auto simp: commit_def Let_def hook_files_def strict_rejected_def conn_collect_pending_def)

end
