(* ===== verification/Mem_Repository.thy ===== *)
theory Mem_Repository
  imports Object_Model Revision_Store
begin

text \<open>
  The in-memory repository of \<open>dsvn-core/src/repository.rs\<close>: a content-addressed object map, the
  root tree being edited, and one commit per revision. Trees are flat (full paths as names),
  with a second lookup that walks nested trees. It implements \<open>revision_store\<close>, as the SQLite
  repository does, as long as no object overwrites a different object of the same identifier.
\<close>

section \<open>State and operations\<close>

record mem_repo =
  m_objects :: "(object_id, bytes) omap"
  m_root_tree :: tree
  m_current_rev :: nat
  m_commits :: "(nat, commit) omap"
  m_path_index :: "(string, object_id) omap"
  m_uuid :: string

datatype mem_error =
    RevisionNotFound nat
  | MemTreeNotFound object_id
  | MemBlobNotFound object_id
  | MemDecodeError
  | MemPathNotFound string
  | MemDirectoryNotFound string

definition mem_new :: "string \<Rightarrow> mem_repo" where
  "mem_new uuid = \<lparr>m_objects = [], m_root_tree = tree_new, m_current_rev = 0, m_commits = [],
     m_path_index = [], m_uuid = uuid\<rparr>"

definition mem_load_tree :: "('x) externals_scheme \<Rightarrow> mem_repo \<Rightarrow> object_id \<Rightarrow> mem_error + tree" where
  "mem_load_tree E s i =
     rbind (ok_or (MemTreeNotFound i) (map_of (m_objects s) i)) (\<lambda>bs. ok_or MemDecodeError (de_tree E bs))"

definition mem_load_blob :: "('x) externals_scheme \<Rightarrow> mem_repo \<Rightarrow> object_id \<Rightarrow> mem_error + bytes" where
  "mem_load_blob E s i =
     rbind (ok_or (MemBlobNotFound i) (map_of (m_objects s) i)) (\<lambda>bs.
       rbind (ok_or MemDecodeError (blob_deserialize E bs)) (\<lambda>b. Inr (blob_data b)))"

definition mem_tree_at :: "('x) externals_scheme \<Rightarrow> mem_repo \<Rightarrow> nat \<Rightarrow> mem_error + tree" where
  "mem_tree_at E s r =
     rbind (ok_or (RevisionNotFound r) (map_of (m_commits s) r)) (\<lambda>c. mem_load_tree E s (tree_id c))"

fun mem_nav_file :: "('x) externals_scheme \<Rightarrow> mem_repo \<Rightarrow> string \<Rightarrow> string list \<Rightarrow> tree \<Rightarrow> mem_error + bytes" where
  "mem_nav_file E s path [] t = Inl (MemPathNotFound path)"
| "mem_nav_file E s path (part # rest) t =
     (if part = [] then mem_nav_file E s path rest t
      else case tree_get t part of
             None \<Rightarrow> Inl (MemPathNotFound path)
           | Some e \<Rightarrow>
               if rest = [] then mem_load_blob E s (te_id e)
               else rbind (mem_load_tree E s (te_id e)) (mem_nav_file E s path rest))"

definition mem_get_file :: "('x) externals_scheme \<Rightarrow> mem_repo \<Rightarrow> string \<Rightarrow> nat \<Rightarrow> mem_error + bytes" where
  "mem_get_file E s path r =
     rbind (mem_tree_at E s r) (\<lambda>t.
       let full_path = trim_start_matches CHR ''/'' path;
           walk = mem_nav_file E s path (split CHR ''/'' full_path) t in
       case tree_get t full_path of
         Some e \<Rightarrow> if te_kind e = KBlob then mem_load_blob E s (te_id e) else walk
       | None \<Rightarrow> walk)"

fun mem_nav_dir :: "('x) externals_scheme \<Rightarrow> mem_repo \<Rightarrow> string \<Rightarrow> string list \<Rightarrow> tree \<Rightarrow> mem_error + tree" where
  "mem_nav_dir E s path [] t = Inr t"
| "mem_nav_dir E s path (part # rest) t =
     (if part = [] then mem_nav_dir E s path rest t
      else case tree_get t part of
             None \<Rightarrow> Inl (MemDirectoryNotFound path)
           | Some e \<Rightarrow> rbind (mem_load_tree E s (te_id e)) (mem_nav_dir E s path rest))"

definition mem_list_dir :: "('x) externals_scheme \<Rightarrow> mem_repo \<Rightarrow> string \<Rightarrow> nat \<Rightarrow> mem_error + string list" where
  "mem_list_dir E s path r =
     rbind (mem_tree_at E s r) (\<lambda>t.
       rbind (mem_nav_dir E s path (split CHR ''/'' (trim_start_matches CHR ''/'' path)) t) (\<lambda>d.
         Inr (map te_name (tree_iter d))))"

definition mem_insert :: "object_id \<Rightarrow> bytes \<Rightarrow> mem_repo \<Rightarrow> mem_repo" where
  "mem_insert i bs s = s\<lparr>m_objects := oput i bs (m_objects s)\<rparr>"

definition mem_add_file :: "('x) externals_scheme \<Rightarrow> string \<Rightarrow> bytes \<Rightarrow> bool \<Rightarrow> mem_repo \<Rightarrow> mem_repo \<times> object_id" where
  "mem_add_file E path content executable s =
     (let b = blob_new content executable; bid = blob_id E b;
          s1 = mem_insert bid (blob_to_bytes E b) s;
          e = tree_entry_new (trim_start_matches CHR ''/'' path) bid KBlob (if executable then 493 else 420)
      in (s1\<lparr>m_root_tree := tree_insert e (m_root_tree s1), m_path_index := oput path bid (m_path_index s1)\<rparr>, bid))"

text \<open>Both branches of the source insert an empty tree; the name is the first part or the full path.\<close>

definition mem_mkdir :: "('x) externals_scheme \<Rightarrow> string \<Rightarrow> mem_repo \<Rightarrow> mem_repo \<times> object_id" where
  "mem_mkdir E path s =
     (let full_path = trim_start_matches CHR ''/'' path;
          parts = split CHR ''/'' full_path;
          t = tree_new; tid = tree_obj_id E t;
          s1 = mem_insert tid (tree_to_bytes E t) s;
          name = (if length parts = 1 then hd parts else full_path)
      in (s1\<lparr>m_root_tree := tree_insert (tree_entry_new name tid KTree 493) (m_root_tree s1),
             m_path_index := oput path tid (m_path_index s1)\<rparr>, tid))"

definition mem_delete_file :: "string \<Rightarrow> mem_repo \<Rightarrow> mem_repo" where
  "mem_delete_file path s =
     s\<lparr>m_path_index := odel path (m_path_index s),
       m_root_tree := snd (tree_remove (trim_start_matches CHR ''/'' path) (m_root_tree s))\<rparr>"

definition mem_parents :: "('x) externals_scheme \<Rightarrow> mem_repo \<Rightarrow> object_id list" where
  "mem_parents E s =
     (if m_current_rev s > 0
      then (case map_of (m_commits s) (m_current_rev s) of Some p \<Rightarrow> [commit_id E p] | None \<Rightarrow> [])
      else [])"

definition mem_store_tree :: "('x) externals_scheme \<Rightarrow> mem_repo \<Rightarrow> mem_repo" where
  "mem_store_tree E s =
     (let tid = tree_obj_id E (m_root_tree s) in
      if ohas (m_objects s) tid then s else mem_insert tid (tree_to_bytes E (m_root_tree s)) s)"

definition mem_commit :: "('x) externals_scheme \<Rightarrow> string \<Rightarrow> string \<Rightarrow> int \<Rightarrow> mem_repo \<Rightarrow> mem_repo \<times> nat" where
  "mem_commit E a m ts s =
     (let s1 = mem_store_tree E s;
          c = commit_new (tree_obj_id E (m_root_tree s)) (mem_parents E s1) a m ts 0;
          nr = m_current_rev s1 + 1;
          s2 = mem_insert (commit_id E c) (commit_to_bytes E c) s1
      in (s2\<lparr>m_commits := oput nr c (m_commits s2), m_current_rev := nr\<rparr>, nr))"

fun mem_log_loop :: "mem_repo \<Rightarrow> nat \<Rightarrow> nat list \<Rightarrow> commit list \<Rightarrow> commit list" where
  "mem_log_loop s limit [] acc = acc"
| "mem_log_loop s limit (r # rs) acc =
     (case map_of (m_commits s) r of
        None \<Rightarrow> mem_log_loop s limit rs acc
      | Some c \<Rightarrow> if limit \<le> length (acc @ [c]) then acc @ [c] else mem_log_loop s limit rs (acc @ [c]))"

definition mem_log :: "mem_repo \<Rightarrow> nat \<Rightarrow> nat \<Rightarrow> commit list" where
  "mem_log s start_rev limit = mem_log_loop s limit (rev [0..<Suc (min start_rev (m_current_rev s))]) []"

definition mem_exists :: "('x) externals_scheme \<Rightarrow> mem_repo \<Rightarrow> string \<Rightarrow> nat \<Rightarrow> bool" where
  "mem_exists E s path r = is_ok (mem_get_file E s path r)"

definition mem_initialize :: "('x) externals_scheme \<Rightarrow> int \<Rightarrow> mem_repo \<Rightarrow> mem_repo" where
  "mem_initialize E now s =
     (let tid = tree_obj_id E tree_new;
          s1 = mem_insert tid (tree_to_bytes E tree_new) s;
          c = commit_new tid [] ''system'' ''Initial commit'' now 0;
          s2 = mem_insert (commit_id E c) (commit_to_bytes E c) s1
      in s2\<lparr>m_commits := oput 0 c (m_commits s2)\<rparr>)"

section \<open>The repository as a revision store\<close>

fun mem_edit :: "('x) externals_scheme \<Rightarrow> edit \<Rightarrow> mem_repo \<Rightarrow> mem_repo" where
  "mem_edit E (AddFile p d x) s = fst (mem_add_file E p d x s)"
| "mem_edit E (MkDir p) s = fst (mem_mkdir E p s)"
| "mem_edit E (DeleteFile p) s = mem_delete_file p s"

text \<open>An object may be stored when its identifier is free or holds the same bytes.\<close>

definition id_free :: "mem_repo \<Rightarrow> object_id \<Rightarrow> bytes \<Rightarrow> bool" where
  "id_free s i bs \<longleftrightarrow> map_of (m_objects s) i = None \<or> map_of (m_objects s) i = Some bs"

fun mem_edit_ok :: "('x) externals_scheme \<Rightarrow> edit \<Rightarrow> mem_repo \<Rightarrow> bool" where
  "mem_edit_ok E (AddFile p d x) s = id_free s (from_data E d) (ser_blob E (d, x))"
| "mem_edit_ok E (MkDir p) s = id_free s (tree_obj_id E tree_new) (ser_tree E tree_new)"
| "mem_edit_ok E (DeleteFile p) s = True"

definition mem_commit_ok :: "('x) externals_scheme \<Rightarrow> string \<times> string \<times> int \<Rightarrow> mem_repo \<Rightarrow> mem_repo option" where
  "mem_commit_ok E k s = (case k of (a, m, ts) \<Rightarrow>
     let t = m_root_tree s; s1 = mem_store_tree E s;
         c = commit_new (tree_obj_id E t) (mem_parents E s1) a m ts 0 in
     if id_free s (tree_obj_id E t) (ser_tree E t) \<and> id_free s1 (commit_id E c) (ser_commit E c)
     then Some (fst (mem_commit E a m ts s)) else None)"

definition mem_inv :: "('x) externals_scheme \<Rightarrow> mem_repo \<Rightarrow> bool" where
  "mem_inv E s \<longleftrightarrow> externals_ok E \<and> tree_wf (m_root_tree s) \<and>
     (\<forall>r. m_current_rev s < r \<longrightarrow> map_of (m_commits s) r = None) \<and>
     (\<forall>r c. map_of (m_commits s) r = Some c \<longrightarrow> (\<exists>t. mem_load_tree E s (tree_id c) = Inr t))"

definition objects_grow :: "mem_repo \<Rightarrow> mem_repo \<Rightarrow> bool" where
  "objects_grow s s' \<longleftrightarrow> (\<forall>i bs. map_of (m_objects s) i = Some bs \<longrightarrow> map_of (m_objects s') i = Some bs)"

lemma objects_grow_insert: "id_free s i bs \<Longrightarrow> objects_grow s (mem_insert i bs s)"
  by (auto simp: objects_grow_def id_free_def mem_insert_def omap_simps)

lemma objects_grow_refl [simp]: "objects_grow s s"
  by (simp add: objects_grow_def)

lemma objects_grow_trans: "objects_grow s t \<Longrightarrow> objects_grow t u \<Longrightarrow> objects_grow s u"
  by (simp add: objects_grow_def)

lemma load_tree_grow: "objects_grow s s' \<Longrightarrow> mem_load_tree E s i = Inr t \<Longrightarrow> mem_load_tree E s' i = Inr t"
  by (auto simp: objects_grow_def mem_load_tree_def ok_or_def rbind_eq_Inr split: option.splits)

lemma mem_insert_frame [simp]:
  "m_root_tree (mem_insert i bs s) = m_root_tree s" "m_current_rev (mem_insert i bs s) = m_current_rev s"
  "m_commits (mem_insert i bs s) = m_commits s" "m_path_index (mem_insert i bs s) = m_path_index s"
  by (simp_all add: mem_insert_def)

lemma mem_edit_frame: "m_current_rev (mem_edit E e s) = m_current_rev s" "m_commits (mem_edit E e s) = m_commits s"
  by (cases e; simp add: mem_add_file_def mem_mkdir_def mem_delete_file_def Let_def)+

lemma mem_edit_grow: "mem_edit_ok E e s \<Longrightarrow> objects_grow s (mem_edit E e s)"
  using objects_grow_insert
  by (cases e) (auto simp: mem_add_file_def mem_mkdir_def mem_delete_file_def Let_def objects_grow_def
      blob_to_bytes_def tree_to_bytes_def)

lemma mem_edit_wf: "tree_wf (m_root_tree s) \<Longrightarrow> tree_wf (m_root_tree (mem_edit E e s))"
  by (cases e) (simp_all add: mem_add_file_def mem_mkdir_def mem_delete_file_def Let_def)

lemma mem_inv_tree: "mem_inv E s \<Longrightarrow> map_of (m_commits s) r = Some c \<Longrightarrow> \<exists>t. mem_load_tree E s (tree_id c) = Inr t"
  unfolding mem_inv_def by blast

lemma mem_tree_at_grow:
  assumes "mem_inv E s" and "objects_grow s s'" and "m_commits s' = m_commits s"
  shows "mem_tree_at E s' r = mem_tree_at E s r"
proof (cases "map_of (m_commits s) r")
  case (Some c)
  with mem_inv_tree [OF assms(1)] obtain t where "mem_load_tree E s (tree_id c) = Inr t" by blast
  with load_tree_grow [OF assms(2)] Some assms(3) show ?thesis by (simp add: mem_tree_at_def)
qed (simp add: mem_tree_at_def assms(3))

lemma mem_edit_inv:
  assumes "mem_inv E s" and "mem_edit_ok E e s"
  shows "mem_inv E (mem_edit E e s)"
  using assms(1) mem_edit_wf [of s E e] load_tree_grow [OF mem_edit_grow [OF assms(2)]]
  unfolding mem_inv_def mem_edit_frame by blast

lemma mem_store_tree_frame [simp]:
  "m_root_tree (mem_store_tree E s) = m_root_tree s" "m_current_rev (mem_store_tree E s) = m_current_rev s"
  "m_commits (mem_store_tree E s) = m_commits s"
  by (simp_all add: mem_store_tree_def Let_def)

lemma mem_store_tree_ok:
  assumes "id_free s (tree_obj_id E (m_root_tree s)) (ser_tree E (m_root_tree s))"
  shows "map_of (m_objects (mem_store_tree E s)) (tree_obj_id E (m_root_tree s)) = Some (ser_tree E (m_root_tree s))"
    and "objects_grow s (mem_store_tree E s)"
  using assms
  by (auto simp: mem_store_tree_def Let_def id_free_def ohas_iff mem_insert_def omap_simps tree_to_bytes_def objects_grow_def)

lemma mem_commit_okE:
  assumes "mem_inv E s" and "mem_commit_ok E k s = Some s'"
  obtains c where "m_current_rev s' = Suc (m_current_rev s)" "m_root_tree s' = m_root_tree s"
    "m_commits s' = oput (Suc (m_current_rev s)) c (m_commits s)" "objects_grow s s'"
    "mem_load_tree E s' (tree_id c) = Inr (m_root_tree s)"
    "k = (author c, message c, timestamp c)" "parents c = mem_parents E s"
proof -
  obtain a m ts where k: "k = (a, m, ts)" by (cases k)
  let ?t = "m_root_tree s" and ?s1 = "mem_store_tree E s"
  let ?c = "commit_new (tree_obj_id E ?t) (mem_parents E ?s1) a m ts 0"
  have f1: "id_free s (tree_obj_id E ?t) (ser_tree E ?t)" and f2: "id_free ?s1 (commit_id E ?c) (ser_commit E ?c)"
    and s': "s' = fst (mem_commit E a m ts s)"
    using assms(2) by (simp_all add: mem_commit_ok_def k Let_def split: if_splits)
  note st = mem_store_tree_ok [OF f1]
  have g: "objects_grow ?s1 s'"
    using objects_grow_insert [OF f2] by (simp add: s' mem_commit_def Let_def commit_to_bytes_def objects_grow_def)
  have "mem_load_tree E ?s1 (tree_obj_id E ?t) = Inr ?t"
    using st(1) assms(1) externals_okD(4) [of E ?t] by (simp add: mem_load_tree_def mem_inv_def tree_wf_ok)
  from load_tree_grow [OF g this] have l: "mem_load_tree E s' (tree_id ?c) = Inr ?t" by (simp add: commit_new_def)
  have par: "mem_parents E ?s1 = mem_parents E s" by (simp add: mem_parents_def)
  show ?thesis
    by (rule that [of ?c])
      (use l objects_grow_trans [OF st(2) g] par in \<open>simp_all add: s' k mem_commit_def Let_def commit_new_def\<close>)
qed

interpretation mq: revision_store "mem_inv E" m_current_rev "mem_tree_at E" "\<lambda>s. Inr (m_root_tree s)"
    "mem_edit E" "mem_edit_ok E" "mem_commit_ok E"
  for E :: "'x externals_scheme"
proof
  fix s s' :: mem_repo and m r
  assume inv: "mem_inv E s" and c: "mem_commit_ok E m s = Some s'"
  obtain c where f: "m_current_rev s' = Suc (m_current_rev s)" "m_root_tree s' = m_root_tree s"
    "m_commits s' = oput (Suc (m_current_rev s)) c (m_commits s)" "objects_grow s s'"
    "mem_load_tree E s' (tree_id c) = Inr (m_root_tree s)"
    using mem_commit_okE [OF inv c] .
  show "m_current_rev s' = Suc (m_current_rev s)" by (rule f)
  show "mem_tree_at E s' (Suc (m_current_rev s)) = Inr (m_root_tree s)"
    by (simp add: mem_tree_at_def f(3,5) omap_simps)
  show "Inr (m_root_tree s') = Inr (m_root_tree s)" by (simp add: f)
  show "mem_tree_at E s' r = mem_tree_at E s r" if "r \<le> m_current_rev s"
  proof (cases "map_of (m_commits s) r")
    case None
    with that f(3) show ?thesis by (simp add: mem_tree_at_def omap_simps)
  next
    case (Some d)
    with mem_inv_tree [OF inv] obtain t where "mem_load_tree E s (tree_id d) = Inr t" by blast
    with load_tree_grow [OF f(4)] Some that f(3) show ?thesis by (simp add: mem_tree_at_def omap_simps)
  qed
  have "\<exists>t. mem_load_tree E s' (tree_id d) = Inr t" if "map_of (m_commits s') q = Some d" for q d
    using that f(3,5) load_tree_grow [OF f(4)] mem_inv_tree [OF inv, of q d]
    by (cases "q = Suc (m_current_rev s)") (auto simp: omap_simps)
  then show "mem_inv E s'" using inv f(1-3) by (simp add: mem_inv_def omap_simps)
qed (auto intro: mem_edit_inv simp: mem_edit_frame mem_tree_at_grow [OF _ mem_edit_grow])

section \<open>Initialising and the log\<close>

lemma mem_initialize_inv:
  assumes "externals_ok E"
    and "commit_id E (commit_new (tree_obj_id E tree_new) [] ''system'' ''Initial commit'' now 0) \<noteq> tree_obj_id E tree_new"
  shows "mem_inv E (mem_initialize E now (mem_new u))"
  using assms externals_okD(4) [OF assms(1), of tree_new]
  by (simp add: mem_inv_def mem_initialize_def mem_new_def Let_def mem_load_tree_def mem_insert_def omap_simps
      tree_to_bytes_def commit_new_def) (simp add: tree_new_def)

lemma mem_log_loop_eq:
  "length acc < limit \<Longrightarrow> mem_log_loop s limit rs acc = acc @ take (limit - length acc) (List.map_filter (map_of (m_commits s)) rs)"
proof (induction rs arbitrary: acc)
  case (Cons r rs)
  then obtain k where k: "limit - length acc = Suc k" by (cases "limit - length acc") auto
  then have "limit - Suc (length acc) = k" by simp
  with Cons k show ?case
    by (auto simp: List.map_filter_simps split: option.split)
qed (simp add: List.map_filter_simps)

end
