(* ===== verification/Repository_Properties.thy ===== *)
theory Repository_Properties
  imports Sample_Environment Mem_Repository
begin

text \<open>
  The properties of the SQLite repository, over all reachable states, and of the in-memory
  repository, each with a witness in the sample environment.
\<close>



text \<open>
  C2. Revisions are immutable: any sequence of edits and successful commits adds one revision
  per commit and leaves the tree of every earlier revision as it was.
\<close>

theorem history_immutable:
  assumes "reachable E s"
    and "run_steps (apply_edit E) (edit_safe E) (commit_ok E) steps s = Some s'"
  shows "r_current_rev s' = r_current_rev s + count_commits steps \<and>
         (\<forall>r \<le> r_current_rev s. tree_of E s' r = tree_of E s r)"
  using sq.run_steps_ok [OF _ assms(2)] reachable_life [OF assms(1)] by (simp add: life_inv_def)

theorem history_immutable_witness:
  "reachable sample sample_repo \<and>
   run_steps (apply_edit sample) (edit_safe sample) (commit_ok sample)
     [Inl (AddFile ''/src/a'' [104, 105] False), Inr (''ann'', ''first'', 0)] sample_repo = Some sample_one \<and>
   r_current_rev sample_one = 1 \<and> tree_of sample sample_one 0 = tree_of sample sample_repo 0"
proof -
  have run: "run_steps (apply_edit sample) (edit_safe sample) (commit_ok sample)
     [Inl (AddFile ''/src/a'' [104, 105] False), Inr (''ann'', ''first'', 0)] sample_repo = Some sample_one"
    using sample_edit_safe commit_okI [OF sample_one_commit] by (simp add: sample_edited_def)
  from history_immutable [OF sample_reachable run] run sample_reachable sample_repo_facts(3) show ?thesis
    by (simp add: count_commits_def)
qed



text \<open>
  C4. Round trip of file contents: after adding a file, committing and any later edits and
  commits, reading the path at the commit's revision returns exactly the bytes added, provided
  the object slot of the content's hash was free or held that content.
\<close>

theorem add_commit_read:
  assumes "reachable E s" and "edit_safe E (AddFile p d x) s" and "slot_ok E s d"
    and "commit E a m ts (fst (add_file E p d x s)) = (s1, Inr n)"
    and "run_steps (apply_edit E) (edit_safe E) (commit_ok E) steps s1 = Some s2"
  shows "\<exists>s3. get_file E p n s2 = Some (s3, Inr d)"
proof -
  have i: "repo_inv E s" using reachable_life [OF assms(1)] by (simp add: life_inv_def)
  have t: "tables_ok (fst (add_file E p d x s))"
    using repo_inv_tables [OF edit_repo_inv [OF i assms(2)]] by simp
  have n: "n = Suc (r_current_rev s)"
    using commit_number(1) [OF t assms(4)] edit_head_tree(1) [of E "AddFile p d x" s] by simp
  note rb = read_back [OF i assms(2,3) commit_okI [OF assms(4)] assms(5)]
  obtain s3 res where "get_file E p n s2 = Some (s3, res)"
    and "result_ok res = (if n \<le> r_current_rev s2 then file_of E s2 n (trim_start_matches CHR ''/'' p) else None)"
    using get_file_ok [OF repo_inv_history(1,2) [OF rb(3)]] .
  with rb(1,2) n show ?thesis by (cases res) auto
qed

theorem add_commit_read_witness:
  "reachable sample sample_repo \<and> edit_safe sample (AddFile ''/src/a'' [104, 105] False) sample_repo \<and>
   slot_ok sample sample_repo [104, 105] \<and> (\<exists>s3. get_file sample ''/src/a'' 1 sample_one = Some (s3, Inr [104, 105]))"
proof -
  have slot: "slot_ok sample sample_repo [104, 105]" by (simp add: slot_ok_def sample_slot)
  have c: "commit sample ''ann'' ''first'' 0 (fst (add_file sample ''/src/a'' [104, 105] False sample_repo)) = (sample_one, Inr 1)"
    using sample_one_commit by (simp add: sample_edited_def)
  from add_commit_read [OF sample_reachable sample_edit_safe slot c, of "[]" sample_one]
    sample_reachable sample_edit_safe [of "''/src/a''" "[104, 105]" False] slot
  show ?thesis by simp
qed





text \<open>
  C18. Recovery: if the working-tree database of a reachable repository is lost, opening and
  initialising succeeds, finds the same head and the same trees, and rebuilds the working tree
  as the tree of the head revision.
\<close>

theorem recovery_rebuilds_head:
  assumes "reachable E s"
  shows "\<exists>s'. initialize E now (repo_open E u (lose_tables s)) = Some (s', Inr ()) \<and>
          r_current_rev s' = r_current_rev s \<and> tree_of E s' = tree_of E s \<and>
          work s' = tree_of E s (r_current_rev s) \<and> reachable E s'"
proof -
  note l = reachable_life [OF assms]
  obtain s' where i: "initialize E now (repo_open E u (lose_tables s)) = Some (s', Inr ())"
    by (rule recover_returns [OF l])
  from recover_life [OF l i] reachable.recovered [OF assms i] i show ?thesis by blast
qed

theorem recovery_rebuilds_head_witness:
  "reachable sample sample_one \<and>
   (\<exists>s'. initialize sample 5 (repo_open sample ''other'' (lose_tables sample_one)) = Some (s', Inr ()) \<and>
     map_of (work s') ''src/a'' \<noteq> None)"
  using recovery_rebuilds_head [OF sample_one_reachable, of 5 "''other''"] sample_one_reachable
    sample_one_facts(2,5) sample_one_work by force

text \<open>
  C19. A commit fails only when the pre-commit hook rejects it, and then no revision, commit,
  object, head file or tree changes, nor the working tree.
\<close>

theorem rejected_commit_changes_nothing:
  assumes "reachable E s" and "commit E a m ts s = (s1, Inl e)"
  shows "(\<exists>h. e = HookFailed h) \<and> r_current_rev s1 = r_current_rev s \<and> r_head_file s1 = r_head_file s \<and>
         tree_of E s1 = tree_of E s \<and> r_commits s1 = r_commits s \<and> r_objects s1 = r_objects s \<and> work s1 = work s"
proof -
  have "tables_ok s" using reachable_life [OF assms(1)] repo_inv_tables [of E] by (simp add: life_inv_def)
  from commit_rejected [OF this assms(2)] show ?thesis
    by (simp add: work_def conn_build_tree_def tree_of_def fun_eq_iff)
qed

theorem rejected_commit_changes_nothing_witness:
  "reachable strict strict_edited \<and>
   commit strict ''ann'' ''no'' 0 strict_edited = (strict_rejected, Inl (HookFailed (HookRejected ''pre-commit'' ''bad log''))) \<and>
   r_current_rev strict_rejected = 0"
  using rejected_commit_changes_nothing [OF strict_edited_facts(1) strict_rejects] strict_edited_facts strict_rejects by simp

text \<open>
  The changes of a rejected commit are gone: a later commit, made without further edits,
  creates a revision whose tree equals the old head although the working tree still has them.
\<close>

theorem rejected_changes_are_lost:
  assumes "reachable E s" and "commit E a m ts s = (s1, Inl e)" and "commit E a' m' ts' s1 = (s2, Inr n)"
  shows "tree_of E s2 n = tree_of E s (r_current_rev s) \<and> work s2 = work s"
proof -
  have i: "repo_inv E s" using reachable_life [OF assms(1)] by (simp add: life_inv_def)
  have s1: "s1 = s\<lparr>r_pending := []\<rparr>" using commit_rejected [OF repo_inv_tables [OF i] assms(2)] by simp
  have t1: "tables_ok s1" using repo_inv_tables [OF i] by (simp add: s1 tables_ok_def)
  have p1: "r_pending s1 = []" by (simp add: s1)
  from commit_without_pending [OF repo_inv_history(3) [OF i] t1 p1 assms(3)] show ?thesis
    by (simp add: s1 work_def conn_build_tree_def tree_of_def)
qed

theorem rejected_changes_are_lost_witness:
  "reachable strict strict_edited \<and>
   commit strict ''ann'' ''no'' 0 strict_edited = (strict_rejected, Inl (HookFailed (HookRejected ''pre-commit'' ''bad log''))) \<and>
   (\<exists>s2. commit strict ''ann'' ''ok'' 0 strict_rejected = (s2, Inr 1) \<and> tree_of strict s2 1 = [] \<and> work s2 = work strict_edited)"
proof -
  obtain s2 where c: "commit strict ''ann'' ''ok'' 0 strict_rejected = (s2, Inr 1)" using strict_accepts by blast
  from rejected_changes_are_lost [OF strict_edited_facts(1) strict_rejects c] c strict_rejects strict_edited_facts
  show ?thesis by simp
qed


text \<open>
  Reading a revision beyond the head reports a missing commit for every path, whatever the
  cache holds, and changes nothing but the cache.
\<close>

theorem read_beyond_head:
  assumes "reachable E s" and "r_current_rev s < r"
  shows "\<exists>s'. get_file E p r s = Some (s', Inl (CommitNotFound r)) \<and> only_cache s s'"
proof -
  have "repo_inv E s" using reachable_life [OF assms(1)] by (simp add: life_inv_def)
  note h = repo_inv_history [OF this]
  obtain s' where "get_tree_at_rev E r s = Some (s', Inl (CommitNotFound r))" "only_cache s s'"
    using get_tree_beyond_head [OF h(1,2) assms(2)] .
  then show ?thesis by (simp add: get_file_def Let_def)
qed

theorem read_beyond_head_witness:
  "reachable sample sample_one \<and> r_current_rev sample_one < 7 \<and>
   (\<exists>s'. get_file sample ''/src/a'' 7 sample_one = Some (s', Inl (CommitNotFound 7)))"
  using read_beyond_head [OF sample_one_reachable, of 7 "''/src/a''"] sample_one_reachable sample_one_facts(2) by auto

text \<open>
  \<open>list_dir\<close> returns, sorted and without duplicates, exactly the first path components
  below the directory, and reports a missing directory exactly when there are none below a
  directory other than the root.
\<close>

theorem list_dir_children:
  assumes "reachable E s" and "r \<le> r_current_rev s"
    and "d = trim_end_matches CHR ''/'' (trim_start_matches CHR ''/'' p)"
  shows "\<exists>s'. only_cache s s' \<and> list_dir E p r s = Some (s',
           (if children d (tree_of E s r) = {} \<and> d \<noteq> [] then Inl (DirectoryNotFound p)
            else Inr (sorted_list_of_set (children d (tree_of E s r)))))"
proof -
  have "repo_inv E s" using reachable_life [OF assms(1)] by (simp add: life_inv_def)
  note h = repo_inv_history [OF this]
  show ?thesis
    by (rule list_dir_ok [OF h(1,2) assms(2), of p]) (auto simp: read_ok_def assms(3))
qed

theorem list_dir_children_witness:
  "reachable sample sample_one \<and> (1::nat) \<le> r_current_rev sample_one \<and>
   (\<exists>s'. list_dir sample ''/'' 1 sample_one = Some (s', Inr [''src'']))"
proof -
  have d: "[] = trim_end_matches CHR ''/'' (trim_start_matches CHR ''/'' ''/'')"
    by (simp add: trim_end_matches_def trim_start_matches_def)
  have "dir_entry_name [] ''src/a'' = Some ''src''" by (simp add: dir_entry_name_def)
  then have "children [] (tree_of sample sample_one 1) = {''src''}"
    unfolding children_eq sample_one_facts(5) sample_one_work by auto
  with list_dir_children [OF sample_one_reachable _ d, of 1] sample_one_reachable sample_one_facts(2) show ?thesis by auto
qed

text \<open>
  \<open>log\<close> returns the commits from the smaller of the requested and the head revision down to
  revision 0, skipping revisions without a readable commit, cut off after \<open>limit\<close>.
\<close>

theorem log_newest_first:
  "log E s start limit =
     take limit (List.map_filter (get_commit E s) (rev [0..<Suc (min start (r_current_rev s))]))"
  by (rule log_eq)

text \<open>
  The commit object of a new revision carries the author, message and time given, and its
  only parent is the identifier of the previous head's commit; earlier commits stay as they
  were.
\<close>

theorem commit_metadata:
  assumes "reachable E s" and "commit E a m ts s = (s1, Inr n)" and "get_commit E s (r_current_rev s) = Some old"
  shows "(\<exists>c. get_commit E s1 n = Some c \<and> author c = a \<and> message c = m \<and> timestamp c = ts \<and>
            parents c = [commit_id E old]) \<and>
         (\<forall>r \<le> r_current_rev s. get_commit E s1 r = get_commit E s r)"
proof -
  have i: "repo_inv E s" using reachable_life [OF assms(1)] by (simp add: life_inv_def)
  obtain chs where ca: "commits_as E chs a m ts s s1"
    using repo_inv_tables [OF i]
    by (cases rule: commit_result [where E = E and a = a and m = m and ts = ts]) (use assms(2) in auto)
  have "parents_of E (r_current_rev s) s = [commit_id E old]" by (rule parents_of_known [OF assms(3)])
  with commits_as_commit [OF repo_inv_history(3) [OF i] ca] commit_number(1) [OF repo_inv_tables [OF i] assms(2)]
    commits_as_old_commit [OF ca] show ?thesis by metis
qed

theorem commit_metadata_witness:
  "\<exists>old c. reachable sample sample_edited \<and> commit sample ''ann'' ''first'' 0 sample_edited = (sample_one, Inr 1) \<and>
     get_commit sample sample_edited 0 = Some old \<and> get_commit sample sample_one 1 = Some c \<and> author c = ''ann'' \<and>
     parents c = [commit_id sample old]"
proof -
  obtain old where o: "get_commit sample sample_edited 0 = Some old"
    using sample_initial_commit by blast
  then have "get_commit sample sample_edited (r_current_rev sample_edited) = Some old"
    by (simp add: sample_edited_facts(2))
  from commit_metadata [OF sample_edited_reachable sample_one_commit this] o sample_edited_reachable sample_one_commit
  show ?thesis by blast
qed

text \<open>
  In the in-memory repository the tree a commit records is the root tree it saw, and no
  later sequence of edits and commits (without identifier clashes) changes it.
\<close>

theorem mem_commit_records:
  assumes "mem_inv E s" and "mem_commit_ok E k s = Some s1"
    and "run_steps (mem_edit E) (mem_edit_ok E) (mem_commit_ok E) steps s1 = Some s2"
  shows "mem_tree_at E s2 (Suc (m_current_rev s)) = Inr (m_root_tree s) \<and>
         (\<forall>r \<le> m_current_rev s. mem_tree_at E s2 r = mem_tree_at E s r)"
proof -
  have "run_steps (mem_edit E) (mem_edit_ok E) (mem_commit_ok E) [] s = Some s" by simp
  note rec = mq.run_records_commit [OF assms(1) this assms(2,3)]
  have i1: "mem_inv E s1" by (rule mq.cmt_inv [OF assms(1,2)])
  from mq.run_steps_ok [OF i1 assms(3)] mq.cmt_head [OF assms(1,2)] mq.cmt_old [OF assms(1,2)] rec show ?thesis
    by (simp add: count_commits_def)
qed

text \<open>An in-memory repository in the sample environment.\<close>

definition sample_mem :: mem_repo where
  "sample_mem = mem_initialize sample 0 (mem_new ''uuid'')"

lemma enc_digit: "d < 10 \<Longrightarrow> enc_nat d = [of_nat (48 + d), 10]"
  by (simp add: enc_nat_def show_nat.simps [of d] char_byte_def digit_char_def)

lemma pad32_commit:
  assumes "ts < 10"
  shows "pad32 (enc_commit (commit_new i ps a m (int ts) 0)) ! 2 = 10"
    and "pad32 (enc_commit (commit_new i ps a m (int ts) 0)) ! 5 = of_nat (48 + ts)"
proof -
  obtain xs where "enc_commit (commit_new i ps a m (int ts) 0) = xs @ enc_nat 0 @ enc_nat ts @ enc_nat 0 @ enc_nat 0"
    by (simp add: enc_commit_def enc_pair_def enc_int_def commit_code_def commit_new_def int_code_def flip: append_assoc)
  then show "pad32 (enc_commit (commit_new i ps a m (int ts) 0)) ! 2 = 10"
    "pad32 (enc_commit (commit_new i ps a m (int ts) 0)) ! 5 = of_nat (48 + ts)"
    using assms by (simp_all add: pad32_def enc_digit)
qed

lemma pad32_empty_tree: "pad32 (enc_tree tree_new) ! 2 = 0"
  by (simp add: pad32_def enc_tree_def enc_list_def tree_new_def enc_digit)

lemma sample_mem_facts:
  "mem_inv sample sample_mem" "m_current_rev sample_mem = 0" "m_root_tree sample_mem = tree_new"
  "mem_commit_ok sample (''ann'', ''first'', 5) sample_mem = Some (fst (mem_commit sample ''ann'' ''first'' 5 sample_mem))"
proof -
  have ids: "commit_id sample (commit_new i ps a m (int ts) 0) \<noteq> tree_obj_id sample tree_new" if "ts < 10" for i ps a m ts
    using pad32_commit(1) [OF that, of i ps a m] pad32_empty_tree
    by (auto simp: commit_id_def tree_obj_id_def from_data_def sample_def)
  have neq: "commit_id sample (commit_new i ps a m 5 0) \<noteq> commit_id sample (commit_new i' ps' a' m' 0 0)" for i ps a m i' ps' a' m'
    using pad32_commit(2) [of 5 i ps a m] pad32_commit(2) [of 0 i' ps' a' m']
    by (auto simp: commit_id_def from_data_def sample_def)
  have ext: "externals_ok sample" using sample_ok by (simp add: env_ok_def)
  show "mem_inv sample sample_mem"
    unfolding sample_mem_def by (rule mem_initialize_inv [OF ext]) (use ids [of 0] in simp)
  show "m_current_rev sample_mem = 0" "m_root_tree sample_mem = tree_new"
    by (simp_all add: sample_mem_def mem_initialize_def mem_new_def Let_def)
  show "mem_commit_ok sample (''ann'', ''first'', 5) sample_mem = Some (fst (mem_commit sample ''ann'' ''first'' 5 sample_mem))"
    using ids [of 5] ids [of 0] neq
    by (simp add: mem_commit_ok_def Let_def sample_mem_def mem_initialize_def mem_new_def mem_insert_def id_free_def
        mem_store_tree_def ohas_iff omap_simps tree_to_bytes_def)
qed

theorem mem_commit_records_witness:
  "mem_inv sample sample_mem \<and>
   mem_tree_at sample (fst (mem_commit sample ''ann'' ''first'' 5 sample_mem)) 1 = Inr tree_new"
  using mem_commit_records [OF sample_mem_facts(1,4), of "[]"] sample_mem_facts by simp

end
