(* ===== verification/Property_Store.thy ===== *)
theory Property_Store
  imports Object_Model Codecs
begin

text \<open>
  Versioned properties: \<open>PropertySet\<close> and the in-memory \<open>PropertyStore\<close> of
  \<open>dsvn-core/src/properties.rs\<close>, and the \<open>SqlitePropertyStore\<close> of \<open>sqlite_repository.rs\<close>,
  which keeps one JSON file per path and a cache. Both implement the interface
  \<open>property_map\<close>. The order in which a hash map lists its keys is unspecified; the model lists
  them in key order. The JSON codec (crate \<open>serde_json\<close>) is a parameter.
\<close>

section \<open>Property sets\<close>

record property_set =
  properties :: "(string, string) omap"

definition ps_new :: property_set where
  "ps_new = \<lparr>properties = []\<rparr>"

definition ps_get :: "property_set \<Rightarrow> string \<Rightarrow> string option" where
  "ps_get p name = map_of (properties p) name"

definition ps_set :: "string \<Rightarrow> string \<Rightarrow> property_set \<Rightarrow> property_set" where
  "ps_set name val p = p\<lparr>properties := oput name val (properties p)\<rparr>"

definition ps_remove :: "string \<Rightarrow> property_set \<Rightarrow> string option \<times> property_set" where
  "ps_remove name p = (map_of (properties p) name, p\<lparr>properties := odel name (properties p)\<rparr>)"

definition ps_list :: "property_set \<Rightarrow> string list" where
  "ps_list p = okeys (properties p)"

definition ps_contains :: "property_set \<Rightarrow> string \<Rightarrow> bool" where
  "ps_contains p name = ohas (properties p) name"

definition is_svn_property :: "string \<Rightarrow> bool" where
  "is_svn_property name = starts_with name ''svn:''"

section \<open>The store in memory\<close>

type_synonym prop_store = "(string, property_set) omap"

definition store_new :: prop_store where
  "store_new = []"

definition store_get :: "prop_store \<Rightarrow> string \<Rightarrow> property_set" where
  "store_get s path = unwrap_or ps_new (map_of s path)"

definition store_set :: "string \<Rightarrow> string \<Rightarrow> string \<Rightarrow> prop_store \<Rightarrow> prop_store" where
  "store_set path name val s = oput path (ps_set name val (unwrap_or ps_new (map_of s path))) s"

definition store_remove :: "string \<Rightarrow> string \<Rightarrow> prop_store \<Rightarrow> prop_store \<times> string option" where
  "store_remove path name s =
     (case map_of s path of
        Some p \<Rightarrow> (case ps_remove name p of (v, p') \<Rightarrow> (oput path p' s, v))
      | None \<Rightarrow> (s, None))"

definition store_list :: "prop_store \<Rightarrow> string \<Rightarrow> string list" where
  "store_list s path = unwrap_or [] (map_option ps_list (map_of s path))"

definition store_contains :: "prop_store \<Rightarrow> string \<Rightarrow> string \<Rightarrow> bool" where
  "store_contains s path name = unwrap_or False (map_option (\<lambda>p. ps_contains p name) (map_of s path))"

section \<open>The store on disk\<close>

record prop_env = externals +
  json_encode :: "property_set \<Rightarrow> string"
  json_decode :: "string \<Rightarrow> property_set option"

definition json_ok :: "prop_env \<Rightarrow> bool" where
  "json_ok J \<longleftrightarrow> (\<forall>p. json_decode J (json_encode J p) = Some p)"

record sqlite_props =
  sp_cache :: "(string, property_set) omap"
  sp_files :: "(string, string) omap"

definition path_hash :: "prop_env \<Rightarrow> string \<Rightarrow> string" where
  "path_hash J path = hex_encode J (sha256 J (map char_byte path))"

definition prop_file :: "prop_env \<Rightarrow> string \<Rightarrow> string" where
  "prop_file J path = path_hash J path @ ''.json''"

text \<open>A new process: the files of the directory, an empty cache.\<close>

definition sp_new :: "(string, string) omap \<Rightarrow> sqlite_props" where
  "sp_new files = \<lparr>sp_cache = [], sp_files = files\<rparr>"

definition sp_get :: "prop_env \<Rightarrow> string \<Rightarrow> sqlite_props \<Rightarrow> sqlite_props \<times> property_set" where
  "sp_get J path s =
     (case map_of (sp_cache s) path of
        Some p \<Rightarrow> (s, p)
      | None \<Rightarrow>
          (case map_of (sp_files s) (prop_file J path) of
             Some txt \<Rightarrow>
               (case json_decode J txt of
                  Some p \<Rightarrow> (s\<lparr>sp_cache := oput path p (sp_cache s)\<rparr>, p)
                | None \<Rightarrow> (s, ps_new))
           | None \<Rightarrow> (s, ps_new)))"

definition sp_set :: "prop_env \<Rightarrow> string \<Rightarrow> string \<Rightarrow> string \<Rightarrow> sqlite_props \<Rightarrow> sqlite_props" where
  "sp_set J path name val s =
     (let p = ps_set name val (unwrap_or ps_new (map_of (sp_cache s) path)) in
      s\<lparr>sp_cache := oput path p (sp_cache s),
        sp_files := oput (prop_file J path) (json_encode J p) (sp_files s)\<rparr>)"

definition sp_remove :: "prop_env \<Rightarrow> string \<Rightarrow> string \<Rightarrow> sqlite_props \<Rightarrow> sqlite_props \<times> string option" where
  "sp_remove J path name s =
     (case map_of (sp_cache s) path of
        Some p \<Rightarrow>
          (case ps_remove name p of (v, p') \<Rightarrow>
             (s\<lparr>sp_cache := oput path p' (sp_cache s),
                sp_files := oput (prop_file J path) (json_encode J p') (sp_files s)\<rparr>, v))
      | None \<Rightarrow> (s, None))"

definition sp_list :: "prop_env \<Rightarrow> string \<Rightarrow> sqlite_props \<Rightarrow> sqlite_props \<times> string list" where
  "sp_list J path s = (case sp_get J path s of (s', p) \<Rightarrow> (s', ps_list p))"

definition sp_contains :: "prop_env \<Rightarrow> string \<Rightarrow> string \<Rightarrow> sqlite_props \<Rightarrow> sqlite_props \<times> bool" where
  "sp_contains J path name s = (case sp_get J path s of (s', p) \<Rightarrow> (s', ps_contains p name))"

section \<open>Laws of property sets\<close>

definition ps_ok :: "property_set \<Rightarrow> bool" where
  "ps_ok p \<longleftrightarrow> omap_ok (properties p)"

lemma ps_ok_ops [simp, wf_intros]:
  "ps_ok ps_new" "ps_ok p \<Longrightarrow> ps_ok (ps_set n v p)" "ps_ok p \<Longrightarrow> ps_ok (snd (ps_remove n p))"
  by (simp_all add: ps_ok_def ps_new_def ps_set_def ps_remove_def)

lemma ps_get_ops [omap_simps]:
  "ps_get ps_new = Map.empty" "ps_get (ps_set n v p) = (ps_get p)(n \<mapsto> v)"
  "ps_get (snd (ps_remove n p)) = (ps_get p)(n := None)"
  by (simp_all add: fun_eq_iff ps_get_def ps_new_def ps_set_def ps_remove_def omap_simps)

lemma fst_ps_remove [simp]: "fst (ps_remove n p) = ps_get p n"
  by (simp add: ps_remove_def ps_get_def)

lemma ps_eqI: "ps_ok p \<Longrightarrow> ps_ok q \<Longrightarrow> ps_get p = ps_get q \<Longrightarrow> p = q"
  using omap_eqI [of "properties p" "properties q"] by (simp add: ps_ok_def ps_get_def fun_eq_iff)

lemma ps_contains_iff: "ps_contains p n \<longleftrightarrow> ps_get p n \<noteq> None"
  by (simp add: ps_contains_def ps_get_def ohas_iff domIff)

lemma set_ps_list: "set (ps_list p) = {n. ps_contains p n}"
  by (auto simp: ps_list_def set_okeys ps_contains_def ohas_iff)

interpretation psm: key_value ps_ok ps_new ps_get ps_set "\<lambda>n p. snd (ps_remove n p)"
  by unfold_locales (simp_all add: ps_get_ops ps_eqI fun_eq_iff)

section \<open>The interface of a property store\<close>

text \<open>\<open>lookup s path name\<close> is what a client reads; \<open>set_prop\<close> and \<open>del_prop\<close> change one property.\<close>

locale property_map =
  fixes inv :: "'s \<Rightarrow> bool"
    and lookup :: "'s \<Rightarrow> string \<Rightarrow> string \<Rightarrow> string option"
    and set_prop :: "string \<Rightarrow> string \<Rightarrow> string \<Rightarrow> 's \<Rightarrow> 's"
    and del_prop :: "string \<Rightarrow> string \<Rightarrow> 's \<Rightarrow> 's"
  assumes inv_set: "inv s \<Longrightarrow> inv (set_prop p n v s)"
    and inv_del: "inv s \<Longrightarrow> inv (del_prop p n s)"
    and lookup_set: "inv s \<Longrightarrow> lookup (set_prop p n v s) q m = (if q = p \<and> m = n then Some v else lookup s q m)"
    and lookup_del: "inv s \<Longrightarrow> lookup (del_prop p n s) q m = (if q = p \<and> m = n then None else lookup s q m)"
begin

text \<open>Applying a list of changes (\<open>None\<close> deletes) leaves the last change of every property.\<close>

definition apply_all :: "(string \<times> string \<times> string option) list \<Rightarrow> 's \<Rightarrow> 's" where
  "apply_all chs s = fold (\<lambda>(p, n, v) s. case v of Some x \<Rightarrow> set_prop p n x s | None \<Rightarrow> del_prop p n s) chs s"

lemma apply_all_inv: "inv s \<Longrightarrow> inv (apply_all chs s)"
proof (induction chs arbitrary: s)
  case (Cons c chs)
  obtain p n v where c: "c = (p, n, v)" by (cases c)
  show ?case
  proof (cases v)
    case None
    with Cons.IH [OF inv_del [OF Cons.prems, of p n]] show ?thesis by (simp add: apply_all_def c)
  next
    case (Some x)
    with Cons.IH [OF inv_set [OF Cons.prems, of p n x]] show ?thesis by (simp add: apply_all_def c)
  qed
qed (simp add: apply_all_def)

lemma lookup_apply_all:
  "inv s \<Longrightarrow> lookup (apply_all chs s) p n =
     (case map_of (rev (map (\<lambda>(p, n, v). ((p, n), v)) chs)) (p, n) of Some v \<Rightarrow> v | None \<Rightarrow> lookup s p n)"
proof (induction chs arbitrary: s)
  case (Cons c chs)
  obtain q m v where c: "c = (q, m, v)" by (cases c)
  let ?s = "case v of Some x \<Rightarrow> set_prop q m x s | None \<Rightarrow> del_prop q m s"
  have i: "inv ?s" using Cons.prems by (cases v) (simp_all add: inv_set inv_del)
  have l: "lookup ?s p n = (if p = q \<and> n = m then v else lookup s p n)"
    using Cons.prems by (cases v) (simp_all add: lookup_set lookup_del)
  have "apply_all (c # chs) s = apply_all chs ?s" by (simp add: apply_all_def c)
  then show ?case
    using Cons.IH [OF i] l by (simp add: c map_add_def split: option.split)
qed (simp add: apply_all_def)

end

section \<open>Both stores implement it\<close>

definition store_ok :: "prop_store \<Rightarrow> bool" where
  "store_ok s \<longleftrightarrow> omap_ok s \<and> (\<forall>path p. map_of s path = Some p \<longrightarrow> ps_ok p)"

lemma store_get_ops:
  "ps_get (store_get (store_set path name val s) q) =
     (if q = path then (ps_get (store_get s q))(name \<mapsto> val) else ps_get (store_get s q))"
  "ps_get (store_get (fst (store_remove path name s)) q) =
     (if q = path then (ps_get (store_get s q))(name := None) else ps_get (store_get s q))"
  by (auto simp: store_get_def store_set_def store_remove_def omap_simps case_prod_unfold fun_eq_iff split: option.split)

lemma store_ok_ops [wf_intros]:
  "store_ok s \<Longrightarrow> store_ok (store_set path name val s)"
  "store_ok s \<Longrightarrow> store_ok (fst (store_remove path name s))"
  by (auto simp: store_ok_def store_set_def store_remove_def omap_simps case_prod_unfold unwrap_or_def
      split: option.splits if_splits)

interpretation mem_props: property_map store_ok "\<lambda>s path. ps_get (store_get s path)" store_set
  "\<lambda>path name s. fst (store_remove path name s)"
  by unfold_locales (auto simp: store_get_ops store_ok_ops)

section \<open>The store on disk refines the store in memory\<close>

datatype prop_op =
    SetProp string string string
  | DelProp string string

fun op_path :: "prop_op \<Rightarrow> string" where
  "op_path (SetProp path _ _) = path"
| "op_path (DelProp path _) = path"

fun mem_op :: "prop_op \<Rightarrow> prop_store \<Rightarrow> prop_store" where
  "mem_op (SetProp path name val) s = store_set path name val s"
| "mem_op (DelProp path name) s = fst (store_remove path name s)"

fun disk_op :: "prop_env \<Rightarrow> prop_op \<Rightarrow> sqlite_props \<Rightarrow> sqlite_props" where
  "disk_op J (SetProp path name val) s = sp_set J path name val s"
| "disk_op J (DelProp path name) s = fst (sp_remove J path name s)"

lemma disk_op_cache: "sp_cache (disk_op J a s) = mem_op a (sp_cache s)"
  by (cases a) (simp_all add: sp_set_def store_set_def sp_remove_def store_remove_def Let_def case_prod_unfold split: option.split)

text \<open>The files of the paths in \<open>P\<close>, whose hashes do not collide, mirror the cache.\<close>

definition mirrors :: "prop_env \<Rightarrow> string set \<Rightarrow> sqlite_props \<Rightarrow> bool" where
  "mirrors J P s \<longleftrightarrow> (\<forall>path \<in> P. map_of (sp_files s) (prop_file J path) = map_option (json_encode J) (map_of (sp_cache s) path))"

lemma mirrors_new: "mirrors J P (sp_new [])"
  by (simp add: mirrors_def sp_new_def)

lemma mirrors_op:
  assumes "inj_on (prop_file J) P" and "op_path a \<in> P" and "mirrors J P s"
  shows "mirrors J P (disk_op J a s)"
proof -
  have neq: "prop_file J q \<noteq> prop_file J (op_path a)" if "q \<in> P" "q \<noteq> op_path a" for q
    using that assms(1,2) by (auto dest: inj_onD)
  show ?thesis
    unfolding mirrors_def
  proof
    fix q
    assume q: "q \<in> P"
    with assms(3) have m: "map_of (sp_files s) (prop_file J q) = map_option (json_encode J) (map_of (sp_cache s) q)"
      by (simp add: mirrors_def)
    show "map_of (sp_files (disk_op J a s)) (prop_file J q) = map_option (json_encode J) (map_of (sp_cache (disk_op J a s)) q)"
      using m neq [OF q]
      by (cases a; cases "q = op_path a") (auto simp: sp_set_def sp_remove_def Let_def omap_simps case_prod_unfold split: option.split)
  qed
qed

lemma mirrors_get:
  assumes "json_ok J" and "path \<in> P" and "mirrors J P s"
  shows "snd (sp_get J path s) = store_get (sp_cache s) path"
  using assms by (auto simp: sp_get_def store_get_def mirrors_def json_ok_def split: option.split)

lemma mirrors_restart:
  assumes "json_ok J" and "path \<in> P" and "mirrors J P s"
  shows "snd (sp_get J path (sp_new (sp_files s))) = store_get (sp_cache s) path"
  using assms by (auto simp: sp_get_def store_get_def mirrors_def json_ok_def sp_new_def split: option.split)

lemma disk_run:
  assumes "inj_on (prop_file J) P" and "op_path ` set ops \<subseteq> P" and "mirrors J P s"
  shows "mirrors J P (fold (disk_op J) ops s) \<and> sp_cache (fold (disk_op J) ops s) = fold mem_op ops (sp_cache s)"
  using assms(2,3)
proof (induction ops arbitrary: s)
  case (Cons a ops)
  from Cons.prems assms(1) have "mirrors J P (disk_op J a s)" by (intro mirrors_op) simp_all
  with Cons.IH [of "disk_op J a s"] Cons.prems show ?case by (simp add: disk_op_cache)
qed simp

section \<open>Properties\<close>

text \<open>
  C21. Refinement and persistence: after any sequence of \<open>set\<close> and \<open>remove\<close> on paths whose file
  names do not collide, starting from an empty directory, the store on disk answers \<open>get\<close> as
  the in-memory store does, and so does a new process reading the same directory.
\<close>

theorem disk_store_refines:
  assumes "json_ok J" and "inj_on (prop_file J) P" and "op_path ` set ops \<subseteq> P" and "path \<in> P"
  shows "snd (sp_get J path (fold (disk_op J) ops (sp_new []))) = store_get (fold mem_op ops store_new) path \<and>
         snd (sp_get J path (sp_new (sp_files (fold (disk_op J) ops (sp_new []))))) = store_get (fold mem_op ops store_new) path"
proof -
  note run = disk_run [OF assms(2,3) mirrors_new, THEN conjunct1] disk_run [OF assms(2,3) mirrors_new, THEN conjunct2]
  from run(2) have "sp_cache (fold (disk_op J) ops (sp_new [])) = fold mem_op ops store_new"
    by (simp add: sp_new_def store_new_def)
  with mirrors_get [OF assms(1,4) run(1)] mirrors_restart [OF assms(1,4) run(1)] show ?thesis by simp
qed

text \<open>
  A new process that sets a property of a path it has not read yet forgets all properties
  stored for that path, and one that removes a property removes nothing.
\<close>

theorem first_set_after_restart_forgets:
  "ps_get (snd (sp_get J path (sp_set J path name val (sp_new files)))) = [name \<mapsto> val] \<and>
   sp_remove J path name (sp_new files) = (sp_new files, None)"
  by (simp add: sp_set_def sp_get_def sp_new_def sp_remove_def Let_def omap_simps)

text \<open>
  A sequence of changes to the in-memory store leaves, for every path and name, the value
  of the last change of that property, or the value before if it was not changed.
\<close>

theorem last_change_wins:
  assumes "store_ok s"
  shows "ps_get (store_get (mem_props.apply_all chs s) path) name =
     (case map_of (rev (map (\<lambda>(p, n, v). ((p, n), v)) chs)) (path, name) of
        Some v \<Rightarrow> v | None \<Rightarrow> ps_get (store_get s path) name)"
  by (rule mem_props.lookup_apply_all [OF assms])

theorem last_change_wins_witness:
  "store_ok store_new \<and>
   ps_get (store_get (mem_props.apply_all [(''a'', ''p'', Some ''1''), (''a'', ''p'', None), (''a'', ''q'', Some ''2'')] store_new) ''a'') ''q'' = Some ''2''"
proof -
  have ok: "store_ok store_new" by (simp add: store_ok_def store_new_def)
  from last_change_wins [OF ok, of "[(''a'', ''p'', Some ''1''), (''a'', ''p'', None), (''a'', ''q'', Some ''2'')]" "''a''" "''q''"] ok
  show ?thesis by simp
qed

text \<open>A codec that satisfies \<open>json_ok\<close>, for the witness.\<close>

definition enc_props :: "property_set \<Rightarrow> bytes" where
  "enc_props = enc_list (enc_pair enc_string enc_string) \<circ> properties"

definition dec_props :: "bytes \<Rightarrow> (property_set \<times> bytes) option" where
  "dec_props = dec_map (\<lambda>m. \<lparr>properties = m\<rparr>) (dec_list (dec_pair dec_string dec_string))"

lemma codec_props: "codec enc_props dec_props"
  unfolding enc_props_def dec_props_def by (intro codec_intros) simp

definition sample_json :: prop_env where
  "sample_json = \<lparr>sha256 = id, hex_encode = map byte_char, hex_decode = (\<lambda>s. Some (map char_byte s)),
     ser_blob = (\<lambda>_. []), de_blob = (\<lambda>_. None), ser_tree = (\<lambda>_. []), de_tree = (\<lambda>_. None),
     ser_commit = (\<lambda>_. []), de_commit = (\<lambda>_. None), ser_delta = (\<lambda>_. []), de_delta = (\<lambda>_. None),
     json_encode = text_enc enc_props, json_decode = text_dec dec_props\<rparr>"

lemma sample_json_ok: "json_ok sample_json" "inj_on (prop_file sample_json) P"
  by (simp_all add: json_ok_def sample_json_def text_dec_enc [OF codec_props] inj_on_def prop_file_def path_hash_def)

theorem disk_store_refines_witness:
  "json_ok sample_json \<and> inj_on (prop_file sample_json) UNIV \<and>
   ps_get (snd (sp_get sample_json ''f'' (sp_new (sp_files
     (fold (disk_op sample_json) [SetProp ''f'' ''n'' ''1'', SetProp ''g'' ''n'' ''2'', SetProp ''f'' ''m'' ''3''] (sp_new [])))))) ''n'' = Some ''1''"
proof -
  let ?ops = "[SetProp ''f'' ''n'' ''1'', SetProp ''g'' ''n'' ''2'', SetProp ''f'' ''m'' ''3'']"
  have "ps_get (store_get (fold mem_op ?ops store_new) ''f'') ''n'' = Some ''1''"
    by (simp add: store_get_ops)
  with disk_store_refines [OF sample_json_ok(1) sample_json_ok(2) [of UNIV], of ?ops "''f''"] sample_json_ok show ?thesis by simp
qed

end
