(* ===== verification/Auth.thy ===== *)
theory Auth
  imports Prelude
begin

text \<open>
  Authentication, \<open>dsvn-core/src/auth.rs\<close>: the htpasswd provider and the two trivial ones. The
  digest (crate \<open>sha1\<close>), \<open>base64\<close> and the optional crate \<open>bcrypt\<close> are parameters; with the
  feature \<open>bcrypt\<close> disabled, \<open>bcrypt_verify\<close> is \<open>None\<close>.
\<close>

datatype auth_error =
    InvalidHtpasswdLine string
  | EmptyUserOrHash string
  | NoValidUsers
  | UserNotFound string
  | BcryptError string
  | BcryptDisabled
  | CryptUnsupported
  | UnsupportedHash string

datatype auth_result =
    Success string
  | Failed
  | AuthError auth_error

record auth_env =
  sha1_base64 :: "string \<Rightarrow> string"
  bcrypt_verify :: "(string \<Rightarrow> string \<Rightarrow> string + bool) option"

record htpasswd =
  users :: "(string, string) omap"

section \<open>Reading the file\<close>

definition parse_user_line :: "string \<Rightarrow> auth_error + (string \<times> string)" where
  "parse_user_line line =
     (case split_once CHR '':'' line of
        None \<Rightarrow> Inl (InvalidHtpasswdLine line)
      | Some (u, h) \<Rightarrow>
          if trim u = [] \<or> trim h = [] then Inl (EmptyUserOrHash line) else Inr (trim u, trim h))"

fun parse_users :: "string list \<Rightarrow> (string, string) omap \<Rightarrow> auth_error + (string, string) omap" where
  "parse_users [] acc = Inr acc"
| "parse_users (raw # rest) acc =
     (let line = trim raw in
      if line = [] \<or> starts_with line ''#'' then parse_users rest acc
      else rbind (parse_user_line line) (\<lambda>(u, h). parse_users rest (oput u h acc)))"

definition htpasswd_parse :: "string \<Rightarrow> auth_error + htpasswd" where
  "htpasswd_parse content =
     rbind (parse_users (str_lines content) []) (\<lambda>us.
       if us = [] then Inl NoValidUsers else Inr \<lparr>users = us\<rparr>)"

section \<open>Checking a password\<close>

definition verify_bcrypt :: "auth_env \<Rightarrow> string \<Rightarrow> string \<Rightarrow> auth_error + bool" where
  "verify_bcrypt A hash password =
     (if \<not> starts_with hash ''$2y$'' \<and> \<not> starts_with hash ''$2b$'' \<and> \<not> starts_with hash ''$2a$'' then Inr False
      else case bcrypt_verify A of
             None \<Rightarrow> Inl BcryptDisabled
           | Some v \<Rightarrow> (case v password hash of Inl e \<Rightarrow> Inl (BcryptError e) | Inr b \<Rightarrow> Inr b))"

definition verify_sha1 :: "auth_env \<Rightarrow> string \<Rightarrow> string \<Rightarrow> auth_error + bool" where
  "verify_sha1 A hash password =
     (if \<not> starts_with hash ''{SHA}'' then Inr False
      else Inr (sha1_base64 A password = drop 5 hash))"

definition verify_crypt :: "string \<Rightarrow> string \<Rightarrow> auth_error + bool" where
  "verify_crypt hash password = Inl CryptUnsupported"

definition verify_password :: "auth_env \<Rightarrow> htpasswd \<Rightarrow> string \<Rightarrow> string \<Rightarrow> auth_error + bool" where
  "verify_password A p username password =
     (case map_of (users p) username of
        None \<Rightarrow> Inl (UserNotFound username)
      | Some hash \<Rightarrow>
          if starts_with hash ''$2'' then verify_bcrypt A hash password
          else if starts_with hash ''{SHA}'' then verify_sha1 A hash password
          else if \<not> starts_with hash ''$'' then verify_crypt hash password
          else Inl (UnsupportedHash username))"

definition authenticate :: "auth_env \<Rightarrow> htpasswd \<Rightarrow> string \<Rightarrow> string \<Rightarrow> auth_result" where
  "authenticate A p username password =
     (if username = [] \<or> password = [] then Failed
      else case verify_password A p username password of
             Inr True \<Rightarrow> Success username
           | Inr False \<Rightarrow> Failed
           | Inl e \<Rightarrow> AuthError e)"

definition noop_authenticate :: "string \<Rightarrow> string \<Rightarrow> auth_result" where
  "noop_authenticate username password = Success username"

definition mock_authenticate :: "string \<Rightarrow> string \<Rightarrow> auth_result" where
  "mock_authenticate username password =
     (if password = ''test123'' \<and> username \<noteq> [] then Success username else Failed)"

section \<open>The interface\<close>

text \<open>A provider that succeeds does so for the name it was asked about.\<close>

locale auth_provider =
  fixes auth :: "string \<Rightarrow> string \<Rightarrow> auth_result"
  assumes names: "auth u p = Success v \<Longrightarrow> v = u"
begin

definition accepted :: "string \<Rightarrow> string \<Rightarrow> bool" where
  "accepted u p \<longleftrightarrow> (\<exists>v. auth u p = Success v)"

lemma accepted_iff: "accepted u p \<longleftrightarrow> auth u p = Success u"
  using names by (auto simp: accepted_def)

end

lemma authenticate_name: "authenticate A p u pw = Success v \<Longrightarrow> v = u"
  by (auto simp: authenticate_def split: if_splits sum.splits bool.splits)

interpretation ht: auth_provider "authenticate A p" for A p
  by unfold_locales (rule authenticate_name)

interpretation noop: auth_provider noop_authenticate
  by unfold_locales (simp add: noop_authenticate_def)

interpretation mock: auth_provider mock_authenticate
  by unfold_locales (simp add: mock_authenticate_def split: if_splits)

section \<open>What is parsed\<close>

definition user_entries :: "string list \<Rightarrow> (string \<times> string) list" where
  "user_entries ls = List.map_filter (\<lambda>l. result_ok (parse_user_line (trim l)))
     (filter (\<lambda>l. trim l \<noteq> [] \<and> \<not> starts_with (trim l) ''#'') ls)"

lemma parse_users_ok:
  "parse_users ls acc = Inr us \<Longrightarrow> us = fold (\<lambda>(u, h) m. oput u h m) (user_entries ls) acc"
  by (induction ls arbitrary: acc)
    (auto simp: user_entries_def Let_def rbind_eq_Inr List.map_filter_simps split: if_splits)

lemma fold_oput_lookup:
  "map_of (fold (\<lambda>(u, h) m. oput u h m) xs acc) k = (case map_of (rev xs) k of None \<Rightarrow> map_of acc k | Some h \<Rightarrow> Some h)"
  by (induction xs arbitrary: acc) (auto simp: omap_simps map_add_def split: option.splits)

lemma parse_user_line_ok: "parse_user_line l = Inr (u, h) \<Longrightarrow> u \<noteq> [] \<and> h \<noteq> []"
  by (auto simp: parse_user_line_def split: option.splits if_splits)

text \<open>
  C22. Only a user listed in the htpasswd file can be authenticated, as exactly that name, and
  only when the password's SHA-1 digest equals the stored one or the bcrypt crate accepts it;
  an empty password never succeeds.
\<close>

theorem authenticate_sound:
  assumes "htpasswd_parse content = Inr p" and "authenticate A p u pw = Success v"
  shows "v = u \<and> u \<noteq> [] \<and> pw \<noteq> [] \<and>
    (\<exists>h. map_of (rev (user_entries (str_lines content))) u = Some h \<and>
      (h = ''{SHA}'' @ sha1_base64 A pw \<or> (\<exists>f. bcrypt_verify A = Some f \<and> f pw h = Inr True)))"
proof -
  obtain us where us: "parse_users (str_lines content) [] = Inr us" and p: "p = \<lparr>users = us\<rparr>"
    using assms(1) by (auto simp: htpasswd_parse_def rbind_eq_Inr split: if_splits)
  have lk: "map_of us u = map_of (rev (user_entries (str_lines content))) u"
    using fold_oput_lookup [of "user_entries (str_lines content)" "[]" u] parse_users_ok [OF us] by (simp split: option.splits)
  have ne: "u \<noteq> []" "pw \<noteq> []" and ok: "verify_password A p u pw = Inr True"
    using assms(2) by (auto simp: authenticate_def split: if_splits sum.splits bool.splits)
  then obtain h where h: "map_of us u = Some h" by (auto simp: verify_password_def p split: option.splits)
  have "h = ''{SHA}'' @ sha1_base64 A pw \<or> (\<exists>f. bcrypt_verify A = Some f \<and> f pw h = Inr True)"
    using ok h
    by (auto simp: verify_password_def p verify_bcrypt_def verify_sha1_def verify_crypt_def starts_with_iff
        split: if_splits option.splits sum.splits)
  with h lk ne authenticate_name [OF assms(2)] show ?thesis by auto
qed

definition sample_auth :: auth_env where
  "sample_auth = \<lparr>sha1_base64 = rev, bcrypt_verify = None\<rparr>"

theorem authenticate_sound_witness:
  "htpasswd_parse ''ann:{SHA}cba'' = Inr \<lparr>users = [(''ann'', ''{SHA}cba'')]\<rparr> \<and>
   authenticate sample_auth \<lparr>users = [(''ann'', ''{SHA}cba'')]\<rparr> ''ann'' ''abc'' = Success ''ann'' \<and>
   ''ann'' \<noteq> []"
proof -
  have p: "htpasswd_parse ''ann:{SHA}cba'' = Inr \<lparr>users = [(''ann'', ''{SHA}cba'')]\<rparr>" by code_simp
  have a: "authenticate sample_auth \<lparr>users = [(''ann'', ''{SHA}cba'')]\<rparr> ''ann'' ''abc'' = Success ''ann''" by code_simp
  from authenticate_sound [OF p a] p a show ?thesis by blast
qed

end
