(* ===== verification/Authz.thy ===== *)
theory Authz
  imports Prelude
begin

text \<open>
  Authorization, \<open>dsvn-core/src/authz.rs\<close>: the parser of SVN-style \<open>authz\<close> files, the choice of
  the rule that decides a request, and the three trivial providers. All of them implement the
  interface \<open>authz_provider\<close>.
\<close>

section \<open>Data\<close>

datatype access_level = NoAccess | Read | Write

datatype authz_result = Granted | Denied

datatype authz_error =
    InvalidGroup string
  | EmptyGroupName
  | NoUsersInGroup string
  | InvalidRule string
  | InvalidAccessLevel string
  | GroupNotFound string

record access_rule =
  ar_path :: string
  ar_user :: "string option"
  ar_group :: "string option"
  ar_level :: access_level

record svn_authz =
  az_rules :: "(string, access_rule list) omap"
  az_groups :: "(string, string list) omap"
  az_default :: access_level

section \<open>Parsing\<close>

definition parse_group :: "string \<Rightarrow> (string, string list) omap \<Rightarrow> authz_error + (string, string list) omap" where
  "parse_group line groups =
     (case split_once CHR ''='' line of
        None \<Rightarrow> Inl (InvalidGroup line)
      | Some (l, r) \<Rightarrow>
          let group_name = trim l;
              us = filter (\<lambda>s. s \<noteq> []) (map trim (split CHR '','' (trim r)))
          in if group_name = [] then Inl EmptyGroupName
             else if us = [] then Inl (NoUsersInGroup group_name)
             else Inr (oput group_name us groups))"

definition parse_level :: "string \<Rightarrow> authz_error + access_level" where
  "parse_level a =
     (if a = ''r'' \<or> a = ''read'' then Inr Read
      else if a = ''rw'' \<or> a = ''read-write'' then Inr Write
      else if a = ''w'' \<or> a = ''write'' then Inr Write
      else if a = [] then Inr NoAccess
      else Inl (InvalidAccessLevel a))"

definition parse_access_rule ::
    "string \<Rightarrow> string \<Rightarrow> (string, access_rule list) omap \<Rightarrow> (string, string list) omap \<Rightarrow>
     authz_error + (string, access_rule list) omap" where
  "parse_access_rule path line rules groups =
     (case split_once CHR ''='' line of
        None \<Rightarrow> Inl (InvalidRule line)
      | Some (l, r) \<Rightarrow>
          let who = trim l;
              access_str = to_lower (trim r);
              (user, grp) = (case strip_prefix who ''@'' of
                               Some g \<Rightarrow> (None, Some g)
                             | None \<Rightarrow> if who = ''*'' then (None, None) else (Some who, None))
          in rbind (parse_level access_str) (\<lambda>level.
               case grp of
                 Some g \<Rightarrow>
                   if ohas groups g
                   then Inr (oput path (unwrap_or [] (map_of rules path) @
                          [\<lparr>ar_path = path, ar_user = user, ar_group = grp, ar_level = level\<rparr>]) rules)
                   else Inl (GroupNotFound g)
               | None \<Rightarrow> Inr (oput path (unwrap_or [] (map_of rules path) @
                          [\<lparr>ar_path = path, ar_user = user, ar_group = grp, ar_level = level\<rparr>]) rules)))"

fun parse_lines ::
    "string list \<Rightarrow> string option \<Rightarrow> (string, access_rule list) omap \<Rightarrow> (string, string list) omap \<Rightarrow>
     authz_error + ((string, access_rule list) omap \<times> (string, string list) omap)" where
  "parse_lines [] sec rules groups = Inr (rules, groups)"
| "parse_lines (raw # rest) sec rules groups =
     (let line = trim raw in
      if line = [] \<or> starts_with line ''#'' then parse_lines rest sec rules groups
      else if starts_with line ''['' \<and> ends_with line '']'' then
        parse_lines rest (Some (butlast (tl line))) rules groups
      else case sec of
             None \<Rightarrow> parse_lines rest sec rules groups
           | Some s \<Rightarrow>
               if s = ''groups'' then
                 rbind (parse_group line groups) (\<lambda>g. parse_lines rest sec rules g)
               else rbind (parse_access_rule s line rules groups) (\<lambda>rs. parse_lines rest sec rs groups))"

definition authz_parse :: "string \<Rightarrow> authz_error + svn_authz" where
  "authz_parse content =
     rbind (parse_lines (str_lines content) None [] []) (\<lambda>(rules, groups).
       Inr \<lparr>az_rules = rules, az_groups = groups, az_default = NoAccess\<rparr>)"

definition with_default_access :: "access_level \<Rightarrow> svn_authz \<Rightarrow> svn_authz" where
  "with_default_access d p = p\<lparr>az_default := d\<rparr>"

section \<open>Choosing a rule\<close>

definition rules_at :: "svn_authz \<Rightarrow> string \<Rightarrow> access_rule list" where
  "rules_at p path = unwrap_or [] (map_of (az_rules p) path)"

text \<open>The parents the loop visits, nearest first; the empty prefix stands for the root.\<close>

function parent_paths :: "string \<Rightarrow> string list" where
  "parent_paths path =
     (case before_last CHR ''/'' path of
        None \<Rightarrow> []
      | Some q \<Rightarrow> (if q = [] then ''/'' else q) # parent_paths q)"
  by pat_completeness auto
termination
  by (relation "measure length") (auto dest: before_last_shorter)

declare parent_paths.simps [simp del]

definition get_applicable_rules :: "svn_authz \<Rightarrow> string \<Rightarrow> access_rule list" where
  "get_applicable_rules p path =
     rules_at p path @ concat (map (rules_at p) (parent_paths path)) @
     (if path \<noteq> [] \<and> path \<noteq> ''/'' then rules_at p ''/'' else [])"

definition specificity :: "string \<Rightarrow> access_rule \<Rightarrow> nat" where
  "specificity path r =
     (if ar_path r = path then 1000
      else if ends_with (ar_path r) ''/*'' \<or> ar_path r = ''/'' then 500 else 0)"

definition matches_user :: "svn_authz \<Rightarrow> string option \<Rightarrow> access_rule \<Rightarrow> bool" where
  "matches_user p username r =
     (case (ar_user r, ar_group r) of
        (Some u, None) \<Rightarrow> username = Some u
      | (None, Some g) \<Rightarrow>
          (case username of
             Some n \<Rightarrow> (case map_of (az_groups p) g of Some us \<Rightarrow> n \<in> set us | None \<Rightarrow> False)
           | None \<Rightarrow> False)
      | (None, None) \<Rightarrow> username = None
      | (Some _, Some _) \<Rightarrow> False)"

text \<open>A stable sort, highest specificity first; the first rule that matches decides.\<close>

definition find_access_level :: "svn_authz \<Rightarrow> string option \<Rightarrow> string \<Rightarrow> access_level" where
  "find_access_level p username path =
     (case List.find (matches_user p username)
             (sort_key (\<lambda>r. 1000 - specificity path r) (get_applicable_rules p path)) of
        Some r \<Rightarrow> ar_level r
      | None \<Rightarrow> az_default p)"

definition check_access :: "svn_authz \<Rightarrow> string option \<Rightarrow> string \<Rightarrow> access_level \<Rightarrow> authz_result" where
  "check_access p username path required =
     (case (find_access_level p username path, required) of
        (Write, _) \<Rightarrow> Granted
      | (Read, Read) \<Rightarrow> Granted
      | (NoAccess, _) \<Rightarrow> Denied
      | _ \<Rightarrow> Denied)"

definition noop_check_access :: "string option \<Rightarrow> string \<Rightarrow> access_level \<Rightarrow> authz_result" where
  "noop_check_access username path required = Granted"

definition deny_all_check_access :: "string option \<Rightarrow> string \<Rightarrow> access_level \<Rightarrow> authz_result" where
  "deny_all_check_access username path required = Denied"

definition mock_check_access :: "string option \<Rightarrow> string \<Rightarrow> access_level \<Rightarrow> authz_result" where
  "mock_check_access username path required =
     (case username of
        Some n \<Rightarrow>
          if n = ''admin'' then Granted
          else if n = ''user'' then (if required = Read then Granted else Denied)
          else Denied
      | None \<Rightarrow> if starts_with path ''/public'' \<and> required = Read then Granted else Denied)"

section \<open>The interface\<close>

text \<open>The default methods of the trait, and the law that write access includes read access.\<close>

locale authz_provider =
  fixes check :: "string option \<Rightarrow> string \<Rightarrow> access_level \<Rightarrow> authz_result"
  assumes write_reads: "check u p Write = Granted \<Longrightarrow> check u p Read = Granted"
begin

definition can_read :: "string option \<Rightarrow> string \<Rightarrow> bool" where
  "can_read u p \<longleftrightarrow> check u p Read = Granted"

definition can_write :: "string option \<Rightarrow> string \<Rightarrow> bool" where
  "can_write u p \<longleftrightarrow> check u p Write = Granted"

lemma can_write_read: "can_write u p \<Longrightarrow> can_read u p"
  by (simp add: can_write_def can_read_def write_reads)

end

interpretation svn: authz_provider "check_access p" for p
  by unfold_locales (simp add: check_access_def split: access_level.splits)

interpretation noop_az: authz_provider noop_check_access
  by unfold_locales (simp add: noop_check_access_def)

interpretation deny_az: authz_provider deny_all_check_access
  by unfold_locales (simp add: deny_all_check_access_def)

interpretation mock_az: authz_provider mock_check_access
  by unfold_locales (simp add: mock_check_access_def split: option.splits if_splits)

section \<open>Which rule decides\<close>

text \<open>Every rule is filed under its own path, and refers to a known group.\<close>

definition authz_ok :: "svn_authz \<Rightarrow> bool" where
  "authz_ok p \<longleftrightarrow> omap_ok (az_rules p) \<and>
     (\<forall>path rs r. map_of (az_rules p) path = Some rs \<longrightarrow> r \<in> set rs \<longrightarrow>
        ar_path r = path \<and> (\<forall>g. ar_group r = Some g \<longrightarrow> ohas (az_groups p) g) \<and>
        \<not> (ar_user r \<noteq> None \<and> ar_group r \<noteq> None))"

lemma rules_at_path: "authz_ok p \<Longrightarrow> r \<in> set (rules_at p path) \<Longrightarrow> ar_path r = path"
  unfolding authz_ok_def rules_at_def by (cases "map_of (az_rules p) path") auto

lemma sort_key_three:
  assumes "\<forall>x \<in> set xs. k x \<in> {0, 500, 1000 :: nat}"
  shows "sort_key k xs = filter (\<lambda>x. k x = 0) xs @ filter (\<lambda>x. k x = 500) xs @ filter (\<lambda>x. k x = 1000) xs"
  using assms
proof (induction xs)
  case (Cons x xs)
  have skip: "insort_key k x (ys @ zs) = ys @ insort_key k x zs" if "\<forall>y \<in> set ys. k y < k x" for ys zs
    using that by (induction ys) auto
  have front: "insort_key k x zs = x # zs" if "\<forall>z \<in> set zs. k x \<le> k z" for zs
    using that by (cases zs) auto
  let ?a = "filter (\<lambda>x. k x = 0) xs" and ?b = "filter (\<lambda>x. k x = 500) xs" and ?c = "filter (\<lambda>x. k x = 1000) xs"
  consider "k x = 0" | "k x = 500" | "k x = 1000" using Cons.prems by auto
  then show ?case
  proof cases
    case 1
    moreover from 1 have "insort_key k x (?a @ ?b @ ?c) = x # ?a @ ?b @ ?c" by (intro front) simp
    ultimately show ?thesis using Cons by simp
  next
    case 2
    moreover from 2 have "insort_key k x (?a @ ?b @ ?c) = ?a @ x # ?b @ ?c"
      using skip [of ?a "?b @ ?c"] front [of "?b @ ?c"] by force
    ultimately show ?thesis using Cons by simp
  next
    case 3
    moreover from 3 have "insort_key k x (?a @ ?b @ ?c) = ?a @ ?b @ x # ?c"
      using skip [of ?a "?b @ ?c"] skip [of ?b ?c] front [of ?c] by force
    ultimately show ?thesis using Cons by simp
  qed
qed simp

lemma find_level_groups:
  "find_access_level p u path =
     (case List.find (matches_user p u)
             (filter (\<lambda>r. specificity path r = 1000) (get_applicable_rules p path) @
              filter (\<lambda>r. specificity path r = 500) (get_applicable_rules p path) @
              filter (\<lambda>r. specificity path r = 0) (get_applicable_rules p path)) of
        Some r \<Rightarrow> ar_level r | None \<Rightarrow> az_default p)"
proof -
  have "\<forall>r \<in> set (get_applicable_rules p path). 1000 - specificity path r \<in> {0, 500, 1000}"
    by (simp add: specificity_def)
  moreover have "1000 - specificity path r = 0 \<longleftrightarrow> specificity path r = 1000"
    "1000 - specificity path r = 500 \<longleftrightarrow> specificity path r = 500"
    "1000 - specificity path r = 1000 \<longleftrightarrow> specificity path r = 0" for r
    by (simp_all add: specificity_def)
  ultimately show ?thesis
    using sort_key_three [of "get_applicable_rules p path" "\<lambda>r. 1000 - specificity path r"]
    by (simp add: find_access_level_def)
qed

lemma parent_paths_prefix:
  "q \<in> set (parent_paths path) \<Longrightarrow> q = ''/'' \<or> (length q < length path \<and> set q \<subseteq> set path)"
proof (induction path rule: parent_paths.induct)
  case (1 path)
  show ?case
  proof (cases "before_last CHR ''/'' path")
    case None
    with 1 show ?thesis by (simp add: parent_paths.simps [of path])
  next
    case (Some d)
    obtain b where path: "path = d @ CHR ''/'' # b" using before_last_SomeD [OF Some] by blast
    from 1(2) Some consider "q = (if d = [] then ''/'' else d)" | "q \<in> set (parent_paths d)"
      by (auto simp: parent_paths.simps [of path])
    then show ?thesis
    proof cases
      case 2
      from 1(1) [OF Some 2] path show ?thesis by auto
    qed (auto simp: path)
  qed
qed

lemma find_append: "List.find P (xs @ ys) = (case List.find P xs of Some x \<Rightarrow> Some x | None \<Rightarrow> List.find P ys)"
  by (induction xs) auto

lemma find_cong_append: "List.find P ys = List.find P zs \<Longrightarrow> List.find P (xs @ ys @ ws) = List.find P (xs @ zs @ ws)"
  by (simp only: find_append [of P xs] find_append [of P _ ws])

lemma find_repeat:
  assumes "\<forall>q \<in> set qs. q = r"
  shows "List.find P (concat (map f qs) @ f r) = List.find P (f r)"
  using assms by (induction qs) (auto simp: find_append split: option.split)

lemma filter_concat_rules:
  assumes "authz_ok p" and "\<And>q r. q \<in> set qs \<Longrightarrow> ar_path r = q \<Longrightarrow> Q r = R q"
  shows "filter Q (concat (map (rules_at p) qs)) = concat (map (rules_at p) (filter R qs))"
  using assms(2)
proof (induction qs)
  case (Cons q qs)
  have "filter Q (rules_at p q) = (if R q then rules_at p q else [])"
    using Cons.prems [of q] rules_at_path [OF assms(1), of _ q] by (auto simp: filter_id_conv filter_empty_conv)
  with Cons show ?case by simp
qed simp

text \<open>
  The order in which rules are tried: the path itself, then the root, then the other parents,
  nearest first.
\<close>

lemma find_level_order:
  assumes "authz_ok p" and "path \<noteq> ''/''" and "path \<noteq> []" and "CHR ''*'' \<notin> set path"
  shows "find_access_level p u path =
     (case List.find (matches_user p u)
             (rules_at p path @ rules_at p ''/'' @
              concat (map (rules_at p) (filter (\<lambda>q. q \<noteq> ''/'') (parent_paths path)))) of
        Some r \<Rightarrow> ar_level r | None \<Rightarrow> az_default p)"
proof -
  let ?ps = "parent_paths path"
  have star: "\<not> ends_with q ''/*''" if "q \<in> insert ''/'' (set ?ps)" for q
  proof
    assume "ends_with q ''/*''"
    then have "CHR ''*'' \<in> set q" by (auto simp: ends_with_iff)
    with that parent_paths_prefix [of q path] assms(4) show False by auto
  qed
  have ne: "q \<noteq> path" if "q \<in> insert ''/'' (set ?ps)" for q
    using that parent_paths_prefix [of q path] assms(2) by auto
  have par: "specificity path r = (if q = ''/'' then 500 else 0)" if "q \<in> insert ''/'' (set ?ps)" "ar_path r = q" for q r
    using star [OF that(1)] ne [OF that(1)] that(2) by (simp add: specificity_def)
  have self: "filter Q (rules_at p path) = (if Q' then rules_at p path else [])"
    if "\<And>r. ar_path r = path \<Longrightarrow> Q r = Q'" for Q Q'
    using that rules_at_path [OF assms(1), of _ path] by (auto simp: filter_id_conv filter_empty_conv)
  have root: "filter Q (rules_at p ''/'') = (if Q' then rules_at p ''/'' else [])"
    if "\<And>r. ar_path r = ''/'' \<Longrightarrow> Q r = Q'" for Q Q'
    using that rules_at_path [OF assms(1), of _ "''/''"] by (auto simp: filter_id_conv filter_empty_conv)
  have g1: "filter (\<lambda>r. specificity path r = 1000) (get_applicable_rules p path) = rules_at p path"
    using self [of "\<lambda>r. specificity path r = 1000" True] root [of "\<lambda>r. specificity path r = 1000" False]
      filter_concat_rules [OF assms(1), of ?ps "\<lambda>r. specificity path r = 1000" "\<lambda>q. False"] par
    by (simp add: get_applicable_rules_def specificity_def)
  have g2: "filter (\<lambda>r. specificity path r = 500) (get_applicable_rules p path) =
      concat (map (rules_at p) (filter (\<lambda>q. q = ''/'') ?ps)) @ rules_at p ''/''"
    using self [of "\<lambda>r. specificity path r = 500" False] root [of "\<lambda>r. specificity path r = 500" True]
      filter_concat_rules [OF assms(1), of ?ps "\<lambda>r. specificity path r = 500" "\<lambda>q. q = ''/''"] par assms(2,3)
    by (simp add: get_applicable_rules_def specificity_def [of path])
  have g3: "filter (\<lambda>r. specificity path r = 0) (get_applicable_rules p path) =
      concat (map (rules_at p) (filter (\<lambda>q. q \<noteq> ''/'') ?ps))"
    using self [of "\<lambda>r. specificity path r = 0" False] root [of "\<lambda>r. specificity path r = 0" False]
      filter_concat_rules [OF assms(1), of ?ps "\<lambda>r. specificity path r = 0" "\<lambda>q. q \<noteq> ''/''"] par
    by (simp add: get_applicable_rules_def specificity_def [of path])
  have "List.find (matches_user p u) (concat (map (rules_at p) (filter (\<lambda>q. q = ''/'') ?ps)) @ rules_at p ''/'') =
      List.find (matches_user p u) (rules_at p ''/'')"
    by (rule find_repeat) simp
  from find_cong_append [OF this] show ?thesis
    unfolding find_level_groups g1 g2 g3 by metis
qed

lemma find_Some_iff_first:
  "List.find P xs = Some x \<Longrightarrow> x \<in> set xs \<and> P x"
  by (auto simp: find_Some_iff in_set_conv_nth)

section \<open>Parsed files are well-formed\<close>

lemma authz_ok_add_rule:
  assumes "authz_ok \<lparr>az_rules = rs, az_groups = gs, az_default = d\<rparr>" and "ar_path r = path"
    and "\<forall>g. ar_group r = Some g \<longrightarrow> ohas gs g" and "\<not> (ar_user r \<noteq> None \<and> ar_group r \<noteq> None)"
  shows "authz_ok \<lparr>az_rules = oput path (unwrap_or [] (map_of rs path) @ [r]) rs, az_groups = gs, az_default = d\<rparr>"
proof -
  have old: "ar_path x = q \<and> (\<forall>g. ar_group x = Some g \<longrightarrow> ohas gs g) \<and> \<not> (ar_user x \<noteq> None \<and> ar_group x \<noteq> None)"
    if "map_of rs q = Some xs" "x \<in> set xs" for q xs x
    using assms(1) that unfolding authz_ok_def by simp
  have "ar_path x = q \<and> (\<forall>g. ar_group x = Some g \<longrightarrow> ohas gs g) \<and> \<not> (ar_user x \<noteq> None \<and> ar_group x \<noteq> None)"
    if "map_of (oput path (unwrap_or [] (map_of rs path) @ [r]) rs) q = Some xs" "x \<in> set xs" for q xs x
    using that old [of q _ x] assms(2-4) by (cases "q = path"; cases "map_of rs path") (auto simp: omap_simps)
  moreover have "omap_ok rs" using assms(1) by (simp add: authz_ok_def)
  ultimately show ?thesis unfolding authz_ok_def by simp
qed

lemma authz_ok_add_group:
  assumes "authz_ok \<lparr>az_rules = rs, az_groups = gs, az_default = d\<rparr>"
  shows "authz_ok \<lparr>az_rules = rs, az_groups = oput g us gs, az_default = d\<rparr>"
  using assms unfolding authz_ok_def by (simp add: ohas_iff omap_simps)

lemma parse_group_ok:
  assumes "parse_group line gs = Inr gs'" and "authz_ok \<lparr>az_rules = rs, az_groups = gs, az_default = d\<rparr>"
  shows "authz_ok \<lparr>az_rules = rs, az_groups = gs', az_default = d\<rparr>"
  using assms(1) authz_ok_add_group [OF assms(2)]
  by (auto simp: parse_group_def Let_def split: option.splits if_splits)

lemma parse_access_rule_ok:
  assumes "parse_access_rule path line rs gs = Inr rs'" and "authz_ok \<lparr>az_rules = rs, az_groups = gs, az_default = d\<rparr>"
  shows "authz_ok \<lparr>az_rules = rs', az_groups = gs, az_default = d\<rparr>"
  using assms(1)
  by (auto simp: parse_access_rule_def Let_def rbind_eq_Inr split: option.splits if_splits prod.splits
      intro!: authz_ok_add_rule [OF assms(2)])

lemma parse_lines_ok:
  assumes "parse_lines ls sec rs gs = Inr (rs', gs')" and "authz_ok \<lparr>az_rules = rs, az_groups = gs, az_default = d\<rparr>"
  shows "authz_ok \<lparr>az_rules = rs', az_groups = gs', az_default = d\<rparr>"
  using assms
proof (induction ls arbitrary: sec rs gs)
  case (Cons l ls)
  from Cons.prems(1) show ?case
    by (auto simp: Let_def rbind_eq_Inr split: if_splits option.splits
        intro: Cons.IH Cons.prems(2) parse_group_ok parse_access_rule_ok)
qed simp

lemma authz_parse_ok: "authz_parse content = Inr p \<Longrightarrow> authz_ok p"
  using parse_lines_ok [of "str_lines content" None "[]" "[]" _ _ NoAccess]
  by (auto simp: authz_parse_def rbind_eq_Inr) (simp add: authz_ok_def)

section \<open>Properties\<close>

lemma find_access_levelD:
  "find_access_level p u path = l \<Longrightarrow> l \<noteq> az_default p \<Longrightarrow>
     \<exists>r \<in> set (get_applicable_rules p path). matches_user p u r \<and> ar_level r = l"
  unfolding find_access_level_def
  by (auto split: option.splits dest!: find_Some_iff_first)

lemma parsed_default: "authz_parse content = Inr p \<Longrightarrow> az_default p = NoAccess"
  by (auto simp: authz_parse_def rbind_eq_Inr)

text \<open>
  C23. The rule that decides a request on a path other than the root is the first one that
  matches the user among the rules of the path itself, then those of the root, then those of
  the other parents, nearest first. Hence a rule of the root outranks every nearer parent.
\<close>

theorem authz_decision_order:
  assumes "authz_parse content = Inr p" and "path \<noteq> ''/''" and "path \<noteq> []" and "CHR ''*'' \<notin> set path"
  shows "find_access_level p u path =
     (case List.find (matches_user p u)
             (rules_at p path @ rules_at p ''/'' @
              concat (map (rules_at p) (filter (\<lambda>q. q \<noteq> ''/'') (parent_paths path)))) of
        Some r \<Rightarrow> ar_level r | None \<Rightarrow> NoAccess)"
  using find_level_order [OF authz_parse_ok [OF assms(1)] assms(2-4), of u]
  unfolding parsed_default [OF assms(1)] .

definition sample_authz :: svn_authz where
  "sample_authz = \<lparr>az_rules = [(''/'', [\<lparr>ar_path = ''/'', ar_user = Some ''bob'', ar_group = None, ar_level = Write\<rparr>]),
     (''/a'', [\<lparr>ar_path = ''/a'', ar_user = Some ''bob'', ar_group = None, ar_level = NoAccess\<rparr>])],
     az_groups = [], az_default = NoAccess\<rparr>"

definition sample_authz_file :: string where
  "sample_authz_file = ''[/]'' @ [CHR 0x0A] @ ''bob = rw'' @ [CHR 0x0A] @ ''[/a]'' @ [CHR 0x0A] @ ''bob =''"

lemma sample_authz_parse: "authz_parse sample_authz_file = Inr sample_authz"
  by code_simp

theorem authz_decision_order_witness:
  "authz_parse sample_authz_file = Inr sample_authz \<and> find_access_level sample_authz (Some ''bob'') ''/a/x'' = Write"
proof -
  have "List.find (matches_user sample_authz (Some ''bob'')) (rules_at sample_authz ''/a/x'' @ rules_at sample_authz ''/'' @ rest) =
      Some \<lparr>ar_path = ''/'', ar_user = Some ''bob'', ar_group = None, ar_level = Write\<rparr>" for rest
    by (simp add: rules_at_def sample_authz_def matches_user_def)
  with authz_decision_order [OF sample_authz_parse, of "''/a/x''" "Some ''bob''"] sample_authz_parse show ?thesis by simp
qed



text \<open>
  A rule for \<open>*\<close> decides requests of anonymous users only: an authenticated user to whose
  path only such rules apply is denied reading and writing.
\<close>

theorem star_rules_only_anonymous:
  assumes "authz_parse content = Inr p"
    and "\<forall>r \<in> set (get_applicable_rules p path). ar_user r = None \<and> ar_group r = None"
  shows "check_access p (Some n) path Read = Denied \<and> check_access p (Some n) path Write = Denied"
proof -
  have "List.find (matches_user p (Some n)) (sort_key (\<lambda>r. 1000 - specificity path r) (get_applicable_rules p path)) = None"
    using assms(2) by (auto simp: find_None_iff matches_user_def)
  then show ?thesis using parsed_default [OF assms(1)] by (simp add: check_access_def find_access_level_def)
qed

theorem star_rules_only_anonymous_witness:
  "\<exists>p. authz_parse (''[/]'' @ [CHR 0x0A] @ ''* = rw'') = Inr p \<and> check_access p (Some ''ann'') ''/x'' Read = Denied"
proof -
  let ?p = "\<lparr>az_rules = [(''/'', [\<lparr>ar_path = ''/'', ar_user = None, ar_group = None, ar_level = Write\<rparr>])],
     az_groups = [], az_default = NoAccess\<rparr>"
  have p: "authz_parse (''[/]'' @ [CHR 0x0A] @ ''* = rw'') = Inr ?p" by code_simp
  have "\<forall>r \<in> set (get_applicable_rules ?p ''/x''). ar_user r = None \<and> ar_group r = None" by code_simp
  from star_rules_only_anonymous [OF p this, of "''ann''"] p show ?thesis by blast
qed

end
