(* ===== verification/Packfile.thy ===== *)
theory Packfile
  imports Object_Model "HOL-Library.Multiset"
begin

text \<open>
  Packfiles, \<open>dsvn-core/src/packfile.rs\<close>: the writer lays out a header and one record per
  object, the reader scans the records into an index and fetches objects by offset. The
  compressor (crate \<open>zstd\<close>) is a parameter. A slice out of range panics in the source and is
  the error \<open>SliceOutOfRange\<close> here. The writer walks a hash map, so its records come in an
  unspecified order: the file is written from any enumeration of the map.
\<close>

section \<open>Data\<close>

definition PACK_VERSION :: nat where
  "PACK_VERSION = 2"

record pack_entry =
  pe_object_id :: object_id
  pe_offset :: nat
  pe_size :: nat

record pack_writer =
  pw_objects :: "(object_id, bytes) omap"

record pack_reader =
  pr_entries :: "pack_entry list"
  pr_data :: bytes

datatype pack_error =
    UnknownPackVersion nat
  | SliceOutOfRange
  | DecompressError

record zstd =
  zstd_encode :: "bytes \<Rightarrow> bytes"
  zstd_decode :: "bytes \<Rightarrow> bytes option"

definition zstd_ok :: "zstd \<Rightarrow> bool" where
  "zstd_ok Z \<longleftrightarrow> (\<forall>d. zstd_decode Z (zstd_encode Z d) = Some d)"

section \<open>Writing\<close>

definition pack_create :: pack_writer where
  "pack_create = \<lparr>pw_objects = []\<rparr>"

definition pack_add_object :: "object_id \<Rightarrow> bytes \<Rightarrow> pack_writer \<Rightarrow> pack_writer" where
  "pack_add_object i d w = w\<lparr>pw_objects := oput i d (pw_objects w)\<rparr>"

definition pack_record :: "zstd \<Rightarrow> object_id \<times> bytes \<Rightarrow> bytes" where
  "pack_record Z obj = (case obj of (i, d) \<Rightarrow>
     let z = zstd_encode Z d in
     [1] @ le_bytes 4 (as_u32 (length d)) @ as_bytes i @ le_bytes 4 (as_u32 (length z)) @ z)"

fun pack_body :: "zstd \<Rightarrow> (object_id \<times> bytes) list \<Rightarrow> nat \<Rightarrow> bytes \<times> pack_entry list" where
  "pack_body Z [] off = ([], [])"
| "pack_body Z (obj # objs) off =
     (let rec = pack_record Z obj;
          (bs, es) = pack_body Z objs (off + length rec)
      in (rec @ bs, \<lparr>pe_object_id = fst obj, pe_offset = off, pe_size = length (snd obj)\<rparr> # es))"

definition pack_write :: "zstd \<Rightarrow> (object_id \<times> bytes) list \<Rightarrow> bytes \<times> pack_entry list" where
  "pack_write Z objs =
     (case pack_body Z objs 8 of (bs, es) \<Rightarrow>
        (le_bytes 4 PACK_VERSION @ le_bytes 4 (as_u32 (length objs)) @ bs, es))"

section \<open>Reading\<close>

definition slice :: "bytes \<Rightarrow> nat \<Rightarrow> nat \<Rightarrow> pack_error + bytes" where
  "slice data pos n = (if pos + n \<le> length data then Inr (take n (drop pos data)) else Inl SliceOutOfRange)"

definition read_u32 :: "bytes \<Rightarrow> nat \<Rightarrow> pack_error + nat" where
  "read_u32 data pos = rbind (slice data pos 4) (\<lambda>bs. Inr (le_nat bs))"

fun pack_scan :: "bytes \<Rightarrow> nat \<Rightarrow> nat \<Rightarrow> pack_error + pack_entry list" where
  "pack_scan data 0 pos = Inr []"
| "pack_scan data (Suc n) pos =
     rbind (read_u32 data (pos + 1)) (\<lambda>obj_size.
     rbind (slice data (pos + 5) 32) (\<lambda>i.
     rbind (read_u32 data (pos + 37)) (\<lambda>csize.
     rbind (pack_scan data n (pos + 41 + csize)) (\<lambda>es.
       Inr (\<lparr>pe_object_id = ObjectId i, pe_offset = pos, pe_size = obj_size\<rparr> # es)))))"

definition pack_open :: "bytes \<Rightarrow> pack_error + pack_reader" where
  "pack_open data =
     rbind (read_u32 data 0) (\<lambda>version.
       if version \<noteq> PACK_VERSION then Inl (UnknownPackVersion version)
       else rbind (read_u32 data 4) (\<lambda>object_count.
              rbind (pack_scan data object_count 8) (\<lambda>es. Inr \<lparr>pr_entries = es, pr_data = data\<rparr>)))"

definition pack_get_object :: "zstd \<Rightarrow> pack_reader \<Rightarrow> object_id \<Rightarrow> pack_error + bytes option" where
  "pack_get_object Z r i =
     (case List.find (\<lambda>e. pe_object_id e = i) (pr_entries r) of
        None \<Rightarrow> Inr None
      | Some e \<Rightarrow>
          let pos = pe_offset e + 37 in
          rbind (read_u32 (pr_data r) pos) (\<lambda>csize.
          rbind (slice (pr_data r) (pos + 4) csize) (\<lambda>z.
            case zstd_decode Z z of None \<Rightarrow> Inl DecompressError | Some d \<Rightarrow> Inr (Some d))))"

definition pack_object_ids :: "pack_reader \<Rightarrow> object_id list" where
  "pack_object_ids r = map pe_object_id (pr_entries r)"

section \<open>The layout\<close>

definition packable :: "zstd \<Rightarrow> object_id \<times> bytes \<Rightarrow> bool" where
  "packable Z obj \<longleftrightarrow> oid_ok (fst obj) \<and> length (snd obj) < 2 ^ 32 \<and> length (zstd_encode Z (snd obj)) < 2 ^ 32"

lemma slice_append: "slice (pre @ xs) (length pre + k) n = slice xs k n"
  by (simp add: slice_def)

lemma slice_here: "length xs = n \<Longrightarrow> slice (xs @ ys) 0 n = Inr xs"
  by (simp add: slice_def)

lemma slice_skip: "length xs = k \<Longrightarrow> slice (xs @ ys) (k + j) n = slice ys j n"
  by (auto simp: slice_def)

lemma le_nat_u32: "x < 2 ^ 32 \<Longrightarrow> le_nat (le_bytes 4 (as_u32 x)) = x"
  by (simp add: as_u32_id le_nat_le_bytes_id)

lemma record_fields:
  assumes "packable Z (i, d)" and "data = pre @ pack_record Z (i, d) @ post"
  shows "read_u32 data (length pre + 1) = Inr (length d)"
    and "slice data (length pre + 5) 32 = Inr (as_bytes i)"
    and "read_u32 data (length pre + 37) = Inr (length (zstd_encode Z d))"
    and "slice data (length pre + 41) (length (zstd_encode Z d)) = Inr (zstd_encode Z d)"
    and "length (pack_record Z (i, d)) = 41 + length (zstd_encode Z d)"
proof -
  let ?z = "zstd_encode Z d"
  let ?s = "le_bytes 4 (as_u32 (length d))" and ?c = "le_bytes 4 (as_u32 (length ?z))"
  have i: "length (as_bytes i) = 32" and u: "le_nat ?s = length d" "le_nat ?c = length ?z"
    using assms(1) by (simp_all add: packable_def oid_ok_def le_nat_u32)
  have d: "data = pre @ ([1] @ ?s @ as_bytes i @ ?c @ ?z @ post)"
    by (simp add: assms(2) pack_record_def Let_def)
  note sl = slice_append [of pre "[1] @ ?s @ as_bytes i @ ?c @ ?z @ post", folded d]
  have s1: "slice ([1] @ ?s @ as_bytes i @ ?c @ ?z @ post) 1 4 = Inr ?s"
    using slice_skip [of "[1 :: byte]" 1 "?s @ as_bytes i @ ?c @ ?z @ post" 0 4] by (simp add: slice_here)
  have s5: "slice ([1] @ ?s @ as_bytes i @ ?c @ ?z @ post) 5 32 = Inr (as_bytes i)"
    using slice_skip [of "[1] @ ?s" 5 "as_bytes i @ ?c @ ?z @ post" 0 32] by (simp add: slice_here i)
  have s37: "slice ([1] @ ?s @ as_bytes i @ ?c @ ?z @ post) 37 4 = Inr ?c"
    using slice_skip [of "[1] @ ?s @ as_bytes i" 37 "?c @ ?z @ post" 0 4] by (simp add: slice_here i)
  have s41: "slice ([1] @ ?s @ as_bytes i @ ?c @ ?z @ post) 41 (length ?z) = Inr ?z"
    using slice_skip [of "[1] @ ?s @ as_bytes i @ ?c" 41 "?z @ post" 0 "length ?z"] by (simp add: slice_here i)
  show "read_u32 data (length pre + 1) = Inr (length d)"
    "read_u32 data (length pre + 37) = Inr (length ?z)"
    by (simp_all only: read_u32_def sl s1 s37 rbind_simps u)
  show "slice data (length pre + 5) 32 = Inr (as_bytes i)"
    "slice data (length pre + 41) (length ?z) = Inr ?z"
    by (simp_all only: sl s5 s41)
  show "length (pack_record Z (i, d)) = 41 + length ?z"
    by (simp add: pack_record_def Let_def i)
qed

lemma pack_body_Cons:
  "pack_body Z ((i, d) # objs) off =
     (pack_record Z (i, d) @ fst (pack_body Z objs (off + length (pack_record Z (i, d)))),
      \<lparr>pe_object_id = i, pe_offset = off, pe_size = length d\<rparr> # snd (pack_body Z objs (off + length (pack_record Z (i, d)))))"
  by (simp add: Let_def case_prod_unfold)

lemma pack_scan_body:
  assumes "\<forall>obj \<in> set objs. packable Z obj" and "data = pre @ fst (pack_body Z objs (length pre))"
  shows "pack_scan data (length objs) (length pre) = Inr (snd (pack_body Z objs (length pre)))"
  using assms
proof (induction objs arbitrary: pre)
  case (Cons obj objs)
  obtain i d where obj: "obj = (i, d)" by (cases obj)
  let ?rec = "pack_record Z (i, d)"
  have pk: "packable Z (i, d)" using Cons.prems(1) obj by simp
  have d1: "data = pre @ ?rec @ fst (pack_body Z objs (length pre + length ?rec))"
    using Cons.prems(2) by (simp only: obj pack_body_Cons fst_conv)
  note f = record_fields [OF pk d1]
  have d2: "data = (pre @ ?rec) @ fst (pack_body Z objs (length (pre @ ?rec)))" using d1 by simp
  have IH: "pack_scan data (length objs) (length (pre @ ?rec)) = Inr (snd (pack_body Z objs (length (pre @ ?rec))))"
    by (rule Cons.IH) (use Cons.prems(1) d2 in simp_all)
  have pos: "length pre + 41 + length (zstd_encode Z d) = length (pre @ ?rec)" by (simp add: f(5))
  show ?case
    unfolding obj pack_body_Cons list.size add_Suc_right add_0_right pack_scan.simps f(1-3) rbind_simps pos IH
    by simp
qed simp

lemma pack_find_body:
  assumes "\<forall>obj \<in> set objs. packable Z obj" and "data = pre @ fst (pack_body Z objs (length pre))"
  shows "case List.find (\<lambda>e. pe_object_id e = j) (snd (pack_body Z objs (length pre))) of
           None \<Rightarrow> map_of objs j = None
         | Some e \<Rightarrow> \<exists>d. map_of objs j = Some d \<and>
             read_u32 data (pe_offset e + 37) = Inr (length (zstd_encode Z d)) \<and>
             slice data (pe_offset e + 41) (length (zstd_encode Z d)) = Inr (zstd_encode Z d)"
  using assms
proof (induction objs arbitrary: pre)
  case (Cons obj objs)
  obtain i d where obj: "obj = (i, d)" by (cases obj)
  let ?rec = "pack_record Z (i, d)"
  have pk: "packable Z (i, d)" using Cons.prems(1) obj by simp
  have d1: "data = pre @ ?rec @ fst (pack_body Z objs (length pre + length ?rec))"
    using Cons.prems(2) by (simp only: obj pack_body_Cons fst_conv)
  note f = record_fields [OF pk d1]
  show ?case
  proof (cases "i = j")
    case True
    with f show ?thesis by (simp add: obj pack_body_Cons del: pack_body.simps)
  next
    case False
    have "data = (pre @ ?rec) @ fst (pack_body Z objs (length (pre @ ?rec)))" using d1 by simp
    from Cons.IH [OF _ this] Cons.prems(1) False show ?thesis
      by (auto simp: obj pack_body_Cons simp del: pack_body.simps split: option.splits)
  qed
qed simp

lemma pack_body_ids: "map pe_object_id (snd (pack_body Z objs off)) = map fst objs"
  by (induction objs arbitrary: off) (simp_all add: Let_def case_prod_unfold)

text \<open>The header is eight bytes long, which is where the records start.\<close>

definition pack_header :: "nat \<Rightarrow> bytes" where
  "pack_header n = le_bytes 4 PACK_VERSION @ le_bytes 4 (as_u32 n)"

lemma pack_write_eq:
  "pack_write Z objs =
     (pack_header (length objs) @ fst (pack_body Z objs (length (pack_header (length objs)))),
      snd (pack_body Z objs (length (pack_header (length objs)))))"
  by (simp add: pack_write_def pack_header_def case_prod_unfold)

lemma read_header:
  assumes "n < 2 ^ 32"
  shows "read_u32 (pack_header n @ body) 0 = Inr PACK_VERSION" and "read_u32 (pack_header n @ body) 4 = Inr n"
proof -
  have "le_nat (le_bytes 4 PACK_VERSION) = PACK_VERSION" by (rule le_nat_le_bytes_id) (simp add: PACK_VERSION_def)
  then show "read_u32 (pack_header n @ body) 0 = Inr PACK_VERSION"
    by (simp add: read_u32_def pack_header_def slice_here)
  show "read_u32 (pack_header n @ body) 4 = Inr n"
    using slice_skip [of "le_bytes 4 PACK_VERSION" 4 "le_bytes 4 (as_u32 n) @ body" 0 4] le_nat_u32 [OF assms]
    by (simp add: read_u32_def pack_header_def slice_here)
qed

text \<open>
  C25. Round trip of packfiles: opening what the writer wrote, in whatever order it walks its
  objects, succeeds with the writer's index; every object reads back byte for byte, every other
  identifier is reported absent, and the listed identifiers are those written.
\<close>

theorem packfile_roundtrip:
  assumes "zstd_ok Z" and "mset objs = mset (pw_objects w)" and "omap_ok (pw_objects w)"
    and "\<forall>obj \<in> set (pw_objects w). packable Z obj" and "length (pw_objects w) < 2 ^ 32"
  shows "\<exists>r. pack_open (fst (pack_write Z objs)) = Inr r \<and> pr_entries r = snd (pack_write Z objs) \<and>
           pack_object_ids r = map fst objs \<and>
           (\<forall>i. pack_get_object Z r i = Inr (map_of (pw_objects w) i))"
proof -
  let ?h = "pack_header (length objs)"
  let ?data = "?h @ fst (pack_body Z objs (length ?h))"
  have set: "set objs = set (pw_objects w)" and len: "length objs = length (pw_objects w)"
    using assms(2) mset_eq_setD mset_eq_length by blast+
  have dist: "distinct (map fst objs)"
    using omap_ok_distinct [OF assms(3)] mset_eq_imp_distinct_iff [of "map fst objs" "map fst (pw_objects w)"] assms(2)
    by (metis mset_map)
  have pk: "\<forall>obj \<in> set objs. packable Z obj" and n: "length objs < 2 ^ 32" using assms(4,5) set len by simp_all
  have h8: "length ?h = 8" by (simp add: pack_header_def)
  let ?r = "\<lparr>pr_entries = snd (pack_body Z objs (length ?h)), pr_data = ?data\<rparr>"
  have "pack_open ?data = Inr ?r"
    using pack_scan_body [OF pk refl, where pre = ?h] read_header [OF n] h8 by (simp add: pack_open_def)
  moreover have "pack_get_object Z ?r i = Inr (map_of (pw_objects w) i)" for i
  proof -
    have same: "map_of objs i = map_of (pw_objects w) i"
      using map_of_inject_set [OF dist omap_ok_distinct [OF assms(3)]] set by simp
    show ?thesis
      using pack_find_body [OF pk refl, where pre = ?h and j = i] assms(1) same
      by (auto simp: pack_get_object_def Let_def zstd_ok_def add.commute [of 41] split: option.splits)
  qed
  moreover have "pack_object_ids ?r = map fst objs" by (simp add: pack_object_ids_def pack_body_ids)
  ultimately show ?thesis
    by (intro exI [of _ ?r]) (simp add: pack_write_eq)
qed

definition sample_zstd :: zstd where
  "sample_zstd = \<lparr>zstd_encode = rev, zstd_decode = (\<lambda>z. Some (rev z))\<rparr>"

definition sample_pack :: pack_writer where
  "sample_pack = pack_add_object (ObjectId (replicate 32 2)) [7, 8] (pack_add_object (ObjectId (replicate 32 1)) [9] pack_create)"

theorem packfile_roundtrip_witness:
  "zstd_ok sample_zstd \<and>
   (\<exists>r. pack_open (fst (pack_write sample_zstd (rev (pw_objects sample_pack)))) = Inr r \<and>
     pack_get_object sample_zstd r (ObjectId (replicate 32 2)) = Inr (Some [7, 8]))"
proof -
  have z: "zstd_ok sample_zstd" by (simp add: zstd_ok_def sample_zstd_def)
  have ok: "omap_ok (pw_objects sample_pack)" by (simp add: sample_pack_def pack_add_object_def pack_create_def del: oput.simps)
  have objs: "set (pw_objects sample_pack) = {(ObjectId (replicate 32 1), [9]), (ObjectId (replicate 32 2), [7, 8])}"
    "length (pw_objects sample_pack) = 2"
    by (auto simp: sample_pack_def pack_add_object_def pack_create_def less_object_id_def)
  have pk: "\<forall>obj \<in> set (pw_objects sample_pack). packable sample_zstd obj"
    by (simp add: objs packable_def oid_ok_def sample_zstd_def)
  have "map_of (pw_objects sample_pack) (ObjectId (replicate 32 2)) = Some [7, 8]"
    by (simp add: sample_pack_def pack_add_object_def omap_simps)
  with packfile_roundtrip [OF z _ ok pk, of "rev (pw_objects sample_pack)"] objs(2) z show ?thesis by auto
qed

end
