(* ===== verification/Sync_State.thy ===== *)
theory Sync_State
  imports Codecs "HOL-Library.Multiset"
begin

text \<open>
  Synchronisation metadata, \<open>dsvn-core/src/sync.rs\<close>: the sync state of a destination repository
  with its in-progress flag and checkpoint, the sync configuration, and the replication log of
  one file per completed transfer. The JSON codec is a parameter. Saving writes a temporary
  file and renames it, which is one step here.
\<close>

section \<open>Data\<close>

record sync_config =
  sc_enabled :: bool
  sc_max_cache_age_hours :: nat
  sc_require_auth :: bool
  sc_allowed_sources :: "string list"
  sc_allow_empty :: bool

record sync_state =
  source_uuid :: string
  source_url :: string
  last_synced_rev :: nat
  source_head_rev :: nat
  last_sync_timestamp :: int
  total_synced_revisions :: nat
  sync_in_progress :: bool
  protocol_version :: nat
  checkpoint_rev :: "nat option"

record log_entry =
  from_rev :: nat
  to_rev :: nat
  le_timestamp :: int
  objects_transferred :: nat
  bytes_transferred :: nat
  duration_ms :: nat
  le_success :: bool
  le_error :: "string option"

record sync_json =
  enc_state :: "sync_state \<Rightarrow> string"
  dec_state :: "string \<Rightarrow> sync_state option"
  enc_config :: "sync_config \<Rightarrow> string"
  dec_config :: "string \<Rightarrow> sync_config option"
  enc_entry :: "log_entry \<Rightarrow> string"
  dec_entry :: "string \<Rightarrow> log_entry option"

definition sync_json_ok :: "sync_json \<Rightarrow> bool" where
  "sync_json_ok J \<longleftrightarrow> (\<forall>s. dec_state J (enc_state J s) = Some s) \<and> (\<forall>c. dec_config J (enc_config J c) = Some c) \<and>
     (\<forall>e. dec_entry J (enc_entry J e) = Some e)"

text \<open>The files of one repository directory this module uses; \<open>None\<close> for a log directory that does not exist.\<close>

record sync_dir =
  sd_state :: "string option"
  sd_config :: "string option"
  sd_log :: "(string, string) omap option"

datatype sync_error = BadJson | UuidMismatch string string

section \<open>Configuration\<close>

definition config_default :: sync_config where
  "config_default = \<lparr>sc_enabled = True, sc_max_cache_age_hours = 720, sc_require_auth = False,
     sc_allowed_sources = [''*''], sc_allow_empty = True\<rparr>"

definition config_load :: "sync_json \<Rightarrow> sync_dir \<Rightarrow> sync_error + sync_config" where
  "config_load J d =
     (case sd_config d of None \<Rightarrow> Inr config_default | Some txt \<Rightarrow> ok_or BadJson (dec_config J txt))"

definition config_save :: "sync_json \<Rightarrow> sync_config \<Rightarrow> sync_dir \<Rightarrow> sync_dir" where
  "config_save J c d = d\<lparr>sd_config := Some (enc_config J c)\<rparr>"

section \<open>Sync state\<close>

definition state_new :: "string \<Rightarrow> string \<Rightarrow> sync_state" where
  "state_new uuid url = \<lparr>source_uuid = uuid, source_url = url, last_synced_rev = 0, source_head_rev = 0,
     last_sync_timestamp = 0, total_synced_revisions = 0, sync_in_progress = False, protocol_version = 1,
     checkpoint_rev = None\<rparr>"

definition state_load :: "sync_json \<Rightarrow> sync_dir \<Rightarrow> sync_error + sync_state option" where
  "state_load J d =
     (case sd_state d of
        None \<Rightarrow> Inr None
      | Some txt \<Rightarrow> (case dec_state J txt of None \<Rightarrow> Inl BadJson | Some s \<Rightarrow> Inr (Some s)))"

definition state_save :: "sync_json \<Rightarrow> sync_state \<Rightarrow> sync_dir \<Rightarrow> sync_dir" where
  "state_save J s d = d\<lparr>sd_state := Some (enc_state J s)\<rparr>"

definition state_remove :: "sync_dir \<Rightarrow> sync_dir" where
  "state_remove d = d\<lparr>sd_state := None, sd_log := None\<rparr>"

definition begin_sync :: "sync_json \<Rightarrow> sync_state \<times> sync_dir \<Rightarrow> sync_state \<times> sync_dir" where
  "begin_sync J x = (case x of (s, d) \<Rightarrow>
     let s' = s\<lparr>sync_in_progress := True\<rparr> in (s', state_save J s' d))"

definition complete_sync :: "sync_json \<Rightarrow> int \<Rightarrow> nat \<Rightarrow> sync_state \<times> sync_dir \<Rightarrow> sync_state \<times> sync_dir" where
  "complete_sync J now synced_rev x = (case x of (s, d) \<Rightarrow>
     let s' = s\<lparr>last_synced_rev := synced_rev, total_synced_revisions := total_synced_revisions s + 1,
                last_sync_timestamp := now, sync_in_progress := False, checkpoint_rev := None\<rparr>
     in (s', state_save J s' d))"

definition set_checkpoint :: "sync_json \<Rightarrow> nat \<Rightarrow> sync_state \<times> sync_dir \<Rightarrow> sync_state \<times> sync_dir" where
  "set_checkpoint J r x = (case x of (s, d) \<Rightarrow>
     let s' = s\<lparr>checkpoint_rev := Some r\<rparr> in (s', state_save J s' d))"

definition effective_start_rev :: "sync_state \<Rightarrow> nat" where
  "effective_start_rev s = unwrap_or (last_synced_rev s) (checkpoint_rev s)"

definition verify_source :: "sync_state \<Rightarrow> string \<Rightarrow> sync_error + unit" where
  "verify_source s uuid = (if source_uuid s \<noteq> uuid then Inl (UuidMismatch (source_uuid s) uuid) else Inr ())"

section \<open>Replication log\<close>

definition entry_file :: "log_entry \<Rightarrow> string" where
  "entry_file e = show_nat (from_rev e) @ ''_'' @ show_nat (to_rev e) @ ''.json''"

definition log_append :: "sync_json \<Rightarrow> log_entry \<Rightarrow> sync_dir \<Rightarrow> sync_dir" where
  "log_append J e d = d\<lparr>sd_log := Some (oput (entry_file e) (enc_entry J e) (unwrap_or [] (sd_log d)))\<rparr>"

definition is_json :: "string \<Rightarrow> bool" where
  "is_json name \<longleftrightarrow> ends_with name ''.json'' \<and> name \<noteq> ''.json''"

definition read_entry :: "sync_json \<Rightarrow> string \<times> string \<Rightarrow> log_entry option" where
  "read_entry J file = (case file of (name, txt) \<Rightarrow> if is_json name then dec_entry J txt else None)"

definition log_entries :: "sync_json \<Rightarrow> (string, string) omap \<Rightarrow> log_entry list" where
  "log_entries J files = List.map_filter (read_entry J) files"

definition log_query :: "sync_json \<Rightarrow> nat \<Rightarrow> nat \<Rightarrow> sync_dir \<Rightarrow> log_entry list" where
  "log_query J f t d =
     (case sd_log d of
        None \<Rightarrow> []
      | Some files \<Rightarrow>
          sort_key from_rev (filter (\<lambda>e. f \<le> to_rev e \<and> from_rev e \<le> t) (log_entries J files)))"

definition log_all :: "sync_json \<Rightarrow> sync_dir \<Rightarrow> log_entry list" where
  "log_all J d = log_query J 0 (2 ^ 64 - 1) d"

definition log_latest :: "sync_json \<Rightarrow> sync_dir \<Rightarrow> log_entry option" where
  "log_latest J d = (let es = log_all J d in if es = [] then None else Some (last es))"

definition old_entry :: "sync_json \<Rightarrow> nat \<Rightarrow> string \<times> string \<Rightarrow> bool" where
  "old_entry J r file = (case read_entry J file of Some e \<Rightarrow> to_rev e < r | None \<Rightarrow> False)"

definition log_cleanup_before :: "sync_json \<Rightarrow> nat \<Rightarrow> sync_dir \<Rightarrow> sync_dir \<times> nat" where
  "log_cleanup_before J r d =
     (case sd_log d of
        None \<Rightarrow> (d, 0)
      | Some files \<Rightarrow>
          (d\<lparr>sd_log := Some (filter (\<lambda>f. \<not> old_entry J r f) files)\<rparr>, length (filter (old_entry J r) files)))"

section \<open>File names of the log\<close>

lemma show_nat_inject: "show_nat m = show_nat n \<longleftrightarrow> m = n"
  by (metis digits_val_show_nat option.inject)

lemma show_nat_no_char: "digit_val c = None \<Longrightarrow> c \<notin> set (show_nat n)"
  using show_nat_digits by blast

lemma show_nat_no_underscore: "CHR ''_'' \<notin> set (show_nat n)"
  by (rule show_nat_no_char) (simp add: digit_val_def)

lemma entry_file_inject: "entry_file a = entry_file b \<longleftrightarrow> from_rev a = from_rev b \<and> to_rev a = to_rev b"
proof
  assume "entry_file a = entry_file b"
  then have "show_nat (from_rev a) @ CHR ''_'' # show_nat (to_rev a) = show_nat (from_rev b) @ CHR ''_'' # show_nat (to_rev b)"
    by (simp add: entry_file_def)
  then have "split_once CHR ''_'' (show_nat (from_rev a) @ CHR ''_'' # show_nat (to_rev a)) =
      split_once CHR ''_'' (show_nat (from_rev b) @ CHR ''_'' # show_nat (to_rev b))" by simp
  then show "from_rev a = from_rev b \<and> to_rev a = to_rev b"
    unfolding split_once_append [OF show_nat_no_underscore] by (simp add: show_nat_inject)
qed (simp add: entry_file_def)

lemma is_json_entry_file: "is_json (entry_file e)"
proof -
  have "ends_with (entry_file e) ''.json''"
    unfolding entry_file_def ends_with_iff by (intro exI [of _ "show_nat (from_rev e) @ ''_'' @ show_nat (to_rev e)"]) simp
  moreover have "entry_file e \<noteq> ''.json''" by (simp add: entry_file_def append_eq_Cons_conv)
  ultimately show ?thesis by (simp add: is_json_def)
qed

section \<open>The log as a multiset of entries\<close>

definition log_mset :: "sync_json \<Rightarrow> sync_dir \<Rightarrow> log_entry multiset" where
  "log_mset J d = mset (log_entries J (unwrap_or [] (sd_log d)))"

lemma log_entries_oput:
  assumes "map_of m k = None" and "is_json k" and "dec_entry J txt = Some e"
  shows "mset (log_entries J (oput k txt m)) = add_mset e (mset (log_entries J m))"
  using assms
proof (induction m)
  case (Cons x m)
  obtain a b where x: "x = (a, b)" by (cases x)
  with Cons show ?case
    by (auto simp: log_entries_def List.map_filter_simps read_entry_def [of J "(k, txt)"] split: if_splits option.splits)
qed (simp add: log_entries_def List.map_filter_simps read_entry_def)

lemma log_append_mset:
  assumes "sync_json_ok J" and "map_of (unwrap_or [] (sd_log d)) (entry_file e) = None"
  shows "log_mset J (log_append J e d) = add_mset e (log_mset J d)"
  using log_entries_oput [OF assms(2) is_json_entry_file] assms(1)
  by (simp add: log_mset_def log_append_def sync_json_ok_def)

lemma log_appends:
  assumes "sync_json_ok J" and "distinct (map entry_file es)"
    and "\<forall>e \<in> set es. map_of (unwrap_or [] (sd_log d)) (entry_file e) = None"
  shows "log_mset J (fold (log_append J) es d) = log_mset J d + mset es"
  using assms(2,3)
proof (induction es arbitrary: d)
  case (Cons e es)
  have "\<forall>x \<in> set es. map_of (unwrap_or [] (sd_log (log_append J e d))) (entry_file x) = None"
    using Cons.prems by (auto simp: log_append_def omap_simps image_iff)
  with Cons.IH [of "log_append J e d"] Cons.prems log_append_mset [OF assms(1), of d e] show ?case by simp
qed simp

lemma distinct_entry_files:
  "distinct (map (\<lambda>e. (from_rev e, to_rev e)) es) \<Longrightarrow> distinct (map entry_file es)"
  by (induction es) (auto simp: entry_file_inject)

lemma log_query_mset: "mset (log_query J f t d) = filter_mset (\<lambda>e. f \<le> to_rev e \<and> from_rev e \<le> t) (log_mset J d)"
  by (cases "sd_log d") (simp_all add: log_query_def log_mset_def log_entries_def List.map_filter_simps flip: mset_filter)

lemma cleanup_mset:
  "mset (log_entries J (filter (\<lambda>f. \<not> old_entry J r f) files)) = filter_mset (\<lambda>e. r \<le> to_rev e) (mset (log_entries J files))"
  "length (filter (old_entry J r) files) = size (filter_mset (\<lambda>e. to_rev e < r) (mset (log_entries J files)))"
proof (induction files)
  case (Cons f files)
  { case 1 with Cons show ?case by (cases "read_entry J f") (auto simp: log_entries_def List.map_filter_simps old_entry_def) }
  { case 2 with Cons show ?case by (cases "read_entry J f") (auto simp: log_entries_def List.map_filter_simps old_entry_def) }
qed (simp_all add: log_entries_def List.map_filter_simps)

lemma log_cleanup_mset:
  "log_mset J (fst (log_cleanup_before J r d)) = filter_mset (\<lambda>e. r \<le> to_rev e) (log_mset J d)"
  "snd (log_cleanup_before J r d) = size (filter_mset (\<lambda>e. to_rev e < r) (log_mset J d))"
  using cleanup_mset [of J r]
  by (cases "sd_log d"; simp add: log_cleanup_before_def log_mset_def log_entries_def List.map_filter_simps)+

text \<open>
  C26. The replication log: after appending entries with different revision ranges to an empty
  log, a query returns exactly the entries that overlap the requested range, ordered by their
  first revision; cleaning up before a revision removes exactly the entries that end before it,
  and reports their number.
\<close>

theorem replication_log_exact:
  assumes "sync_json_ok J" and "sd_log d = None" and "distinct (map (\<lambda>e. (from_rev e, to_rev e)) es)"
  defines "d1 \<equiv> fold (log_append J) es d"
  shows "mset (log_query J f t d1) = mset (filter (\<lambda>e. f \<le> to_rev e \<and> from_rev e \<le> t) es) \<and>
         sorted (map from_rev (log_query J f t d1)) \<and>
         mset (log_query J f t (fst (log_cleanup_before J r d1))) =
           mset (filter (\<lambda>e. r \<le> to_rev e \<and> f \<le> to_rev e \<and> from_rev e \<le> t) es) \<and>
         snd (log_cleanup_before J r d1) = length (filter (\<lambda>e. to_rev e < r) es)"
proof -
  have "log_mset J d = {#}" by (simp add: log_mset_def assms(2) log_entries_def List.map_filter_simps)
  then have m: "log_mset J d1 = mset es"
    using log_appends [OF assms(1) distinct_entry_files [OF assms(3)], of d] by (simp add: d1_def assms(2))
  have "sorted (map from_rev (log_query J f t d1))" by (cases "sd_log d1") (simp_all add: log_query_def)
  then show ?thesis
    by (simp add: log_query_mset log_cleanup_mset m filter_filter_mset conj_ac flip: mset_filter)
qed

section \<open>Interrupted synchronisation\<close>

datatype sync_op =
    Begin
  | Checkpoint nat
  | Complete int nat

fun sync_step :: "sync_json \<Rightarrow> sync_op \<Rightarrow> sync_state \<times> sync_dir \<Rightarrow> sync_state \<times> sync_dir" where
  "sync_step J Begin x = begin_sync J x"
| "sync_step J (Checkpoint r) x = set_checkpoint J r x"
| "sync_step J (Complete now r) x = complete_sync J now r x"

fun op_rev :: "sync_op \<Rightarrow> nat option" where
  "op_rev Begin = None"
| "op_rev (Checkpoint r) = Some r"
| "op_rev (Complete now r) = Some r"

lemma sync_step_saved:
  assumes "sync_json_ok J"
  shows "state_load J (snd (sync_step J a x)) = Inr (Some (fst (sync_step J a x)))"
  using assms by (cases a; cases x)
    (simp_all add: state_load_def state_save_def begin_sync_def set_checkpoint_def complete_sync_def Let_def sync_json_ok_def)

lemma sync_step_start:
  "effective_start_rev (fst (sync_step J a x)) = unwrap_or (effective_start_rev (fst x)) (op_rev a)"
  by (cases a; cases x)
    (simp_all add: begin_sync_def set_checkpoint_def complete_sync_def Let_def effective_start_rev_def)

lemma sync_step_total:
  "total_synced_revisions (fst (sync_step J a x)) = total_synced_revisions (fst x) + (case a of Complete _ _ \<Rightarrow> 1 | _ \<Rightarrow> 0)"
  "source_uuid (fst (sync_step J a x)) = source_uuid (fst x)"
  by (cases a; cases x; simp add: begin_sync_def set_checkpoint_def complete_sync_def Let_def)+

text \<open>
  C27. Crash recovery: however a synchronisation is interrupted, a new process loads exactly the
  state of the last operation; it resumes from the revision of the last checkpoint or
  completion, the count of completed synchronisations is exact, and the source is still checked
  against the same UUID.
\<close>

theorem sync_resumes:
  assumes "sync_json_ok J"
  shows "\<exists>s. state_load J (snd (fold (sync_step J) (ops @ [a]) x)) = Inr (Some s) \<and>
     effective_start_rev s = last (effective_start_rev (fst x) # List.map_filter op_rev (ops @ [a])) \<and>
     total_synced_revisions s =
       total_synced_revisions (fst x) + length (filter (\<lambda>c. case c of Complete _ _ \<Rightarrow> True | _ \<Rightarrow> False) (ops @ [a])) \<and>
     (verify_source s u = Inr () \<longleftrightarrow> u = source_uuid (fst x))"
proof -
  have run: "effective_start_rev (fst (fold (sync_step J) cs y)) = last (effective_start_rev (fst y) # List.map_filter op_rev cs) \<and>
      total_synced_revisions (fst (fold (sync_step J) cs y)) =
        total_synced_revisions (fst y) + length (filter (\<lambda>c. case c of Complete _ _ \<Rightarrow> True | _ \<Rightarrow> False) cs) \<and>
      source_uuid (fst (fold (sync_step J) cs y)) = source_uuid (fst y)" for cs y
  proof (induction cs arbitrary: y)
    case (Cons c cs)
    then show ?case
      by (cases c) (simp_all add: List.map_filter_simps sync_step_start sync_step_total del: sync_step.simps)
  qed (simp add: List.map_filter_simps)
  from run [of "ops @ [a]" x] sync_step_saved [OF assms, of a "fold (sync_step J) ops x"] show ?thesis
    by (auto simp: verify_source_def)
qed

section \<open>Witnesses\<close>

definition state_code :: "sync_state \<Rightarrow> (string \<times> string) \<times> (nat \<times> nat \<times> int) \<times> nat \<times> bool \<times> nat \<times> nat option" where
  "state_code s = ((source_uuid s, source_url s), (last_synced_rev s, source_head_rev s, last_sync_timestamp s),
     total_synced_revisions s, sync_in_progress s, protocol_version s, checkpoint_rev s)"

definition state_uncode :: "(string \<times> string) \<times> (nat \<times> nat \<times> int) \<times> nat \<times> bool \<times> nat \<times> nat option \<Rightarrow> sync_state" where
  "state_uncode = (\<lambda>((u, l), (a, b, c), n, p, v, k). \<lparr>source_uuid = u, source_url = l, last_synced_rev = a, source_head_rev = b,
     last_sync_timestamp = c, total_synced_revisions = n, sync_in_progress = p, protocol_version = v, checkpoint_rev = k\<rparr>)"

definition config_code :: "sync_config \<Rightarrow> bool \<times> nat \<times> bool \<times> string list \<times> bool" where
  "config_code c = (sc_enabled c, sc_max_cache_age_hours c, sc_require_auth c, sc_allowed_sources c, sc_allow_empty c)"

definition config_uncode :: "bool \<times> nat \<times> bool \<times> string list \<times> bool \<Rightarrow> sync_config" where
  "config_uncode = (\<lambda>(a, b, c, d, e). \<lparr>sc_enabled = a, sc_max_cache_age_hours = b, sc_require_auth = c,
     sc_allowed_sources = d, sc_allow_empty = e\<rparr>)"

definition entry_code :: "log_entry \<Rightarrow> (nat \<times> nat \<times> int) \<times> (nat \<times> nat \<times> nat) \<times> bool \<times> string option" where
  "entry_code e = ((from_rev e, to_rev e, le_timestamp e), (objects_transferred e, bytes_transferred e, duration_ms e),
     le_success e, le_error e)"

definition entry_uncode :: "(nat \<times> nat \<times> int) \<times> (nat \<times> nat \<times> nat) \<times> bool \<times> string option \<Rightarrow> log_entry" where
  "entry_uncode = (\<lambda>((a, b, c), (d, e, f), g, h). \<lparr>from_rev = a, to_rev = b, le_timestamp = c, objects_transferred = d,
     bytes_transferred = e, duration_ms = f, le_success = g, le_error = h\<rparr>)"

lemma sync_codes: "state_uncode (state_code s) = s" "config_uncode (config_code c) = c" "entry_uncode (entry_code e) = e"
  by (simp_all add: state_code_def state_uncode_def config_code_def config_uncode_def entry_code_def entry_uncode_def)

definition sample_sync :: sync_json where
  "sample_sync = \<lparr>
     enc_state = text_enc (enc_pair (enc_pair enc_string enc_string) (enc_pair (enc_pair enc_nat (enc_pair enc_nat enc_int))
       (enc_pair enc_nat (enc_pair enc_bool (enc_pair enc_nat (enc_option enc_nat))))) \<circ> state_code),
     dec_state = text_dec (dec_map state_uncode (dec_pair (dec_pair dec_string dec_string) (dec_pair (dec_pair dec_nat (dec_pair dec_nat dec_int))
       (dec_pair dec_nat (dec_pair dec_bool (dec_pair dec_nat (dec_option dec_nat))))))),
     enc_config = text_enc (enc_pair enc_bool (enc_pair enc_nat (enc_pair enc_bool (enc_pair (enc_list enc_string) enc_bool))) \<circ> config_code),
     dec_config = text_dec (dec_map config_uncode (dec_pair dec_bool (dec_pair dec_nat (dec_pair dec_bool (dec_pair (dec_list dec_string) dec_bool))))),
     enc_entry = text_enc (enc_pair (enc_pair enc_nat (enc_pair enc_nat enc_int)) (enc_pair (enc_pair enc_nat (enc_pair enc_nat enc_nat))
       (enc_pair enc_bool (enc_option enc_string))) \<circ> entry_code),
     dec_entry = text_dec (dec_map entry_uncode (dec_pair (dec_pair dec_nat (dec_pair dec_nat dec_int)) (dec_pair (dec_pair dec_nat (dec_pair dec_nat dec_nat))
       (dec_pair dec_bool (dec_option dec_string)))))\<rparr>"

lemma sample_sync_ok: "sync_json_ok sample_sync"
  unfolding sync_json_ok_def sample_sync_def sync_json.simps
  by (intro conjI allI text_dec_enc codec_intros sync_codes)

definition sample_dir :: sync_dir where
  "sample_dir = \<lparr>sd_state = None, sd_config = None, sd_log = None\<rparr>"

definition sample_entry :: "nat \<Rightarrow> nat \<Rightarrow> log_entry" where
  "sample_entry a b = \<lparr>from_rev = a, to_rev = b, le_timestamp = 0, objects_transferred = 1, bytes_transferred = 1, duration_ms = 1,
     le_success = True, le_error = None\<rparr>"

theorem replication_log_exact_witness:
  "sync_json_ok sample_sync \<and> sd_log sample_dir = None \<and>
   mset (log_query sample_sync 3 9 (fold (log_append sample_sync) [sample_entry 5 8, sample_entry 1 2, sample_entry 3 4] sample_dir)) =
     {#sample_entry 5 8, sample_entry 3 4#}"
proof -
  have d: "distinct (map (\<lambda>e. (from_rev e, to_rev e)) [sample_entry 5 8, sample_entry 1 2, sample_entry 3 4])"
    by (simp add: sample_entry_def)
  have n: "sd_log sample_dir = None" by (simp add: sample_dir_def)
  from replication_log_exact [OF sample_sync_ok n d, of 3 9] sample_sync_ok n show ?thesis
    by (simp add: sample_entry_def)
qed

theorem sync_resumes_witness:
  "sync_json_ok sample_sync \<and>
   (\<exists>s. state_load sample_sync (snd (fold (sync_step sample_sync) ([Begin, Checkpoint 4] @ [Checkpoint 7]) (state_new ''u'' ''url'', sample_dir))) = Inr (Some s) \<and>
     effective_start_rev s = 7)"
  using sync_resumes [OF sample_sync_ok, of "[Begin, Checkpoint 4]" "Checkpoint 7" "(state_new ''u'' ''url'', sample_dir)"] sample_sync_ok
  by (auto simp: List.map_filter_simps)

end
