(* ===== verification/Replication.thy ===== *)
theory Replication
  imports Packfile
begin

text \<open>
  The replication protocol, \<open>dsvn-core/src/replication.rs\<close>: its messages, the two framings (a
  length prefix, and the compressed frame with its 13-byte header) and the content hash of the
  objects of a revision. Serialisation (crate \<open>bincode\<close>) and compression (crate \<open>zstd\<close>) are
  parameters.
\<close>

section \<open>Messages\<close>

datatype compression = NoCompression | Zstd

record handshake_request =
  hq_magic :: bytes
  hq_version :: nat
  hq_compression :: compression
  hq_capabilities :: "string list"

record handshake_response =
  hr_version :: nat
  hr_uuid :: string
  hr_head_rev :: nat
  hr_compression :: compression
  hr_capabilities :: "string list"
  hr_accepted :: bool
  hr_error :: "string option"

record sync_request =
  sr_from_rev :: nat
  sr_to_rev :: nat
  sr_include_objects :: bool
  sr_include_properties :: bool

record revision_data =
  rd_revision :: nat
  rd_author :: string
  rd_message :: string
  rd_timestamp :: int
  rd_delta_tree :: delta_tree
  rd_objects :: "(object_id \<times> bytes) list"
  rd_properties :: "(string \<times> string) list"
  rd_content_hash :: object_id
  rd_empty_commit :: bool

record sync_ack =
  sa_revision :: nat
  sa_success :: bool
  sa_error :: "string option"
  sa_received_hash :: object_id

record sync_complete =
  sk_from_rev :: nat
  sk_to_rev :: nat
  sk_revisions_synced :: nat
  sk_objects_transferred :: nat
  sk_bytes_transferred :: nat
  sk_duration_ms :: nat
  sk_success :: bool

datatype sync_message =
    MHandshakeRequest handshake_request
  | MHandshakeResponse handshake_response
  | MSyncRequest sync_request
  | MRevisionData revision_data
  | MSyncAck sync_ack
  | MSyncComplete sync_complete
  | MPing
  | MPong
  | MError string

definition PROTOCOL_VERSION :: nat where
  "PROTOCOL_VERSION = 1"

definition PROTOCOL_MAGIC :: bytes where
  "PROTOCOL_MAGIC = map char_byte ''DSVN''"

definition MAX_MESSAGE_SIZE :: nat where
  "MAX_MESSAGE_SIZE = 256 * 1024 * 1024"

definition handshake_request_new :: handshake_request where
  "handshake_request_new = \<lparr>hq_magic = PROTOCOL_MAGIC, hq_version = PROTOCOL_VERSION, hq_compression = Zstd,
     hq_capabilities = [''incremental-sync'', ''delta-transfer'', ''checkpoint-resume'', ''hash-verify'']\<rparr>"

section \<open>Framing\<close>

record wire_env = zstd +
  ser_message :: "sync_message \<Rightarrow> bytes"
  de_message :: "bytes \<Rightarrow> sync_message option"

text \<open>Decompression undoes compression, and the codec reads back the message at hand.\<close>

definition wire_ok :: "wire_env \<Rightarrow> sync_message \<Rightarrow> bool" where
  "wire_ok W m \<longleftrightarrow> (\<forall>d. zstd_decode W (zstd_encode W d) = Some d) \<and> de_message W (ser_message W m) = Some m"

datatype wire_error =
    MessageTooLarge nat
  | DeserializeError
  | TooShort
  | InvalidMagic
  | Truncated
  | WireDecompressError

definition msg_encode :: "wire_env \<Rightarrow> sync_message \<Rightarrow> wire_error + bytes" where
  "msg_encode W m =
     (let payload = ser_message W m in
      if length payload > MAX_MESSAGE_SIZE then Inl (MessageTooLarge (length payload))
      else Inr (le_bytes 4 (as_u32 (length payload)) @ payload))"

definition msg_decode :: "wire_env \<Rightarrow> bytes \<Rightarrow> wire_error + sync_message" where
  "msg_decode W data = ok_or DeserializeError (de_message W data)"

definition msg_encode_compressed :: "wire_env \<Rightarrow> sync_message \<Rightarrow> bytes" where
  "msg_encode_compressed W m =
     (let payload = ser_message W m; z = zstd_encode W payload in
      PROTOCOL_MAGIC @ [0x01] @ le_bytes 4 (as_u32 (length payload)) @ le_bytes 4 (as_u32 (length z)) @ z)"

definition msg_decode_compressed :: "wire_env \<Rightarrow> bytes \<Rightarrow> wire_error + sync_message" where
  "msg_decode_compressed W data =
     (if length data < 13 then Inl TooShort
      else if take 4 data \<noteq> PROTOCOL_MAGIC then Inl InvalidMagic
      else let flags = data ! 4;
               compressed_len = le_nat (take 4 (drop 9 data))
           in if length data < 13 + compressed_len then Inl Truncated
              else let body = take compressed_len (drop 13 data)
                   in rbind (if and flags 1 \<noteq> 0 then ok_or WireDecompressError (zstd_decode W body) else Inr body)
                        (msg_decode W))"

section \<open>Content hash\<close>

definition hash_input :: "(object_id \<times> bytes) list \<Rightarrow> bytes" where
  "hash_input objs = concat (map (\<lambda>(i, d). as_bytes i @ le_bytes 8 (length d) @ d) objs)"

definition compute_content_hash :: "('x) externals_scheme \<Rightarrow> (object_id \<times> bytes) list \<Rightarrow> object_id" where
  "compute_content_hash E objs = ObjectId (sha256 E (hash_input objs))"

definition verify_content_hash :: "('x) externals_scheme \<Rightarrow> revision_data \<Rightarrow> bool" where
  "verify_content_hash E r \<longleftrightarrow> compute_content_hash E (rd_objects r) = rd_content_hash r"

section \<open>Lemmas\<close>

lemma magic_length [simp]: "length PROTOCOL_MAGIC = 4"
  by (simp add: PROTOCOL_MAGIC_def)

lemma frame_fields:
  fixes a b :: nat and z post :: bytes
  defines "data \<equiv> PROTOCOL_MAGIC @ [1] @ le_bytes 4 a @ le_bytes 4 b @ z @ post"
  shows "take 4 data = PROTOCOL_MAGIC" "data ! 4 = 1" "take 4 (drop 9 data) = le_bytes 4 b" "drop 13 data = z @ post"
    "length data = 13 + length z + length post"
proof -
  show "take 4 data = PROTOCOL_MAGIC" by (simp add: data_def)
  show "data ! 4 = 1" by (simp add: data_def nth_append)
  have "drop (length (PROTOCOL_MAGIC @ [1] @ le_bytes 4 a)) data = le_bytes 4 b @ z @ post"
    unfolding data_def append_assoc [symmetric] append_eq_conv_conj by simp
  then show "take 4 (drop 9 data) = le_bytes 4 b" by simp
  have "drop (length (PROTOCOL_MAGIC @ [1] @ le_bytes 4 a @ le_bytes 4 b)) data = z @ post"
    unfolding data_def append_assoc [symmetric] append_eq_conv_conj by simp
  then show "drop 13 data = z @ post" by simp
  show "length data = 13 + length z + length post" by (simp add: data_def)
qed

lemma hash_input_Cons: "hash_input ((i, d) # objs) = as_bytes i @ le_bytes 8 (length d) @ d @ hash_input objs"
  by (simp add: hash_input_def)

lemma hash_input_inject:
  assumes "\<forall>(i, d) \<in> set xs. oid_ok i \<and> length d < 2 ^ 64" and "\<forall>(i, d) \<in> set ys. oid_ok i \<and> length d < 2 ^ 64"
    and "hash_input xs = hash_input ys"
  shows "xs = ys"
  using assms
proof (induction xs arbitrary: ys)
  case Nil
  then show ?case
    by (cases ys) (auto simp: hash_input_Cons oid_ok_def, auto simp: hash_input_def)
next
  case (Cons x xs)
  obtain i d where x: "x = (i, d)" by (cases x)
  from Cons.prems(3) have "ys \<noteq> []" using Cons.prems(1) by (auto simp: x hash_input_Cons oid_ok_def) (simp add: hash_input_def)
  then obtain j e ys' where ys: "ys = (j, e) # ys'" by (cases ys) auto
  have eq: "as_bytes i @ le_bytes 8 (length d) @ d @ hash_input xs = as_bytes j @ le_bytes 8 (length e) @ e @ hash_input ys'"
    using Cons.prems(3) by (simp add: x ys hash_input_Cons)
  have li: "length (as_bytes i) = length (as_bytes j)" and ld: "length d < 256 ^ 8" "length e < 256 ^ 8"
    using Cons.prems(1,2) by (simp_all add: x ys oid_ok_def)
  from eq li have "as_bytes i = as_bytes j" and eq2: "le_bytes 8 (length d) @ d @ hash_input xs = le_bytes 8 (length e) @ e @ hash_input ys'"
    by (simp_all add: append_eq_append_conv)
  then have ij: "i = j" by (simp add: object_id.expand)
  from eq2 have "le_bytes 8 (length d) = le_bytes 8 (length e)" and eq3: "d @ hash_input xs = e @ hash_input ys'"
    by (simp_all add: append_eq_append_conv)
  then have "length d = length e" using le_nat_le_bytes_id ld by metis
  with eq3 have de: "d = e" and "hash_input xs = hash_input ys'" by (simp_all add: append_eq_append_conv)
  with Cons.IH [of ys'] Cons.prems(1,2) ij show ?case by (simp add: x ys)
qed

section \<open>Properties\<close>

lemma decode_frame_prefix:
  assumes "length z < 2 ^ 32" and "n < 13 + length z"
  shows "msg_decode_compressed W (take n (PROTOCOL_MAGIC @ [1] @ le_bytes 4 a @ le_bytes 4 (as_u32 (length z)) @ z)) \<in>
           {Inl TooShort, Inl Truncated}"
proof (cases "n < 13")
  case True
  then show ?thesis by (simp add: msg_decode_compressed_def)
next
  case False
  let ?data = "PROTOCOL_MAGIC @ [1] @ le_bytes 4 a @ le_bytes 4 (as_u32 (length z)) @ z"
  note f = frame_fields [of a "as_u32 (length z)" z "[]", simplified append_Nil2]
  have "take 4 (take n ?data) = take 4 ?data" "take 4 (drop 9 (take n ?data)) = take 4 (drop 9 ?data)"
    "length (take n ?data) = n"
    using False assms(2) f(5) by (simp_all only: drop_take take_take length_take) (simp_all add: min_def)
  note g = this(1) [unfolded f(1)] this(2) [unfolded f(3)] this(3)
  show ?thesis
    unfolding msg_decode_compressed_def g le_nat_u32 [OF assms(1)] Let_def using False assms(2) by simp
qed

text \<open>
  Round trip of the compressed frame: decoding what was encoded, whatever follows it in the
  buffer, returns the message, and every proper prefix of a frame is rejected as too short or
  truncated.
\<close>

theorem compressed_frame_roundtrip:
  assumes "wire_ok W m" and "length (zstd_encode W (ser_message W m)) < 2 ^ 32"
  shows "msg_decode_compressed W (msg_encode_compressed W m @ post) = Inr m \<and>
         (\<forall>n < length (msg_encode_compressed W m).
            msg_decode_compressed W (take n (msg_encode_compressed W m)) \<in> {Inl TooShort, Inl Truncated})"
proof
  let ?z = "zstd_encode W (ser_message W m)"
  have e: "msg_encode_compressed W m =
      PROTOCOL_MAGIC @ [1] @ le_bytes 4 (as_u32 (length (ser_message W m))) @ le_bytes 4 (as_u32 (length ?z)) @ ?z"
    by (simp add: msg_encode_compressed_def Let_def)
  let ?d = "PROTOCOL_MAGIC @ [1] @ le_bytes 4 (as_u32 (length (ser_message W m))) @ le_bytes 4 (as_u32 (length ?z)) @ ?z @ post"
  have d: "msg_encode_compressed W m @ post = ?d" by (simp add: e)
  note f = frame_fields [of "as_u32 (length (ser_message W m))" "as_u32 (length ?z)" ?z post]
  have "\<not> length ?d < 13" "\<not> length ?d < 13 + length ?z" using f(5) by linarith+
  then show "msg_decode_compressed W (msg_encode_compressed W m @ post) = Inr m"
    using assms(1)
    unfolding d msg_decode_compressed_def f(1-4) le_nat_u32 [OF assms(2)] Let_def
    by (simp add: wire_ok_def msg_decode_def)
  show "\<forall>n < length (msg_encode_compressed W m).
      msg_decode_compressed W (take n (msg_encode_compressed W m)) \<in> {Inl TooShort, Inl Truncated}"
    using decode_frame_prefix [OF assms(2)] by (simp add: e)
qed

text \<open>
  C34. Tampering with the objects of a revision in transit is detected: two verified revisions
  with the same content hash carry the same list of objects, unless SHA-256 collides on two
  different inputs. A hash computed by the sender verifies.
\<close>

theorem content_hash_detects_changes:
  assumes "verify_content_hash E r" and "verify_content_hash E r'" and "rd_content_hash r = rd_content_hash r'"
    and "\<forall>(i, d) \<in> set (rd_objects r). oid_ok i \<and> length d < 2 ^ 64"
    and "\<forall>(i, d) \<in> set (rd_objects r'). oid_ok i \<and> length d < 2 ^ 64"
  shows "rd_objects r = rd_objects r' \<or> (\<exists>x y. x \<noteq> y \<and> sha256 E x = sha256 E y)"
proof -
  have "sha256 E (hash_input (rd_objects r)) = sha256 E (hash_input (rd_objects r'))"
    using assms(1-3) unfolding verify_content_hash_def compute_content_hash_def by (metis object_id.inject)
  with hash_input_inject [OF assms(4,5)] show ?thesis by blast
qed

definition sample_wire :: wire_env where
  "sample_wire = \<lparr>zstd_encode = rev, zstd_decode = (\<lambda>z. Some (rev z)),
     ser_message = (\<lambda>m. if m = MPing then [1] else [2]), de_message = (\<lambda>b. if b = [1] then Some MPing else None)\<rparr>"

theorem compressed_frame_roundtrip_witness:
  "wire_ok sample_wire MPing \<and> length (zstd_encode sample_wire (ser_message sample_wire MPing)) < 2 ^ 32 \<and>
   msg_decode_compressed sample_wire (msg_encode_compressed sample_wire MPing @ [9, 9]) = Inr MPing"
proof -
  have w: "wire_ok sample_wire MPing" and l: "length (zstd_encode sample_wire (ser_message sample_wire MPing)) < 2 ^ 32"
    by (simp_all add: wire_ok_def sample_wire_def)
  from compressed_frame_roundtrip [OF w l, of "[9, 9]"] w l show ?thesis by blast
qed

definition sample_revision :: "('x) externals_scheme \<Rightarrow> (object_id \<times> bytes) list \<Rightarrow> revision_data" where
  "sample_revision E objs = \<lparr>rd_revision = 1, rd_author = ''ann'', rd_message = ''m'', rd_timestamp = 0,
     rd_delta_tree = delta_tree_new 0 [] 0, rd_objects = objs, rd_properties = [],
     rd_content_hash = compute_content_hash E objs, rd_empty_commit = False\<rparr>"

definition sample_hash :: externals where
  "sample_hash = \<lparr>sha256 = (\<lambda>d. d), hex_encode = map byte_char, hex_decode = (\<lambda>s. Some (map char_byte s)),
     ser_blob = (\<lambda>_. []), de_blob = (\<lambda>_. None), ser_tree = (\<lambda>_. []), de_tree = (\<lambda>_. None),
     ser_commit = (\<lambda>_. []), de_commit = (\<lambda>_. None), ser_delta = (\<lambda>_. []), de_delta = (\<lambda>_. None)\<rparr>"

theorem content_hash_detects_changes_witness:
  "let r = sample_revision sample_hash [(ObjectId (replicate 32 1), [7])]; r' = r\<lparr>rd_author := ''bob''\<rparr> in
   verify_content_hash sample_hash r \<and> verify_content_hash sample_hash r' \<and> rd_content_hash r = rd_content_hash r' \<and>
   rd_objects r = rd_objects r'"
proof -
  let ?r = "sample_revision sample_hash [(ObjectId (replicate 32 1), [7])]"
  let ?r' = "?r\<lparr>rd_author := ''bob''\<rparr>"
  have v: "verify_content_hash sample_hash ?r" "verify_content_hash sample_hash ?r'" "rd_content_hash ?r = rd_content_hash ?r'"
    by (simp_all add: verify_content_hash_def sample_revision_def)
  have ok: "\<forall>(i, d) \<in> set (rd_objects ?r). oid_ok i \<and> length d < 2 ^ 64" "\<forall>(i, d) \<in> set (rd_objects ?r'). oid_ok i \<and> length d < 2 ^ 64"
    by (simp_all add: sample_revision_def oid_ok_def)
  have "sha256 sample_hash x = sha256 sample_hash y \<longleftrightarrow> x = y" for x y by (simp add: sample_hash_def)
  with content_hash_detects_changes [OF v ok] v show ?thesis unfolding Let_def by blast
qed

end
