(* ===== verification/Storage.thy ===== *)
theory Storage
  imports Packfile
begin

text \<open>
  The storage tiers of \<open>dsvn-core/src/storage.rs\<close> (hot, warm, tiered) and the stand-alone hot
  store of \<open>hot_store.rs\<close>. The database (crate \<open>fjall\<close>) is a parameter: its state is of an
  arbitrary type \<open>'d\<close>, and its operations are assumed to be those of a key-value store; its own
  failures are not modelled. Pack files and their index files are written to disk and kept in
  \<open>ws_files\<close>.
\<close>

section \<open>The database\<close>

record 'd store_env = externals +
  zenc :: "bytes \<Rightarrow> bytes"
  fj_get :: "'d \<Rightarrow> string \<Rightarrow> bytes option"
  fj_insert :: "string \<Rightarrow> bytes \<Rightarrow> 'd \<Rightarrow> 'd"
  fj_remove :: "string \<Rightarrow> 'd \<Rightarrow> 'd"

definition store_env_ok :: "'d store_env \<Rightarrow> bool" where
  "store_env_ok F \<longleftrightarrow> (\<forall>b. hex_decode F (hex_encode F b) = Some b) \<and>
     (\<forall>d k v j. fj_get F (fj_insert F k v d) j = (if j = k then Some v else fj_get F d j)) \<and>
     (\<forall>d k j. fj_get F (fj_remove F k d) j = (if j = k then None else fj_get F d j))"

datatype storage_error =
    NotFound object_id
  | Backend string

section \<open>Hot tier\<close>

definition hot_get :: "'d store_env \<Rightarrow> object_id \<Rightarrow> 'd \<Rightarrow> storage_error + bytes" where
  "hot_get F i d = ok_or (NotFound i) (fj_get F d (to_hex F i))"

definition hot_exists :: "'d store_env \<Rightarrow> object_id \<Rightarrow> 'd \<Rightarrow> bool" where
  "hot_exists F i d \<longleftrightarrow> fj_get F d (to_hex F i) \<noteq> None"

definition hot_put :: "'d store_env \<Rightarrow> bytes \<Rightarrow> 'd \<Rightarrow> 'd \<times> object_id" where
  "hot_put F data d = (let i = from_data F data in (fj_insert F (to_hex F i) data d, i))"

definition hot_delete :: "'d store_env \<Rightarrow> object_id \<Rightarrow> 'd \<Rightarrow> 'd" where
  "hot_delete F i d = fj_remove F (to_hex F i) d"

definition hot_get_batch :: "'d store_env \<Rightarrow> object_id list \<Rightarrow> 'd \<Rightarrow> bytes option list" where
  "hot_get_batch F ids d = map (\<lambda>i. fj_get F d (to_hex F i)) ids"

fun hot_put_batch :: "'d store_env \<Rightarrow> bytes list \<Rightarrow> 'd \<Rightarrow> 'd \<times> object_id list" where
  "hot_put_batch F [] d = (d, [])"
| "hot_put_batch F (x # xs) d =
     (case hot_put F x d of (d1, i) \<Rightarrow> case hot_put_batch F xs d1 of (d2, ids) \<Rightarrow> (d2, i # ids))"

definition hot_list :: "nat \<Rightarrow> nat \<Rightarrow> 'd \<Rightarrow> object_id list" where
  "hot_list offset limit d = []"

section \<open>Warm tier\<close>

record warm_entry =
  we_object_id :: string
  we_offset :: nat
  we_size :: nat
  we_compressed_size :: "nat option"

record warm_store =
  ws_packs :: "warm_entry list"
  ws_files :: "(bytes \<times> warm_entry list) list"

definition warm_open :: warm_store where
  "warm_open = \<lparr>ws_packs = [], ws_files = []\<rparr>"

fun warm_pack :: "'d store_env \<Rightarrow> (object_id \<times> bytes) list \<Rightarrow> nat \<Rightarrow> bytes \<times> warm_entry list" where
  "warm_pack F [] off = ([], [])"
| "warm_pack F ((i, data) # objs) off =
     (let z = zenc F data in
      case warm_pack F objs (off + length z) of (bs, es) \<Rightarrow>
        (z @ bs, \<lparr>we_object_id = to_hex F i, we_offset = off, we_size = length data,
                  we_compressed_size = Some (length z)\<rparr> # es))"

definition warm_write_pack :: "'d store_env \<Rightarrow> (object_id \<times> bytes) list \<Rightarrow> warm_store \<Rightarrow> warm_store" where
  "warm_write_pack F objs w =
     (case warm_pack F objs 0 of (bs, es) \<Rightarrow>
        w\<lparr>ws_packs := ws_packs w @ es, ws_files := ws_files w @ [(bs, es)]\<rparr>)"

definition warm_exists :: "'d store_env \<Rightarrow> object_id \<Rightarrow> warm_store \<Rightarrow> bool" where
  "warm_exists F i w \<longleftrightarrow> (\<exists>e \<in> set (ws_packs w). we_object_id e = to_hex F i)"

definition warm_get :: "'d store_env \<Rightarrow> object_id \<Rightarrow> warm_store \<Rightarrow> storage_error + bytes" where
  "warm_get F i w =
     (case List.find (\<lambda>e. we_object_id e = to_hex F i) (ws_packs w) of
        None \<Rightarrow> Inl (NotFound i)
      | Some _ \<Rightarrow> Inl (Backend ''WarmStore get not fully implemented''))"

definition warm_put :: "'d store_env \<Rightarrow> bytes \<Rightarrow> warm_store \<Rightarrow> warm_store \<times> object_id" where
  "warm_put F data w = (w, from_data F data)"

definition warm_delete :: "object_id \<Rightarrow> warm_store \<Rightarrow> storage_error + warm_store" where
  "warm_delete i w = Inl (Backend ''Cannot delete from warm store'')"

definition warm_get_batch :: "'d store_env \<Rightarrow> object_id list \<Rightarrow> warm_store \<Rightarrow> bytes option list" where
  "warm_get_batch F ids w = map (\<lambda>i. result_ok (warm_get F i w)) ids"

definition warm_put_batch :: "'d store_env \<Rightarrow> bytes list \<Rightarrow> warm_store \<Rightarrow> warm_store \<times> object_id list" where
  "warm_put_batch F xs w =
     (let ids = map (from_data F) xs in (warm_write_pack F (zip ids xs) w, ids))"

definition warm_list :: "'d store_env \<Rightarrow> nat \<Rightarrow> nat \<Rightarrow> warm_store \<Rightarrow> object_id list" where
  "warm_list F offset limit w =
     List.map_filter (\<lambda>e. result_ok (from_hex F (we_object_id e))) (take limit (ws_packs w))"

section \<open>Tiered store\<close>

record 'd tiered =
  t_hot :: 'd
  t_warm :: warm_store

fun promote :: "'d store_env \<Rightarrow> object_id list \<Rightarrow> 'd tiered \<Rightarrow> 'd tiered" where
  "promote F [] t = t"
| "promote F (i # ids) t =
     (case warm_get F i (t_warm t) of
        Inr data \<Rightarrow> promote F ids (t\<lparr>t_hot := fst (hot_put F data (t_hot t))\<rparr>)
      | Inl _ \<Rightarrow> promote F ids t)"

fun demote :: "'d store_env \<Rightarrow> object_id list \<Rightarrow> 'd tiered \<Rightarrow> 'd tiered" where
  "demote F [] t = t"
| "demote F (i # ids) t =
     (case hot_get F i (t_hot t) of
        Inr data \<Rightarrow>
          demote F ids (t\<lparr>t_warm := fst (warm_put F data (t_warm t)), t_hot := hot_delete F i (t_hot t)\<rparr>)
      | Inl _ \<Rightarrow> demote F ids t)"

definition tiered_get :: "'d store_env \<Rightarrow> object_id \<Rightarrow> 'd tiered \<Rightarrow> storage_error + bytes" where
  "tiered_get F i t =
     (case hot_get F i (t_hot t) of
        Inr d \<Rightarrow> Inr d
      | Inl _ \<Rightarrow> (case warm_get F i (t_warm t) of Inr d \<Rightarrow> Inr d | Inl _ \<Rightarrow> Inl (NotFound i)))"

definition tiered_exists :: "'d store_env \<Rightarrow> object_id \<Rightarrow> 'd tiered \<Rightarrow> bool" where
  "tiered_exists F i t \<longleftrightarrow> hot_exists F i (t_hot t) \<or> warm_exists F i (t_warm t)"

definition tiered_put :: "'d store_env \<Rightarrow> bytes \<Rightarrow> 'd tiered \<Rightarrow> 'd tiered \<times> object_id" where
  "tiered_put F data t = (case hot_put F data (t_hot t) of (d, i) \<Rightarrow> (t\<lparr>t_hot := d\<rparr>, i))"

definition tiered_delete :: "'d store_env \<Rightarrow> object_id \<Rightarrow> 'd tiered \<Rightarrow> 'd tiered" where
  "tiered_delete F i t =
     (let t1 = t\<lparr>t_hot := hot_delete F i (t_hot t)\<rparr> in
      case warm_delete i (t_warm t1) of Inl _ \<Rightarrow> t1 | Inr w \<Rightarrow> t1\<lparr>t_warm := w\<rparr>)"

definition tiered_get_batch :: "'d store_env \<Rightarrow> object_id list \<Rightarrow> 'd tiered \<Rightarrow> bytes option list" where
  "tiered_get_batch F ids t =
     map (\<lambda>(i, h). case h of Some d \<Rightarrow> Some d | None \<Rightarrow> result_ok (warm_get F i (t_warm t)))
       (zip ids (hot_get_batch F ids (t_hot t)))"

definition tiered_put_batch :: "'d store_env \<Rightarrow> bytes list \<Rightarrow> 'd tiered \<Rightarrow> 'd tiered \<times> object_id list" where
  "tiered_put_batch F xs t = (case hot_put_batch F xs (t_hot t) of (d, ids) \<Rightarrow> (t\<lparr>t_hot := d\<rparr>, ids))"

definition tiered_list :: "'d store_env \<Rightarrow> nat \<Rightarrow> nat \<Rightarrow> 'd tiered \<Rightarrow> object_id list" where
  "tiered_list F offset limit t =
     (let h = hot_list offset limit (t_hot t) in
      if length h < limit then h @ warm_list F 0 (limit - length h) (t_warm t) else h)"

section \<open>The stand-alone hot store\<close>

definition hs_put :: "'d store_env \<Rightarrow> object_id \<Rightarrow> bytes \<Rightarrow> 'd \<Rightarrow> 'd" where
  "hs_put F i data d = fj_insert F (to_hex F i) data d"

definition hs_get :: "'d store_env \<Rightarrow> object_id \<Rightarrow> 'd \<Rightarrow> bytes option" where
  "hs_get F i d = fj_get F d (to_hex F i)"

definition hs_contains :: "'d store_env \<Rightarrow> object_id \<Rightarrow> 'd \<Rightarrow> bool" where
  "hs_contains F i d \<longleftrightarrow> hs_get F i d \<noteq> None"

definition hs_delete :: "'d store_env \<Rightarrow> object_id \<Rightarrow> 'd \<Rightarrow> 'd \<times> bool" where
  "hs_delete F i d =
     (if fj_get F d (to_hex F i) \<noteq> None then (fj_remove F (to_hex F i) d, True) else (d, False))"

definition hs_size :: "'d \<Rightarrow> nat" where
  "hs_size d = 0"

section \<open>The interface of an object store\<close>

text \<open>A content-addressed store: what is put can be read under its hash until it is deleted.\<close>

locale object_store =
  fixes inv :: "'s \<Rightarrow> bool"
    and address :: "bytes \<Rightarrow> object_id"
    and get :: "object_id \<Rightarrow> 's \<Rightarrow> bytes option"
    and put :: "bytes \<Rightarrow> 's \<Rightarrow> 's"
    and delete :: "object_id \<Rightarrow> 's \<Rightarrow> 's"
  assumes inv_put: "inv s \<Longrightarrow> inv (put x s)"
    and inv_delete: "inv s \<Longrightarrow> inv (delete i s)"
    and get_put: "inv s \<Longrightarrow> get i (put x s) = (if i = address x then Some x else get i s)"
    and get_delete: "inv s \<Longrightarrow> get i (delete j s) = (if i = j then None else get i s)"
begin

lemma get_puts_other: "inv s \<Longrightarrow> i \<notin> address ` set xs \<Longrightarrow> get i (fold put xs s) = get i s"
  by (induction xs arbitrary: s) (auto simp: get_put inv_put)

text \<open>A batch whose contents do not collide can be read back in full.\<close>

lemma get_puts:
  assumes "inv s" and "inj_on address (set xs)" and "x \<in> set xs"
  shows "get (address x) (fold put xs s) = Some x"
  using assms
proof (induction xs arbitrary: s)
  case (Cons y ys)
  show ?case
  proof (cases "x \<in> set ys")
    case True
    with Cons inv_put [of s y] show ?thesis by simp
  next
    case False
    with Cons.prems have "x = y" and "address x \<notin> address ` set ys" by (auto simp: inj_on_def)
    with Cons.prems(1) show ?thesis by (simp add: get_puts_other get_put inv_put)
  qed
qed simp

lemma get_deletes:
  "inv s \<Longrightarrow> get i (fold delete js s) = (if i \<in> set js then None else get i s)"
  by (induction js arbitrary: s) (auto simp: get_delete inv_delete)

end

lemma to_hex_inject:
  assumes "store_env_ok F"
  shows "to_hex F i = to_hex F j \<longleftrightarrow> i = j"
proof
  assume "to_hex F i = to_hex F j"
  then have "hex_decode F (to_hex F i) = hex_decode F (to_hex F j)" by simp
  with assms show "i = j" by (simp add: to_hex_def store_env_ok_def object_id.expand)
qed simp

lemma fj_laws:
  assumes "store_env_ok F"
  shows "fj_get F (fj_insert F (to_hex F k) v d) (to_hex F j) = (if j = k then Some v else fj_get F d (to_hex F j))"
    and "fj_get F (fj_remove F (to_hex F k) d) (to_hex F j) = (if j = k then None else fj_get F d (to_hex F j))"
  using assms to_hex_inject [OF assms, of j k] by (simp_all add: store_env_ok_def)

lemma warm_get_fails: "\<exists>e. warm_get F i w = Inl e"
  by (simp add: warm_get_def split: option.split)

lemma tiered_get_eq: "tiered_get F i t = (case fj_get F (t_hot t) (to_hex F i) of Some d \<Rightarrow> Inr d | None \<Rightarrow> Inl (NotFound i))"
  using warm_get_fails [of F i "t_warm t"] by (auto simp: tiered_get_def hot_get_def split: option.split)

interpretation hot: object_store "\<lambda>_. store_env_ok F" "from_data F" "\<lambda>i d. result_ok (hot_get F i d)"
    "\<lambda>x d. fst (hot_put F x d)" "hot_delete F"
  for F :: "'d store_env"
  by unfold_locales (simp_all add: hot_get_def hot_put_def hot_delete_def Let_def fj_laws)

interpretation tier: object_store "\<lambda>_. store_env_ok F" "from_data F" "\<lambda>i t. result_ok (tiered_get F i t)"
    "\<lambda>x t. fst (tiered_put F x t)" "tiered_delete F"
  for F :: "'d store_env"
  by unfold_locales
    (simp_all add: tiered_get_eq tiered_put_def hot_put_def tiered_delete_def hot_delete_def warm_delete_def Let_def
      fj_laws split: option.split)

interpretation lone: object_store "\<lambda>_. store_env_ok F" "from_data F" "hs_get F"
    "\<lambda>x. hs_put F (from_data F x) x" "\<lambda>i d. fst (hs_delete F i d)"
  for F :: "'d store_env"
  by unfold_locales (auto simp: hs_get_def hs_put_def hs_delete_def fj_laws)

lemma hot_put_batch_eq: "hot_put_batch F xs d = (fold (\<lambda>x d. fst (hot_put F x d)) xs d, map (from_data F) xs)"
  by (induction xs arbitrary: d) (simp_all add: hot_put_def Let_def case_prod_unfold)

lemma tiered_put_batch_eq:
  "tiered_put_batch F xs t = (fold (\<lambda>x t. fst (tiered_put F x t)) xs t, map (from_data F) xs)"
proof -
  have "fold (\<lambda>x t. fst (tiered_put F x t)) xs t = t\<lparr>t_hot := fold (\<lambda>x d. fst (hot_put F x d)) xs (t_hot t)\<rparr>"
    by (induction xs arbitrary: t) (simp_all add: tiered_put_def case_prod_unfold)
  then show ?thesis by (simp add: tiered_put_batch_def hot_put_batch_eq)
qed

lemma tiered_get_batch_eq: "tiered_get_batch F ids t = map (\<lambda>i. result_ok (tiered_get F i t)) ids"
  by (auto simp: tiered_get_batch_def hot_get_batch_def zip_map2 zip_same_conv_map tiered_get_def hot_get_def
      split: option.split sum.split)

lemma demote_hot:
  assumes "store_env_ok F"
  shows "fj_get F (t_hot (demote F ids t)) (to_hex F i) = (if i \<in> set ids then None else fj_get F (t_hot t) (to_hex F i))"
proof (induction ids arbitrary: t)
  case (Cons j ids)
  show ?case
  proof (cases "fj_get F (t_hot t) (to_hex F j)")
    case None
    with Cons show ?thesis by (auto simp: hot_get_def)
  next
    case (Some d)
    with Cons show ?thesis by (auto simp: hot_get_def hot_delete_def fj_laws [OF assms])
  qed
qed simp

text \<open>
  The tiered store is content-addressed: after storing a batch of contents whose hashes do
  not collide, the returned identifiers are the hashes, a batch read of them returns exactly
  the contents, and everything else reads as before.
\<close>

theorem tiered_batch_roundtrip:
  assumes "store_env_ok F" and "inj_on (from_data F) (set xs)"
  shows "snd (tiered_put_batch F xs t) = map (from_data F) xs \<and>
         tiered_get_batch F (map (from_data F) xs) (fst (tiered_put_batch F xs t)) = map Some xs \<and>
         (\<forall>i. i \<notin> from_data F ` set xs \<longrightarrow>
            result_ok (tiered_get F i (fst (tiered_put_batch F xs t))) = result_ok (tiered_get F i t))"
  using tier.get_puts [OF assms] tier.get_puts_other [OF assms(1), of _ xs t]
  by (simp add: tiered_put_batch_eq tiered_get_batch_eq)

text \<open>
  Demotion destroys data: every object demoted from the hot tier is afterwards reported as
  not found, although it was readable before, because the warm tier stores nothing on \<open>put\<close>.
\<close>

theorem demote_loses_objects:
  assumes "store_env_ok F" and "i \<in> set ids" and "tiered_get F i t = Inr d"
  shows "tiered_get F i (demote F ids t) = Inl (NotFound i)"
  using assms(2) demote_hot [OF assms(1), of ids t i] by (simp add: tiered_get_eq)

definition sample_store :: "(string \<rightharpoonup> bytes) store_env" where
  "sample_store = \<lparr>sha256 = (\<lambda>d. d), hex_encode = map byte_char, hex_decode = (\<lambda>s. Some (map char_byte s)),
     ser_blob = (\<lambda>_. []), de_blob = (\<lambda>_. None), ser_tree = (\<lambda>_. []), de_tree = (\<lambda>_. None),
     ser_commit = (\<lambda>_. []), de_commit = (\<lambda>_. None), ser_delta = (\<lambda>_. []), de_delta = (\<lambda>_. None),
     zenc = rev, fj_get = (\<lambda>d. d), fj_insert = (\<lambda>k v d. d(k \<mapsto> v)), fj_remove = (\<lambda>k d. d(k := None))\<rparr>"

lemma sample_store_ok: "store_env_ok sample_store"
  by (simp add: store_env_ok_def sample_store_def)

definition sample_tiers :: "(string \<rightharpoonup> bytes) tiered" where
  "sample_tiers = \<lparr>t_hot = Map.empty, t_warm = warm_open\<rparr>"

theorem tiered_batch_roundtrip_witness:
  "store_env_ok sample_store \<and> inj_on (from_data sample_store) (set [[1], [2, 3]]) \<and>
   tiered_get_batch sample_store (map (from_data sample_store) [[1], [2, 3]])
     (fst (tiered_put_batch sample_store [[1], [2, 3]] sample_tiers)) = [Some [1], Some [2, 3]]"
proof -
  have i: "inj_on (from_data sample_store) (set [[1], [2, 3]])" by (simp add: inj_on_def from_data_def sample_store_def)
  from tiered_batch_roundtrip [OF sample_store_ok i, of sample_tiers] i sample_store_ok show ?thesis by simp
qed

theorem demote_loses_objects_witness:
  "store_env_ok sample_store \<and>
   tiered_get sample_store (ObjectId [1]) (fst (tiered_put sample_store [1] sample_tiers)) = Inr [1] \<and>
   tiered_get sample_store (ObjectId [1]) (demote sample_store [ObjectId [1]] (fst (tiered_put sample_store [1] sample_tiers))) =
     Inl (NotFound (ObjectId [1]))"
proof -
  have g: "tiered_get sample_store (ObjectId [1]) (fst (tiered_put sample_store [1] sample_tiers)) = Inr [1]"
    by (simp add: tiered_get_eq tiered_put_def hot_put_def from_data_def to_hex_def sample_store_def sample_tiers_def)
  from demote_loses_objects [OF sample_store_ok _ g, of "[ObjectId [1]]"] g sample_store_ok show ?thesis by simp
qed

end
