(* ===== verification/Persistent.thy ===== *)
theory Persistent
  imports Sample_Environment
begin

text \<open>
  The file-based repository of \<open>dsvn-core/src/persistent.rs\<close>: objects and commits in memory,
  written as three JSON files after every change. The JSON codecs are parameters; writes
  succeed.
\<close>

section \<open>State\<close>

record repo_meta =
  pm_uuid :: string
  pm_current_rev :: nat
  pm_created_at :: int

record pers_env = externals +
  enc_meta :: "repo_meta \<Rightarrow> string"
  dec_meta :: "string \<Rightarrow> repo_meta option"
  enc_commits :: "(nat, commit) omap \<Rightarrow> string"
  dec_commits :: "string \<Rightarrow> (nat, commit) omap option"
  enc_objects :: "(string, bytes) omap \<Rightarrow> string"
  dec_objects :: "string \<Rightarrow> (string, bytes) omap option"

definition pers_env_ok :: "pers_env \<Rightarrow> bool" where
  "pers_env_ok E \<longleftrightarrow> externals_ok E \<and> (\<forall>m. dec_meta E (enc_meta E m) = Some m) \<and>
     (\<forall>m. dec_commits E (enc_commits E m) = Some m) \<and> (\<forall>m. dec_objects E (enc_objects E m) = Some m)"

record pers_disk =
  pd_meta :: "string option"
  pd_commits :: "string option"
  pd_objects :: "string option"

record pers_repo =
  p_disk :: pers_disk
  p_objects :: "(object_id, bytes) omap"
  p_commits :: "(nat, commit) omap"
  p_path_index :: "(string, object_id) omap"
  p_meta :: repo_meta

datatype pers_error =
    PersJson
  | PersHex
  | PersRevisionNotFound nat
  | PersTreeNotFound
  | PersBlobNotFound
  | PersDecode
  | PersPathNotFound

section \<open>Operations\<close>

definition pers_open :: "pers_env \<Rightarrow> string \<Rightarrow> int \<Rightarrow> pers_disk \<Rightarrow> pers_error + pers_repo" where
  "pers_open E fresh_uuid now d =
     (case pd_meta d of
        Some txt \<Rightarrow>
          rbind (ok_or PersJson (dec_meta E txt)) (\<lambda>m.
            Inr \<lparr>p_disk = d, p_objects = [], p_commits = [], p_path_index = [], p_meta = m\<rparr>)
      | None \<Rightarrow>
          (let m = \<lparr>pm_uuid = fresh_uuid, pm_current_rev = 0, pm_created_at = now\<rparr>
           in Inr \<lparr>p_disk = d\<lparr>pd_meta := Some (enc_meta E m)\<rparr>, p_objects = [], p_commits = [], p_path_index = [], p_meta = m\<rparr>))"

definition save_to_disk :: "pers_env \<Rightarrow> pers_repo \<Rightarrow> pers_repo" where
  "save_to_disk E s =
     s\<lparr>p_disk := \<lparr>pd_meta = Some (enc_meta E (p_meta s)), pd_commits = Some (enc_commits E (p_commits s)),
        pd_objects = Some (enc_objects E (fold (\<lambda>(i, d) m. oput (to_hex E i) d m) (p_objects s) []))\<rparr>\<rparr>"

fun ids_from_hex :: "pers_env \<Rightarrow> (string \<times> bytes) list \<Rightarrow> (object_id, bytes) omap \<Rightarrow> pers_error + (object_id, bytes) omap" where
  "ids_from_hex E [] acc = Inr acc"
| "ids_from_hex E ((h, d) # rest) acc =
     (case from_hex E h of Inl _ \<Rightarrow> Inl PersHex | Inr i \<Rightarrow> ids_from_hex E rest (oput i d acc))"

definition load_from_disk :: "pers_env \<Rightarrow> pers_repo \<Rightarrow> pers_repo \<times> (pers_error + unit)" where
  "load_from_disk E s =
     (case rbind (case pd_commits (p_disk s) of None \<Rightarrow> Inr [] | Some txt \<Rightarrow> ok_or PersJson (dec_commits E txt)) (\<lambda>cs.
             rbind (case pd_objects (p_disk s) of None \<Rightarrow> Inr [] | Some txt \<Rightarrow> ok_or PersJson (dec_objects E txt)) (\<lambda>hs.
               rbind (ids_from_hex E hs []) (\<lambda>os. Inr (cs, os)))) of
        Inl e \<Rightarrow> (s, Inl e)
      | Inr (cs, os) \<Rightarrow>
          (let s1 = (if cs = [] then s else s\<lparr>p_commits := cs\<rparr>);
               s2 = (if os = [] then s1 else s1\<lparr>p_objects := os\<rparr>)
           in (s2, Inr ())))"

definition pers_initialize :: "pers_env \<Rightarrow> int \<Rightarrow> pers_repo \<Rightarrow> pers_repo \<times> (pers_error + unit)" where
  "pers_initialize E now s =
     (if pd_commits (p_disk s) \<noteq> None then load_from_disk E s
      else let tid = tree_obj_id E tree_new;
               s1 = s\<lparr>p_objects := oput tid (tree_to_bytes E tree_new) (p_objects s)\<rparr>;
               c = commit_new tid [] ''system'' ''Initial commit'' now 0;
               s2 = s1\<lparr>p_commits := oput 0 c (p_commits s1), p_meta := (p_meta s1)\<lparr>pm_current_rev := 0\<rparr>\<rparr>
           in (save_to_disk E s2, Inr ()))"

definition pers_add_file :: "pers_env \<Rightarrow> string \<Rightarrow> bytes \<Rightarrow> bool \<Rightarrow> pers_repo \<Rightarrow> pers_repo \<times> object_id" where
  "pers_add_file E path content executable s =
     (let b = blob_new content False; bid = blob_id E b;
          s1 = s\<lparr>p_objects := oput bid (blob_to_bytes E b) (p_objects s), p_path_index := oput path bid (p_path_index s)\<rparr>
      in (save_to_disk E s1, bid))"

fun pers_nav :: "pers_env \<Rightarrow> pers_repo \<Rightarrow> string list \<Rightarrow> tree \<Rightarrow> pers_error + bytes" where
  "pers_nav E s [] t = Inl PersPathNotFound"
| "pers_nav E s (part # rest) t =
     (if part = [] then pers_nav E s rest t
      else case tree_get t part of
             None \<Rightarrow> pers_nav E s rest t
           | Some e \<Rightarrow>
               if rest = [] then
                 rbind (ok_or PersBlobNotFound (map_of (p_objects s) (te_id e))) (\<lambda>bs.
                   rbind (ok_or PersDecode (blob_deserialize E bs)) (\<lambda>b. Inr (blob_data b)))
               else rbind (ok_or PersTreeNotFound (map_of (p_objects s) (te_id e))) (\<lambda>bs.
                      rbind (ok_or PersDecode (de_tree E bs)) (pers_nav E s rest)))"

text \<open>Reading loads the files first when no commit is in memory.\<close>

definition ensure_loaded :: "pers_env \<Rightarrow> pers_repo \<Rightarrow> pers_repo \<times> (pers_error + unit)" where
  "ensure_loaded E s = (if p_commits s = [] then load_from_disk E s else (s, Inr ()))"

definition pers_get_file :: "pers_env \<Rightarrow> string \<Rightarrow> nat \<Rightarrow> pers_repo \<Rightarrow> pers_repo \<times> (pers_error + bytes)" where
  "pers_get_file E path r s =
     (case ensure_loaded E s of
        (s1, Inl e) \<Rightarrow> (s1, Inl e)
      | (s1, Inr _) \<Rightarrow>
          (s1, rbind (ok_or (PersRevisionNotFound r) (map_of (p_commits s1) r)) (\<lambda>c.
                 rbind (ok_or PersTreeNotFound (map_of (p_objects s1) (tree_id c))) (\<lambda>bs.
                   rbind (ok_or PersDecode (de_tree E bs))
                     (pers_nav E s1 (split CHR ''/'' (trim_start_matches CHR ''/'' path)))))))"

definition pers_commit :: "pers_env \<Rightarrow> string \<Rightarrow> string \<Rightarrow> int \<Rightarrow> pers_repo \<Rightarrow> pers_repo \<times> nat" where
  "pers_commit E a m ts s =
     (let tid = tree_obj_id E tree_new;
          s1 = s\<lparr>p_objects := oput tid (tree_to_bytes E tree_new) (p_objects s)\<rparr>;
          cr = pm_current_rev (p_meta s1);
          ps = (if cr > 0 then unwrap_or [] (map_option (\<lambda>c. [commit_id E c]) (map_of (p_commits s1) cr)) else []);
          c = commit_new tid ps a m ts 0;
          s2 = s1\<lparr>p_commits := oput (cr + 1) c (p_commits s1), p_meta := (p_meta s1)\<lparr>pm_current_rev := cr + 1\<rparr>\<rparr>
      in (save_to_disk E s2, cr + 1))"

fun pers_log_loop :: "pers_repo \<Rightarrow> nat \<Rightarrow> nat list \<Rightarrow> commit list \<Rightarrow> commit list" where
  "pers_log_loop s limit [] acc = acc"
| "pers_log_loop s limit (r # rs) acc =
     (if limit \<le> length acc then acc
      else pers_log_loop s limit rs (case map_of (p_commits s) r of Some c \<Rightarrow> acc @ [c] | None \<Rightarrow> acc))"

definition pers_log :: "pers_env \<Rightarrow> nat \<Rightarrow> nat \<Rightarrow> pers_repo \<Rightarrow> pers_repo \<times> (pers_error + commit list)" where
  "pers_log E start_rev limit s =
     (case ensure_loaded E s of
        (s1, Inl e) \<Rightarrow> (s1, Inl e)
      | (s1, Inr _) \<Rightarrow> (s1, Inr (pers_log_loop s1 limit (rev [0..<Suc start_rev]) [])))"

section \<open>Persistence\<close>

definition pers_ok :: "pers_env \<Rightarrow> pers_repo \<Rightarrow> bool" where
  "pers_ok E s \<longleftrightarrow> omap_ok (p_objects s) \<and> omap_ok (p_commits s) \<and> p_commits s \<noteq> [] \<and> p_objects s \<noteq> [] \<and>
     (\<forall>i \<in> fst ` set (p_objects s). oid_ok i) \<and>
     (\<forall>r c. map_of (p_commits s) r = Some c \<longrightarrow> tree_id c = tree_obj_id E tree_new) \<and>
     map_of (p_objects s) (tree_obj_id E tree_new) = Some (ser_tree E tree_new)"

lemma pers_to_hex_inject:
  assumes "externals_ok E"
  shows "to_hex E i = to_hex E j \<longleftrightarrow> i = j"
proof
  assume "to_hex E i = to_hex E j"
  then have "hex_decode E (to_hex E i) = hex_decode E (to_hex E j)" by simp
  with externals_okD(2) [OF assms] show "i = j" by (simp add: to_hex_def object_id.expand)
qed simp

lemma from_to_hex: "externals_ok E \<Longrightarrow> oid_ok i \<Longrightarrow> from_hex E (to_hex E i) = Inr i"
  by (simp add: from_hex_def to_hex_def externals_okD(2) oid_ok_def)

lemma ids_from_hex_ok:
  assumes "externals_ok E" and "\<forall>x \<in> set os. oid_ok (fst x)" and "omap_ok acc"
  shows "\<exists>res. ids_from_hex E (map (\<lambda>x. (to_hex E (fst x), snd x)) os) acc = Inr res \<and> omap_ok res \<and>
           map_of res = map_of acc ++ map_of (rev os)"
  using assms(2,3)
proof (induction os arbitrary: acc)
  case (Cons x os)
  obtain i d where x: "x = (i, d)" by (cases x)
  then obtain res where "ids_from_hex E (map (\<lambda>x. (to_hex E (fst x), snd x)) os) (oput i d acc) = Inr res" "omap_ok res"
    "map_of res = map_of (oput i d acc) ++ map_of (rev os)"
    using Cons.IH [of "oput i d acc"] Cons.prems by auto
  moreover have "map_of (oput i d acc) ++ map_of (rev os) = map_of acc ++ map_of (rev (x # os))"
    by (simp add: x map_of_oput)
  ultimately show ?case using Cons.prems x by (simp add: from_to_hex [OF assms(1)])
qed simp

lemma hex_map_sorted:
  assumes "externals_ok E" and "omap_ok objs"
  defines "hs \<equiv> fold (\<lambda>(i, d) m. oput (to_hex E i) d m) objs []"
  obtains os where "hs = map (\<lambda>x. (to_hex E (fst x), snd x)) os" and "distinct (map fst os)" and "set os = set objs"
proof -
  have dist: "distinct (map (\<lambda>x. to_hex E (fst x)) objs)"
    using omap_ok_distinct [OF assms(2)] pers_to_hex_inject [OF assms(1)] by (auto simp: distinct_map inj_on_def)
  have ok: "omap_ok hs" unfolding hs_def case_prod_unfold by (rule fold_oput_ok) simp
  have m: "map_of hs = map_of (map (\<lambda>x. (to_hex E (fst x), snd x)) objs)"
    unfolding hs_def case_prod_unfold using map_of_fold_oput [OF dist, of snd "[]"] by simp
  have sh: "set hs = set (map (\<lambda>x. (to_hex E (fst x), snd x)) objs)"
    using m map_of_inject_set [of hs "map (\<lambda>x. (to_hex E (fst x), snd x)) objs"] omap_ok_distinct [OF ok] dist
    by (simp add: comp_def)
  define os where "os = map (\<lambda>y. (ObjectId (the (hex_decode E (fst y))), snd y)) hs"
  have undo: "ObjectId (the (hex_decode E (to_hex E i))) = i" for i
    by (simp add: to_hex_def externals_okD(2) [OF assms(1)])
  have hs: "hs = map (\<lambda>x. (to_hex E (fst x), snd x)) os"
    unfolding os_def map_map comp_def
    by (rule map_idI [symmetric]) (use sh undo in auto)
  moreover have "set os = set objs" unfolding os_def using sh undo by (auto simp: image_image)
  moreover have "distinct (map fst os)"
    using omap_ok_distinct [OF ok] unfolding hs by (auto simp: distinct_map comp_inj_on_iff inj_on_def)
  ultimately show ?thesis using that by blast
qed

lemma load_saved:
  assumes "pers_env_ok E" and "pers_ok E s" and "p_disk s = p_disk (save_to_disk E s)"
    and "p_disk t = p_disk s"
  shows "load_from_disk E t = (t\<lparr>p_commits := p_commits s, p_objects := p_objects s\<rparr>, Inr ())"
proof -
  have e: "externals_ok E" using assms(1) by (simp add: pers_env_ok_def)
  have s: "omap_ok (p_objects s)" "p_commits s \<noteq> []" "p_objects s \<noteq> []" "\<forall>i \<in> fst ` set (p_objects s). oid_ok i"
    using assms(2) by (simp_all add: pers_ok_def)
  obtain os where hs: "fold (\<lambda>(i, d) m. oput (to_hex E i) d m) (p_objects s) [] = map (\<lambda>x. (to_hex E (fst x), snd x)) os"
    and d: "distinct (map fst os)" "set os = set (p_objects s)"
    using hex_map_sorted [OF e s(1)] .
  obtain res where r: "ids_from_hex E (map (\<lambda>x. (to_hex E (fst x), snd x)) os) [] = Inr res" "omap_ok res" "map_of res = map_of (rev os)"
    using ids_from_hex_ok [OF e, of os "[]"] s(4) d(2) by auto
  have "map_of (rev os) = map_of (p_objects s)"
    using d omap_ok_distinct [OF s(1)] map_of_inject_set [of "rev os" "p_objects s"] by (simp add: rev_map [symmetric])
  with r s(1) have "res = p_objects s" by (intro omap_eqI) simp_all
  moreover have "pd_commits (p_disk t) = Some (enc_commits E (p_commits s))"
    "pd_objects (p_disk t) = Some (enc_objects E (map (\<lambda>x. (to_hex E (fst x), snd x)) os))"
    using assms(3,4) hs by (simp_all add: save_to_disk_def)
  moreover have "dec_commits E (enc_commits E cs) = Some cs" "dec_objects E (enc_objects E x) = Some x" for cs x
    using assms(1) by (simp_all add: pers_env_ok_def)
  ultimately show ?thesis
    using r(1) s(2,3) by (simp add: load_from_disk_def Let_def)
qed

section \<open>The invariant of every history\<close>

datatype pers_op =
    PAdd string bytes bool
  | PCommit string string int

fun pers_step :: "pers_env \<Rightarrow> pers_op \<Rightarrow> pers_repo \<Rightarrow> pers_repo" where
  "pers_step E (PAdd p d x) s = fst (pers_add_file E p d x s)"
| "pers_step E (PCommit a m ts) s = fst (pers_commit E a m ts s)"

text \<open>No added content has the hash of the empty tree.\<close>

fun op_fresh :: "pers_env \<Rightarrow> pers_op \<Rightarrow> bool" where
  "op_fresh E (PAdd p d x) \<longleftrightarrow> from_data E d \<noteq> tree_obj_id E tree_new"
| "op_fresh E (PCommit a m ts) \<longleftrightarrow> True"

definition pers_start :: "pers_env \<Rightarrow> string \<Rightarrow> int \<Rightarrow> pers_repo" where
  "pers_start E u now =
     (case pers_open E u now \<lparr>pd_meta = None, pd_commits = None, pd_objects = None\<rparr> of
        Inr s \<Rightarrow> fst (pers_initialize E now s))"

definition saved :: "pers_env \<Rightarrow> pers_repo \<Rightarrow> bool" where
  "saved E s \<longleftrightarrow> p_disk s = p_disk (save_to_disk E s)"

lemma saved_save [simp]: "saved E (save_to_disk E s)"
  by (simp add: saved_def save_to_disk_def)

lemma save_frame [simp]:
  "p_objects (save_to_disk E s) = p_objects s" "p_commits (save_to_disk E s) = p_commits s"
  "p_meta (save_to_disk E s) = p_meta s"
  by (simp_all add: save_to_disk_def)

lemma pers_ok_save [simp]: "pers_ok E (save_to_disk E s) = pers_ok E s"
  by (simp add: pers_ok_def)

lemma oput_ne_Nil [simp]: "oput k v m \<noteq> []"
  by (cases "(k, v, m)" rule: oput.cases) auto

lemma pers_ok_put_object:
  assumes "pers_ok E s" and "oid_ok i" and "i = tree_obj_id E tree_new \<Longrightarrow> bs = ser_tree E tree_new"
  shows "pers_ok E (s\<lparr>p_objects := oput i bs (p_objects s)\<rparr>)"
  using assms by (auto simp: pers_ok_def set_oput_keys omap_simps)

lemma pers_ok_put_commit:
  assumes "pers_ok E s" and "tree_id c = tree_obj_id E tree_new"
  shows "pers_ok E (s\<lparr>p_commits := oput r c (p_commits s), p_meta := m\<rparr>)"
  using assms by (auto simp: pers_ok_def omap_simps)

lemma pers_ok_start:
  assumes "pers_env_ok E"
  shows "pers_ok E (pers_start E u now)" and "saved E (pers_start E u now)"
  using assms
  by (simp_all add: pers_start_def pers_open_def pers_initialize_def Let_def)
    (simp add: pers_ok_def pers_env_ok_def tree_obj_id_def tree_to_bytes_def commit_new_def omap_ok_def)

lemma pers_ok_index [simp]: "pers_ok E (s\<lparr>p_path_index := x\<rparr>) = pers_ok E s"
  by (simp add: pers_ok_def)

lemma pers_step_ok:
  assumes "pers_env_ok E" and "op_fresh E a" and "pers_ok E s"
  shows "pers_ok E (pers_step E a s) \<and> saved E (pers_step E a s)"
proof -
  have e: "externals_ok E" using assms(1) by (simp add: pers_env_ok_def)
  show ?thesis
  proof (cases a)
    case (PAdd p d x)
    have "pers_ok E (s\<lparr>p_objects := oput (from_data E d) (blob_to_bytes E (blob_new d False)) (p_objects s)\<rparr>)"
      by (rule pers_ok_put_object [OF assms(3)]) (use e assms(2) PAdd in simp_all)
    then have "pers_ok E (s\<lparr>p_objects := oput (from_data E d) (blob_to_bytes E (blob_new d False)) (p_objects s), p_path_index := y\<rparr>)" for y
      by (simp add: pers_ok_def)
    then show ?thesis by (simp add: PAdd pers_add_file_def Let_def)
  next
    case (PCommit u m ts)
    have "pers_ok E (s\<lparr>p_objects := oput (tree_obj_id E tree_new) (tree_to_bytes E tree_new) (p_objects s)\<rparr>)"
      by (rule pers_ok_put_object [OF assms(3)]) (use e in \<open>simp_all add: tree_obj_id_def tree_to_bytes_def\<close>)
    from pers_ok_put_commit [OF this] show ?thesis
      by (simp add: PCommit pers_commit_def Let_def commit_new_def)
  qed
qed

lemma pers_run_ok:
  assumes "pers_env_ok E" and "\<forall>a \<in> set ops. op_fresh E a" and "pers_ok E s" and "saved E s"
  shows "pers_ok E (fold (pers_step E) ops s) \<and> saved E (fold (pers_step E) ops s)"
  using assms(2-4)
proof (induction ops arbitrary: s)
  case (Cons a ops)
  with pers_step_ok [OF assms(1), of a s] show ?case by simp
qed simp

lemma pers_nav_empty: "pers_nav E s parts tree_new = Inl PersPathNotFound"
  by (induction parts) (simp_all add: tree_get_def tree_new_def)

text \<open>
  Persistence: after any sequence of additions and commits, a new process that opens the
  directory and initialises finds the same revision counter and UUID, the same commits and the
  same objects.
\<close>

theorem persistent_reopen:
  assumes "pers_env_ok E" and "\<forall>a \<in> set ops. op_fresh E a"
  shows "let s = fold (pers_step E) ops (pers_start E u now) in
    \<exists>t t'. pers_open E u' now' (p_disk s) = Inr t \<and> pers_initialize E now' t = (t', Inr ()) \<and>
      p_meta t' = p_meta s \<and> p_commits t' = p_commits s \<and> p_objects t' = p_objects s"
proof -
  let ?s = "fold (pers_step E) ops (pers_start E u now)"
  have ok: "pers_ok E ?s" and sv: "p_disk ?s = p_disk (save_to_disk E ?s)"
    using pers_run_ok [OF assms pers_ok_start [OF assms(1)]] by (simp_all add: saved_def)
  let ?t = "\<lparr>p_disk = p_disk ?s, p_objects = [], p_commits = [], p_path_index = [], p_meta = p_meta ?s\<rparr>"
  have "pd_meta (p_disk ?s) = Some (enc_meta E (p_meta ?s))" "pd_commits (p_disk ?s) \<noteq> None"
    by (subst sv, simp add: save_to_disk_def)+
  with assms(1) have "pers_open E u' now' (p_disk ?s) = Inr ?t" "pd_commits (p_disk ?t) \<noteq> None"
    by (simp_all add: pers_open_def pers_env_ok_def)
  with load_saved [OF assms(1) ok sv, of ?t] show ?thesis
    by (simp add: Let_def pers_initialize_def)
qed

text \<open>
  No file is ever readable: after any sequence of additions and commits, whatever was
  added, reading any path at any revision fails, because every commit records the empty tree.
\<close>

theorem persistent_never_reads:
  assumes "pers_env_ok E" and "\<forall>a \<in> set ops. op_fresh E a"
  shows "\<exists>e. snd (pers_get_file E path r (fold (pers_step E) ops (pers_start E u now))) = Inl e"
proof -
  let ?s = "fold (pers_step E) ops (pers_start E u now)"
  have ok: "pers_ok E ?s" using pers_run_ok [OF assms pers_ok_start [OF assms(1)]] by simp
  then have ld: "ensure_loaded E ?s = (?s, Inr ())" by (simp add: ensure_loaded_def pers_ok_def)
  show ?thesis
  proof (cases "map_of (p_commits ?s) r")
    case None
    with ld show ?thesis by (simp add: pers_get_file_def)
  next
    case (Some c)
    with ok have "tree_id c = tree_obj_id E tree_new" "map_of (p_objects ?s) (tree_obj_id E tree_new) = Some (ser_tree E tree_new)"
      by (simp_all add: pers_ok_def)
    moreover have "de_tree E (ser_tree E tree_new) = Some tree_new"
      using assms(1) externals_okD(4) [of E tree_new] by (simp add: pers_env_ok_def tree_new_def)
    ultimately show ?thesis using Some ld by (simp add: pers_get_file_def pers_nav_empty)
  qed
qed

section \<open>Witnesses\<close>

definition meta_code :: "repo_meta \<Rightarrow> string \<times> nat \<times> int" where
  "meta_code m = (pm_uuid m, pm_current_rev m, pm_created_at m)"

definition meta_uncode :: "string \<times> nat \<times> int \<Rightarrow> repo_meta" where
  "meta_uncode = (\<lambda>(u, r, c). \<lparr>pm_uuid = u, pm_current_rev = r, pm_created_at = c\<rparr>)"

definition sample_pers :: pers_env where
  "sample_pers = externals.extend (externals.truncate sample)
     \<lparr>enc_meta = text_enc (enc_pair enc_string (enc_pair enc_nat enc_int) \<circ> meta_code),
      dec_meta = text_dec (dec_map meta_uncode (dec_pair dec_string (dec_pair dec_nat dec_int))),
      enc_commits = text_enc (enc_list (enc_pair enc_nat enc_commit)),
      dec_commits = text_dec (dec_list (dec_pair dec_nat dec_commit)),
      enc_objects = text_enc (enc_list (enc_pair enc_string enc_bytes)),
      dec_objects = text_dec (dec_list (dec_pair dec_string dec_bytes))\<rparr>"

lemma sample_pers_ok: "pers_env_ok sample_pers"
proof -
  have m: "codec (enc_pair enc_string (enc_pair enc_nat enc_int) \<circ> meta_code)
      (dec_map meta_uncode (dec_pair dec_string (dec_pair dec_nat dec_int)))"
    by (intro codec_intros) (simp add: meta_code_def meta_uncode_def)
  have c: "codec (enc_list (enc_pair enc_nat enc_commit)) (dec_list (dec_pair dec_nat dec_commit))"
    and o: "codec (enc_list (enc_pair enc_string enc_bytes)) (dec_list (dec_pair dec_string dec_bytes))"
    by (intro codec_intros codec_commit)+
  have "externals_ok sample_pers = externals_ok sample"
    unfolding externals_ok_def sample_pers_def externals.defs by simp
  then have "externals_ok sample_pers" using sample_ok by (simp add: env_ok_def)
  then show ?thesis
    by (simp add: pers_env_ok_def) (simp add: sample_pers_def externals.defs text_dec_enc [OF m] text_dec_enc [OF c] text_dec_enc [OF o])
qed

lemma sample_pers_fresh: "op_fresh sample_pers (PAdd ''a'' [104, 105] False)"
proof -
  have "hd (pad32 [104, 105]) = 105" by (simp add: pad32_def)
  then have "pad32 [104, 105] \<noteq> pad32 (enc_tree tree_new)" using hash_lf(2) by auto
  then show ?thesis by (simp add: from_data_def tree_obj_id_def sample_pers_def externals.defs sample_def)
qed

definition sample_ops :: "pers_op list" where
  "sample_ops = [PAdd ''a'' [104, 105] False, PCommit ''ann'' ''m'' 0]"

lemma sample_ops_fresh: "\<forall>x \<in> set sample_ops. op_fresh sample_pers x"
  using sample_pers_fresh by (simp add: sample_ops_def del: op_fresh.simps(1))

theorem persistent_reopen_witness:
  "pers_env_ok sample_pers \<and> list_all (op_fresh sample_pers) sample_ops \<and>
   (\<exists>t t'. pers_open sample_pers ''v'' 9 (p_disk (fold (pers_step sample_pers) sample_ops (pers_start sample_pers ''u'' 0))) = Inr t \<and>
     pers_initialize sample_pers 9 t = (t', Inr ()))"
  using persistent_reopen [OF sample_pers_ok sample_ops_fresh, of "''u''" 0 "''v''" 9] sample_pers_ok sample_ops_fresh
  by (auto simp: Let_def list_all_iff)

theorem persistent_never_reads_witness:
  "pers_env_ok sample_pers \<and> list_all (op_fresh sample_pers) sample_ops \<and>
   (\<exists>e. snd (pers_get_file sample_pers ''/a'' 1 (fold (pers_step sample_pers) sample_ops (pers_start sample_pers ''u'' 0))) = Inl e)"
  using persistent_never_reads [OF sample_pers_ok sample_ops_fresh, of "''/a''" 1 "''u''" 0] sample_pers_ok sample_ops_fresh
  unfolding list_all_iff by blast

end
