(* ===== verification/Svndiff.thy ===== *)
theory Svndiff
  imports Prelude
begin

text \<open>
  The svndiff reader of the \<open>PUT\<close> handler, \<open>dsvn-webdav/src/handlers.rs\<close>: \<open>read_varint\<close> and
  \<open>decode_svndiff\<close>. Numbers read from the body are 64-bit words; \<open>usize\<close> sums wrap, as in the
  release profile, and a slice with its bounds the wrong way round panics, which is \<open>None\<close>
  (the debug profile panics at the sum itself). A reference encoder for full texts, in the
  layout of the svndiff format, states what the reader is for.
\<close>

unbundle bit_operations_syntax

section \<open>Variable-length numbers\<close>

function read_varint_loop :: "bytes \<Rightarrow> 64 word \<Rightarrow> nat \<Rightarrow> 64 word \<times> nat" where
  "read_varint_loop data result p =
     (if p \<ge> length data then (result, p)
      else let byte = data ! p;
               result' = push_bit 7 result OR ucast (byte AND 0x7f)
           in if byte AND 0x80 = 0 then (result', p + 1) else read_varint_loop data result' (p + 1))"
  by pat_completeness auto
termination by (relation "measure (\<lambda>(data, _, p). length data - p)") auto

declare read_varint_loop.simps [simp del]

definition read_varint :: "bytes \<Rightarrow> nat \<Rightarrow> 64 word \<times> nat" where
  "read_varint data pos = read_varint_loop data 0 pos"

lemma read_varint_loop_pos: "p \<le> snd (read_varint_loop data r p)"
proof (induction data r p rule: read_varint_loop.induct)
  case (1 data result p)
  then show ?case by (subst read_varint_loop.simps) (auto simp: Let_def intro: Suc_leD)
qed

lemma read_varint_pos: "p \<le> snd (read_varint data p)"
  by (simp add: read_varint_def read_varint_loop_pos)

lemma read_varint_advances:
  assumes "p < length data"
  shows "p < snd (read_varint data p)"
  using assms read_varint_loop_pos [of "p + 1" data]
  by (simp add: read_varint_def read_varint_loop.simps [of data _ p] Let_def Suc_le_eq)

lemma read_varint_lt: "p < length data \<Longrightarrow> read_varint data p = (v, q) \<Longrightarrow> p < q"
  using read_varint_advances [of p data] by simp

lemma read_varint_le: "read_varint data p = (v, q) \<Longrightarrow> p \<le> q"
  using read_varint_pos [of p data] by simp

section \<open>Decoding\<close>

definition usize_add :: "nat \<Rightarrow> nat \<Rightarrow> nat" where
  "usize_add a b = (a + b) mod 2 ^ 64"

definition slice :: "nat \<Rightarrow> nat \<Rightarrow> bytes \<Rightarrow> bytes" where
  "slice i j xs = take (j - i) (drop i xs)"

text \<open>The length of an instruction: its low six bits, or a number behind it when they are zero.\<close>

definition instr_length :: "bytes \<Rightarrow> nat \<Rightarrow> 64 word \<times> nat" where
  "instr_length instructions ipos =
     (let length0 = (ucast (instructions ! ipos AND 0x3f) :: 64 word) in
      if length0 = 0 then read_varint instructions (ipos + 1) else (length0, ipos + 1))"

lemma instr_length_advances: "instr_length instructions ipos = (len, ip) \<Longrightarrow> ipos < ip"
  by (auto simp: instr_length_def Let_def split: if_splits dest!: read_varint_le)

function run_instructions :: "bytes \<Rightarrow> bytes \<Rightarrow> nat \<Rightarrow> nat \<Rightarrow> bytes \<Rightarrow> bytes option" where
  "run_instructions instructions new_data ipos nd_off result =
     (if ipos < length instructions then
        let opcode = drop_bit 6 (instructions ! ipos) AND 0x03;
            (len, ip) = instr_length instructions ipos
        in if opcode = 0 \<or> opcode = 1 then
             run_instructions instructions new_data (snd (read_varint instructions ip)) nd_off result
           else if opcode = 2 then
             (let e = usize_add nd_off (unat len) in
              if e \<le> length new_data then
                (if nd_off \<le> e
                 then run_instructions instructions new_data ip e (result @ slice nd_off e new_data)
                 else None)
              else run_instructions instructions new_data ip e result)
           else run_instructions instructions new_data ip nd_off result
      else Some result)"
  by pat_completeness auto
termination
proof (relation "measure (\<lambda>(instructions, _, ipos, _). length instructions - ipos)", goal_cases)
  case (2 instructions new_data ipos nd_off result opcode x len ip)
  then have "ipos < snd (read_varint instructions ip)"
    using instr_length_advances [of instructions ipos len ip] read_varint_pos [of ip instructions] by simp
  with 2 show ?case by simp
qed (auto dest!: instr_length_advances [OF sym])

declare run_instructions.simps [simp del]

text \<open>
  The five numbers that open a window; \<open>None\<close> when the body ends among them. The source offset,
  the source length and the target length are read and dropped.
\<close>

definition window_header :: "bytes \<Rightarrow> nat \<Rightarrow> (nat \<times> nat \<times> nat) option" where
  "window_header data pos =
     (let (_, p1) = read_varint data pos in
      if p1 \<ge> length data then None else
      let (_, p2) = read_varint data p1 in
      if p2 \<ge> length data then None else
      let (_, p3) = read_varint data p2 in
      if p3 \<ge> length data then None else
      let (instr_len, p4) = read_varint data p3 in
      if p4 \<ge> length data then None else
      let (new_data_len, instr_start) = read_varint data p4
      in Some (unat instr_len, unat new_data_len, instr_start))"

lemma window_header_advances:
  assumes "window_header data pos = Some (il, nl, i)" and "pos < length data"
  shows "pos < i"
proof -
  have "pos < snd (read_varint data pos)" by (rule read_varint_advances [OF assms(2)])
  also note read_varint_pos [of "snd (read_varint data pos)" data]
  also note read_varint_pos [of "snd (read_varint data (snd (read_varint data pos)))" data]
  finally show ?thesis
    using assms(1)
    by (auto simp: window_header_def Let_def split: prod.splits if_splits dest!: read_varint_le)
qed

function decode_windows :: "bytes \<Rightarrow> nat \<Rightarrow> bytes \<Rightarrow> bytes option" where
  "decode_windows data pos result =
     (if pos < length data then
        (case window_header data pos of
           None \<Rightarrow> Some result
         | Some (instr_len, new_data_len, instr_start) \<Rightarrow>
             let new_data_start = usize_add instr_start instr_len;
                 new_data_end = usize_add new_data_start new_data_len
             in if new_data_end > length data then
                  Some (if new_data_start < length data then result @ drop new_data_start data else result)
                else if instr_start \<le> new_data_start \<and> new_data_start \<le> new_data_end then
                  (case run_instructions (slice instr_start new_data_start data)
                          (slice new_data_start new_data_end data) 0 0 result of
                     None \<Rightarrow> None
                   | Some r \<Rightarrow> decode_windows data new_data_end r)
                else None)
      else Some result)"
  by pat_completeness auto
termination
  by (relation "measure (\<lambda>(data, pos, _). length data - pos)")
    (auto dest!: window_header_advances)

declare decode_windows.simps [simp del]

definition decode_svndiff :: "bytes \<Rightarrow> bytes option" where
  "decode_svndiff data =
     (if length data < 4 \<or> take 3 data \<noteq> [0x53, 0x56, 0x4E] then Some data
      else decode_windows data 4 [])"

section \<open>A reference encoder\<close>

text \<open>Big-endian base 128, every byte but the last with its high bit set.\<close>

fun varint_cont :: "nat \<Rightarrow> bytes" where
  "varint_cont n = (if n = 0 then [] else varint_cont (n div 128) @ [word_of_nat (128 + n mod 128)])"

declare varint_cont.simps [simp del]

definition enc_varint :: "nat \<Rightarrow> bytes" where
  "enc_varint n = varint_cont (n div 128) @ [word_of_nat (n mod 128)]"

text \<open>One window that inserts its new data, and a full text cut into windows.\<close>

definition enc_insert :: "nat \<Rightarrow> bytes" where
  "enc_insert n = (if 0 < n \<and> n < 64 then [word_of_nat (128 + n)] else 128 # enc_varint n)"

definition enc_window :: "bytes \<Rightarrow> bytes" where
  "enc_window w =
     enc_varint 0 @ enc_varint 0 @ enc_varint (length w) @ enc_varint (length (enc_insert (length w))) @
     enc_varint (length w) @ enc_insert (length w) @ w"

definition enc_svndiff :: "bytes list \<Rightarrow> bytes" where
  "enc_svndiff ws = [0x53, 0x56, 0x4E, 0] @ concat (map enc_window ws)"

text \<open>A digit with and without the continuation bit, checked for all 128 of them.\<close>

lemma digit_bytes:
  "\<forall>d \<in> set [0..<128]. (word_of_nat (128 + d) :: byte) AND 0x80 \<noteq> 0 \<and> (word_of_nat d :: byte) AND 0x80 = 0 \<and>
     (word_of_nat (128 + d) :: byte) AND 0x7f = word_of_nat d \<and> (word_of_nat d :: byte) AND 0x7f = word_of_nat d"
  by code_simp

lemma digit_byte:
  assumes "d < 128"
  shows "(word_of_nat (128 + d) :: byte) AND 0x80 \<noteq> 0" and "(word_of_nat d :: byte) AND 0x80 = 0"
    and "(word_of_nat (128 + d) :: byte) AND 0x7f = word_of_nat d" and "(word_of_nat d :: byte) AND 0x7f = word_of_nat d"
  using bspec [OF digit_bytes, of d] assms by simp_all

lemma varint_step:
  assumes "d < 128"
  shows "push_bit 7 (word_of_nat m :: 64 word) OR ucast (word_of_nat d :: byte) = word_of_nat (128 * m + d)"
proof -
  have u: "(ucast (word_of_nat d :: byte) :: 64 word) = word_of_nat d"
    using assms by (simp add: unsigned_of_nat take_bit_nat_eq_self)
  have "take_bit 7 d = d" using assms by (simp add: take_bit_nat_eq_self)
  then have "\<not> bit d n" if "7 \<le> n" for n
    using that bit_take_bit_iff [of 7 d n] by simp
  then have "push_bit 7 (word_of_nat m :: 64 word) AND word_of_nat d = 0"
    by (auto simp: bit_eq_iff bit_simps)
  from disjunctive_add_eq_or [OF this] show ?thesis by (simp add: u push_bit_eq_mult mult.commute)
qed

text \<open>Reading back a number that stands anywhere in the data.\<close>

lemma read_varint_cont:
  "read_varint_loop (pre @ varint_cont n @ rest) 0 (length pre) =
   read_varint_loop (pre @ varint_cont n @ rest) (word_of_nat n) (length pre + length (varint_cont n))"
proof (induction n arbitrary: rest rule: varint_cont.induct)
  case (1 n)
  show ?case
  proof (cases "n = 0")
    case False
    let ?c = "varint_cont (n div 128)" and ?b = "word_of_nat (128 + n mod 128) :: byte"
    have e: "varint_cont n = ?c @ [?b]" using False by (simp add: varint_cont.simps [of n])
    have "read_varint_loop (pre @ ?c @ ?b # rest) 0 (length pre) =
          read_varint_loop (pre @ ?c @ ?b # rest) (word_of_nat (n div 128)) (length pre + length ?c)"
      using "1.IH" [OF False] .
    also have "\<dots> = read_varint_loop (pre @ ?c @ ?b # rest) (word_of_nat n) (length pre + length ?c + 1)"
      using digit_byte [of "n mod 128"] varint_step [of "n mod 128" "n div 128"]
      by (subst read_varint_loop.simps) (simp add: Let_def nth_append)
    finally show ?thesis by (simp add: e)
  qed (simp add: varint_cont.simps)
qed

lemma read_enc_varint:
  "read_varint (pre @ enc_varint n @ rest) (length pre) = (word_of_nat n, length pre + length (enc_varint n))"
proof -
  let ?c = "varint_cont (n div 128)" and ?b = "word_of_nat (n mod 128) :: byte"
  have "read_varint (pre @ ?c @ ?b # rest) (length pre) =
        read_varint_loop (pre @ ?c @ ?b # rest) (word_of_nat (n div 128)) (length pre + length ?c)"
    unfolding read_varint_def by (rule read_varint_cont)
  also have "\<dots> = (word_of_nat n, length pre + length ?c + 1)"
    using digit_byte [of "n mod 128"] varint_step [of "n mod 128" "n div 128"]
    by (subst read_varint_loop.simps) (simp add: Let_def nth_append)
  finally show ?thesis by (simp add: enc_varint_def)
qed

lemma enc_varint_nonempty [simp]: "enc_varint n \<noteq> []"
  by (simp add: enc_varint_def)

lemma read_enc_varint_at:
  assumes "data = pre @ enc_varint n @ rest" and "p = length pre"
  shows "read_varint data p = (word_of_nat n, p + length (enc_varint n))"
  using read_enc_varint [of pre n rest] assms by simp

section \<open>Decoding what was encoded\<close>

lemma insert_opcodes: "\<forall>n \<in> set [1..<64]. drop_bit 6 (word_of_nat (128 + n) :: byte) AND 3 = 2 \<and>
    (ucast ((word_of_nat (128 + n) :: byte) AND 0x3f) :: 64 word) = word_of_nat n \<and> (word_of_nat n :: 64 word) \<noteq> 0"
  by code_simp

lemma insert_opcode_0: "drop_bit 6 (128 :: byte) AND 3 = 2" "(128 :: byte) AND 0x3f = 0"
  by code_simp+

lemma enc_insert_head: "drop_bit 6 (enc_insert n ! 0) AND 3 = 2" "0 < length (enc_insert n)"
  using bspec [OF insert_opcodes, of n] insert_opcode_0 by (auto simp: enc_insert_def)

lemma enc_insert_length: "instr_length (enc_insert n) 0 = (word_of_nat n, length (enc_insert n))"
proof (cases "0 < n \<and> n < 64")
  case True
  with bspec [OF insert_opcodes, of n] show ?thesis by (simp add: enc_insert_def instr_length_def)
next
  case False
  then have e: "enc_insert n = 128 # enc_varint n" by (auto simp: enc_insert_def)
  show ?thesis
    using read_enc_varint [of "[128]" n "[]"] insert_opcode_0 by (simp add: e instr_length_def)
qed

lemma run_enc_insert:
  assumes "length w < 2 ^ 64"
  shows "run_instructions (enc_insert (length w)) w 0 0 acc = Some (acc @ w)"
  using assms enc_insert_head [of "length w"]
  by (simp add: run_instructions.simps [of _ _ 0] run_instructions.simps [of _ _ "length _"]
      enc_insert_length usize_add_def unat_of_nat slice_def)

lemma window_header_enc:
  assumes "data = pre @ enc_window w @ rest" and "length data < 2 ^ 64"
  shows "window_header data (length pre) =
     Some (length (enc_insert (length w)), length w, length pre + length (enc_window w) - length (enc_insert (length w)) - length w)"
proof -
  let ?n = "enc_varint (length w)" and ?i = "enc_varint (length (enc_insert (length w)))" and ?z = "enc_varint 0"
  have small: "length (enc_insert (length w)) < 2 ^ 64" "length w < 2 ^ 64"
    using assms by (simp_all add: enc_window_def)
  have r1: "read_varint data (length pre) = (0, length (pre @ ?z))"
    using read_enc_varint_at [of data pre 0] assms(1) by (simp add: enc_window_def)
  have r2: "read_varint data (length (pre @ ?z)) = (0, length (pre @ ?z @ ?z))"
    using read_enc_varint_at [of data "pre @ ?z" 0] assms(1) by (simp add: enc_window_def)
  have r3: "read_varint data (length (pre @ ?z @ ?z)) = (word_of_nat (length w), length (pre @ ?z @ ?z @ ?n))"
    using read_enc_varint_at [of data "pre @ ?z @ ?z" "length w"] assms(1) by (simp add: enc_window_def)
  have r4: "read_varint data (length (pre @ ?z @ ?z @ ?n)) =
      (word_of_nat (length (enc_insert (length w))), length (pre @ ?z @ ?z @ ?n @ ?i))"
    using read_enc_varint_at [of data "pre @ ?z @ ?z @ ?n" "length (enc_insert (length w))"] assms(1) by (simp add: enc_window_def)
  have r5: "read_varint data (length (pre @ ?z @ ?z @ ?n @ ?i)) =
      (word_of_nat (length w), length (pre @ ?z @ ?z @ ?n @ ?i @ ?n))"
    using read_enc_varint_at [of data "pre @ ?z @ ?z @ ?n @ ?i" "length w"] assms(1) by (simp add: enc_window_def)
  have lt: "length (pre @ ?z @ ?z @ ?n @ ?i) < length data"
    using assms(1) by (simp add: enc_window_def)
  have eqs: "length pre + length (enc_window w) - length (enc_insert (length w)) - length w =
      length (pre @ ?z @ ?z @ ?n @ ?i @ ?n)"
    by (simp add: enc_window_def)
  show ?thesis
    unfolding window_header_def r1 Let_def prod.case r2 r3 r4 r5 eqs
    using lt small by (simp add: unat_of_nat)
qed

lemma decode_enc_window:
  assumes "data = pre @ enc_window w @ rest" and "length data < 2 ^ 64"
  shows "decode_windows data (length pre) acc = decode_windows data (length (pre @ enc_window w)) (acc @ w)"
proof -
  let ?i = "enc_insert (length w)"
  obtain hdr where hdr: "enc_window w = hdr @ ?i @ w" "0 < length hdr"
    by (auto simp: enc_window_def enc_varint_def intro!: that)
  have h: "window_header data (length pre) = Some (length ?i, length w, length (pre @ hdr))"
    using window_header_enc [OF assms] by (simp add: hdr(1))
  have d: "data = (pre @ hdr) @ ?i @ w @ rest" using assms(1) by (simp add: hdr(1))
  have adds: "usize_add (length (pre @ hdr)) (length ?i) = length (pre @ hdr @ ?i)"
    "usize_add (length (pre @ hdr @ ?i)) (length w) = length (pre @ hdr @ ?i @ w)"
    using assms(2) d by (simp_all add: usize_add_def)
  have slices: "slice (length (pre @ hdr)) (length (pre @ hdr @ ?i)) data = ?i"
    "slice (length (pre @ hdr @ ?i)) (length (pre @ hdr @ ?i @ w)) data = w"
    by (simp_all add: d slice_def)
  have "length w < 2 ^ 64" "length pre < length data" "length (pre @ hdr @ ?i @ w) \<le> length data"
    using assms(2) d hdr(2) by simp_all
  with run_enc_insert [of w acc] show ?thesis
    unfolding decode_windows.simps [of data "length pre"] h option.case prod.case Let_def adds slices
    by (simp add: hdr(1))
qed

lemma decode_enc_windows:
  assumes "data = pre @ concat (map enc_window ws)" and "length data < 2 ^ 64"
  shows "decode_windows data (length pre) acc = Some (acc @ concat ws)"
  using assms(1)
proof (induction ws arbitrary: pre acc)
  case Nil
  then show ?case by (simp add: decode_windows.simps)
next
  case (Cons w ws)
  have "decode_windows data (length pre) acc = decode_windows data (length (pre @ enc_window w)) (acc @ w)"
    using decode_enc_window [of data pre w "concat (map enc_window ws)"] Cons.prems assms(2) by simp
  also have "\<dots> = Some ((acc @ w) @ concat ws)"
    by (rule Cons.IH) (simp add: Cons.prems)
  finally show ?case by simp
qed

text \<open>
  C35. A full text sent as svndiff, cut into any number of windows of any sizes, is decoded to
  exactly that text, as long as the request body is shorter than \<open>2 ^ 64\<close> bytes.
\<close>

theorem svndiff_fulltext_roundtrip:
  assumes "length (enc_svndiff ws) < 2 ^ 64"
  shows "decode_svndiff (enc_svndiff ws) = Some (concat ws)"
proof -
  have magic: "length [0x53, 0x56, 0x4E, 0 :: byte] = 4" by simp
  have "decode_windows (enc_svndiff ws) 4 [] = Some (concat ws)"
    using decode_enc_windows [of "enc_svndiff ws" "[0x53, 0x56, 0x4E, 0]" ws "[]"] assms
    unfolding magic by (simp add: enc_svndiff_def)
  then show ?thesis by (simp add: decode_svndiff_def enc_svndiff_def)
qed

theorem svndiff_fulltext_roundtrip_witness:
  "decode_svndiff [0x53, 0x56, 0x4E, 0, 0, 0, 2, 1, 2, 0x82, 104, 105, 0, 0, 1, 1, 1, 0x81, 33] = Some [104, 105, 33]"
proof -
  have "enc_svndiff [[104, 105], [33]] = [0x53, 0x56, 0x4E, 0, 0, 0, 2, 1, 2, 0x82, 104, 105, 0, 0, 1, 1, 1, 0x81, 33]"
    by (simp add: enc_svndiff_def enc_window_def enc_varint_def enc_insert_def varint_cont.simps)
  with svndiff_fulltext_roundtrip [of "[[104, 105], [33]]"] show ?thesis by simp
qed

section \<open>Bounds\<close>

lemma run_instructions_bound:
  assumes "run_instructions ins nd ipos nd_off acc = Some res"
    and "length acc \<le> base + min nd_off (length nd)"
  shows "length res \<le> base + length nd"
  using assms
proof (induction ins nd ipos nd_off acc rule: run_instructions.induct)
  case (1 ins nd ipos nd_off acc)
  obtain len ip where il: "instr_length ins ipos = (len, ip)" by fastforce
  show ?case
  proof (cases "ipos < length ins")
    case True
    note IH = "1.IH" [OF True refl il [symmetric] refl]
    from "1.prems" show ?thesis
      by (subst (asm) run_instructions.simps)
        (auto simp: True il Let_def slice_def split: if_splits intro: IH)
  next
    case False
    with "1.prems" show ?thesis by (subst (asm) run_instructions.simps) simp
  qed
qed

lemma decode_windows_bound:
  assumes "decode_windows data pos acc = Some res" and "length acc \<le> pos" and "pos \<le> length data"
  shows "length res \<le> 2 * length data"
  using assms
proof (induction data pos acc rule: decode_windows.induct)
  case (1 data pos acc)
  show ?case
  proof (cases "pos < length data")
    case False
    with "1.prems" show ?thesis by (subst (asm) decode_windows.simps) simp
  next
    case pos: True
    show ?thesis
    proof (cases "window_header data pos")
      case None
      with "1.prems" pos show ?thesis by (subst (asm) decode_windows.simps) simp
    next
      case (Some h)
      obtain il nl i where h: "h = (il, nl, i)" by (cases h)
      let ?s = "usize_add i il" let ?e = "usize_add ?s nl"
      have i: "pos < i" using window_header_advances [of data pos il nl i] Some pos by (simp add: h)
      note IH = "1.IH" [OF pos Some h [symmetric] refl refl refl]
      have "length r \<le> ?e" if "run_instructions (slice i ?s data) (slice ?s ?e data) 0 0 acc = Some r"
        "i \<le> ?s" "?s \<le> ?e" for r
        using run_instructions_bound [OF that(1), of "length acc"] that(2,3) "1.prems"(2) i
        by (simp add: slice_def)
      with "1.prems" show ?thesis
        by (subst (asm) decode_windows.simps)
          (auto simp: Some h pos Let_def split: if_splits option.splits intro: IH)
    qed
  qed
qed

text \<open>
  C36. A body is never blown up: whatever bytes are sent, the decoder, where it does not panic,
  stages at most twice as many bytes as it received.
\<close>

theorem svndiff_output_bounded:
  assumes "decode_svndiff data = Some res"
  shows "length res \<le> 2 * length data"
  using assms decode_windows_bound [of data 4 "[]" res]
  by (auto simp: decode_svndiff_def split: if_splits)

theorem svndiff_output_bounded_witness:
  "decode_svndiff [1, 2, 3] = Some [1, 2, 3] \<and> length [1, 2, 3 :: byte] \<le> 2 * length [1, 2, 3 :: byte]"
proof -
  have d: "decode_svndiff [1, 2, 3] = Some [1, 2, 3]" by (simp add: decode_svndiff_def)
  from d svndiff_output_bounded [OF d] show ?thesis by simp
qed

text \<open>
  A window whose instruction length is \<open>2 ^ 64 - 1\<close> makes the slice bounds run backwards: the
  reader panics on 18 bytes that any client can send.
\<close>

definition bad_window :: bytes where
  "bad_window = [0x53, 0x56, 0x4E, 0, 0, 0, 0, 0x81, 0xFF, 0xFF, 0xFF, 0xFF, 0xFF, 0xFF, 0xFF, 0xFF, 0x7F, 0]"

lemma bad_window_numbers:
  "read_varint bad_window 4 = (0, 5)" "read_varint bad_window 5 = (0, 6)" "read_varint bad_window 6 = (0, 7)"
  "read_varint bad_window 7 = (0xFFFFFFFFFFFFFFFF, 17)" "read_varint bad_window 17 = (0, 18)"
  by (simp_all add: read_varint_def read_varint_loop.simps bad_window_def)

lemma svndiff_panics: "decode_svndiff bad_window = None"
proof -
  have l: "length bad_window = 18" "take 3 bad_window = [0x53, 0x56, 0x4E]" by (simp_all add: bad_window_def)
  have "window_header bad_window 4 = Some (2 ^ 64 - 1, 0, 18)"
    by (simp add: window_header_def bad_window_numbers l)
  then have "decode_windows bad_window 4 [] = None"
    by (simp add: decode_windows.simps l usize_add_def)
  then show ?thesis by (simp add: decode_svndiff_def l)
qed

end
