(* ===== verification/Webdav_Text.thy ===== *)
theory Webdav_Text
  imports Prelude
begin

text \<open>
  The text helpers of the WebDAV handlers, \<open>dsvn-webdav/src/handlers.rs\<close>: escaping for XML
  output and the string search by which request bodies are read (there is no XML parser on
  these paths).
\<close>

section \<open>Escaping\<close>

text \<open>\<open>str::replace\<close> of a character by a string.\<close>

definition replace_char :: "char \<Rightarrow> string \<Rightarrow> string \<Rightarrow> string" where
  "replace_char c t s = concat (map (\<lambda>x. if x = c then t else [x]) s)"

definition escape_xml :: "string \<Rightarrow> string" where
  "escape_xml s =
     replace_char CHR 0x27 ''&apos;'' (replace_char CHR 0x22 ''&quot;''
       (replace_char CHR ''>'' ''&gt;'' (replace_char CHR ''<'' ''&lt;'' (replace_char CHR ''&'' ''&amp;'' s))))"

text \<open>The five replacements act on each character by itself, because \<open>&\<close> is replaced first.\<close>

definition escape_char :: "char \<Rightarrow> string" where
  "escape_char c =
     (if c = CHR ''&'' then ''&amp;'' else if c = CHR ''<'' then ''&lt;'' else if c = CHR ''>'' then ''&gt;''
      else if c = CHR 0x22 then ''&quot;'' else if c = CHR 0x27 then ''&apos;'' else [c])"

lemma replace_char_append: "replace_char c t (a @ b) = replace_char c t a @ replace_char c t b"
  by (simp add: replace_char_def)

lemma escape_xml_chars: "escape_xml s = concat (map escape_char s)"
proof (induction s)
  case (Cons c s)
  have "escape_xml ([c] @ s) = escape_xml [c] @ escape_xml s"
    by (simp only: escape_xml_def replace_char_append)
  moreover have "escape_xml [c] = escape_char c"
    by (simp add: escape_xml_def replace_char_def escape_char_def)
  ultimately show ?case using Cons.IH by simp
qed (simp add: escape_xml_def replace_char_def)

text \<open>What an XML reader makes of the five entities.\<close>

fun unescape_xml :: "string \<Rightarrow> string" where
  "unescape_xml [] = []"
| "unescape_xml (c # s) =
     (if starts_with (c # s) ''&amp;'' then CHR ''&'' # unescape_xml (drop 4 s)
      else if starts_with (c # s) ''&lt;'' then CHR ''<'' # unescape_xml (drop 3 s)
      else if starts_with (c # s) ''&gt;'' then CHR ''>'' # unescape_xml (drop 3 s)
      else if starts_with (c # s) ''&quot;'' then CHR 0x22 # unescape_xml (drop 5 s)
      else if starts_with (c # s) ''&apos;'' then CHR 0x27 # unescape_xml (drop 5 s)
      else c # unescape_xml s)"

lemma unescape_escape: "unescape_xml (escape_xml s) = s"
  by (induction s) (simp_all add: escape_xml_chars escape_char_def)

lemma escape_no_markup: "set (escape_xml s) \<inter> {CHR ''<'', CHR ''>'', CHR 0x22, CHR 0x27} = {}"
  by (induction s) (auto simp: escape_xml_chars escape_char_def split: if_splits)

section \<open>Searching request bodies\<close>

definition extract_text_between :: "string \<Rightarrow> string \<Rightarrow> string \<Rightarrow> string option" where
  "extract_text_between s start_tag end_tag =
     (case find_sub s start_tag of
        None \<Rightarrow> None
      | Some i \<Rightarrow>
          let start = i + length start_tag in
          (case find_sub (drop start s) end_tag of
             None \<Rightarrow> None
           | Some j \<Rightarrow> Some (take j (drop start s))))"

text \<open>
  The loop of \<open>find_all_between\<close> on the text not yet read. With two empty tags it would not
  advance; \<open>None\<close> is that case.
\<close>

partial_function (option) find_all_loop :: "string \<Rightarrow> string \<Rightarrow> string \<Rightarrow> string list \<Rightarrow> string list option" where
  "find_all_loop s start_tag end_tag results =
     (if s = [] then Some results
      else case find_sub s start_tag of
        None \<Rightarrow> Some results
      | Some i \<Rightarrow>
          (case find_sub (drop (i + length start_tag) s) end_tag of
             None \<Rightarrow> Some results
           | Some j \<Rightarrow>
               (let e = i + length start_tag + j + length end_tag in
                find_all_loop (drop e s) start_tag end_tag (results @ [take (e - i) (drop i s)]))))"

definition find_all_between :: "string \<Rightarrow> string \<Rightarrow> string \<Rightarrow> string list option" where
  "find_all_between s start_tag end_tag = find_all_loop s start_tag end_tag []"

definition parse_log_range :: "string \<Rightarrow> nat \<Rightarrow> nat \<times> nat \<times> bool" where
  "parse_log_range body current_rev =
     (let start = unwrap_or 1 (Option.bind
            (extract_text_between body ''<S:start-revision>'' ''</S:start-revision>'') parse_u64);
          fin = unwrap_or current_rev (Option.bind
            (extract_text_between body ''<S:end-revision>'' ''</S:end-revision>'') parse_u64)
      in if start > fin then (fin, start, True) else (start, fin, False))"

definition convert_ns_tag_to_prop_name :: "string \<Rightarrow> string" where
  "convert_ns_tag_to_prop_name ns_tag =
     (case split_once CHR '':'' ns_tag of
        Some (pfx, loc) \<Rightarrow> if pfx = ''S'' \<or> pfx = ''ns1'' then ''svn:'' @ loc else loc
      | None \<Rightarrow> ns_tag)"

text \<open>The loop ends for every text as soon as one of the tags is not empty.\<close>

lemma find_all_loop_returns:
  assumes "start_tag \<noteq> [] \<or> end_tag \<noteq> []"
  shows "\<exists>xs. find_all_loop s start_tag end_tag results = Some xs"
proof (induction "length s" arbitrary: s results rule: less_induct)
  case less
  have "length (drop (i + length start_tag + j + length end_tag) s) < length s" if "s \<noteq> []" for i j
    using that assms by (auto intro: diff_less)
  with less show ?case
    by (subst find_all_loop.simps) (simp add: Let_def split: option.split)
qed

lemma find_all_between_returns:
  assumes "start_tag \<noteq> [] \<or> end_tag \<noteq> []"
  obtains xs where "find_all_between s start_tag end_tag = Some xs"
  using find_all_loop_returns [OF assms] by (auto simp: find_all_between_def)

lemma find_sub_prefix: "find_sub (p @ b) p = Some 0"
proof (cases "p @ b")
  case (Cons c s)
  then show ?thesis using starts_with_append [of p b] by simp
qed simp

lemma find_sub_append:
  assumes "\<And>k. k < length a \<Longrightarrow> \<not> starts_with (drop k (a @ p @ b)) p"
  shows "find_sub (a @ p @ b) p = Some (length a)"
  using assms
proof (induction a)
  case Nil
  then show ?case by (simp add: find_sub_prefix)
next
  case (Cons c a)
  have "find_sub (a @ p @ b) p = Some (length a)"
    using Cons.prems [of "Suc k" for k] by (intro Cons.IH) auto
  with Cons.prems [of 0] show ?case by simp
qed

lemma starts_with_hd: "starts_with s (c # p) \<Longrightarrow> s \<noteq> [] \<and> hd s = c"
  by (cases s) auto

lemma extract_enclosed:
  assumes "c \<notin> set t"
  shows "extract_text_between (start_tag @ t @ (c # end_tag) @ rest) start_tag (c # end_tag) = Some t"
proof -
  have "find_sub (t @ (c # end_tag) @ rest) (c # end_tag) = Some (length t)"
  proof (rule find_sub_append)
    fix k
    assume "k < length t"
    then have "hd (drop k (t @ (c # end_tag) @ rest)) = t ! k" by (simp add: hd_drop_conv_nth nth_append)
    with \<open>k < length t\<close> assms show "\<not> starts_with (drop k (t @ (c # end_tag) @ rest)) (c # end_tag)"
      using starts_with_hd nth_mem by metis
  qed
  moreover have "find_sub (start_tag @ t @ (c # end_tag) @ rest) start_tag = Some 0"
    by (rule find_sub_prefix)
  ultimately show ?thesis by (simp add: extract_text_between_def)
qed

text \<open>
  Escaping is safe and loses nothing: escaped text holds no markup character, an XML reader
  gets the original text back, and text written escaped into an element is what the server's own
  extraction finds there, up to the escaping.
\<close>

theorem escape_xml_safe:
  "set (escape_xml s) \<inter> {CHR ''<'', CHR ''>'', CHR 0x22, CHR 0x27} = {} \<and>
   unescape_xml (escape_xml s) = s \<and>
   extract_text_between (start_tag @ escape_xml s @ (CHR ''<'' # end_tag) @ rest) start_tag (CHR ''<'' # end_tag) =
     Some (escape_xml s)"
  using escape_no_markup [of s] unescape_escape [of s] extract_enclosed [of "CHR ''<''" "escape_xml s"] by auto

end
