(* ===== verification/Webdav_Reports.thy ===== *)
theory Webdav_Reports
  imports Webdav_Text Sample_Environment
begin

text \<open>
  The \<open>REPORT\<close> handlers that read the history, \<open>dsvn-webdav/src/handlers.rs\<close>: log, get-locations,
  dated-rev, replay and get-deleted-rev. Each reads its request by text search, queries the
  SQLite repository and writes XML. The date functions of the crate \<open>chrono\<close> are parameters.
  Reading a tree may update the repository's cache, so the handlers that do so pass the
  repository on; \<open>None\<close> is a walk along deltas that does not end.
\<close>

abbreviation nl :: string where "nl \<equiv> [CHR 0x0A]"
abbreviation dq :: string where "dq \<equiv> [CHR 0x22]"

definition xml_decl :: string where
  "xml_decl = ''<?xml version='' @ dq @ ''1.0'' @ dq @ '' encoding='' @ dq @ ''utf-8'' @ dq @ ''?>'' @ nl"

definition attr :: "string \<Rightarrow> string \<Rightarrow> string" where
  "attr n v = '' '' @ n @ ''='' @ dq @ v @ dq"

definition num_field :: "string \<Rightarrow> string \<Rightarrow> string \<Rightarrow> nat option" where
  "num_field body start_tag end_tag = Option.bind (extract_text_between body start_tag end_tag) parse_u64"

section \<open>log-report\<close>

text \<open>The body's flags: changed paths wanted, all revision properties wanted, the properties named.\<close>

record log_options =
  lo_discover :: bool
  lo_all_revprops :: bool
  lo_revprops :: "string list"

definition wants :: "log_options \<Rightarrow> string \<Rightarrow> bool" where
  "wants opt p \<longleftrightarrow> lo_all_revprops opt \<or> lo_revprops opt = [] \<or> p \<in> set (lo_revprops opt)"

text \<open>
  One line per change. For an addition the parent tree is fetched to tell an added from a
  modified path, but the answer is not used: every addition is written as modified.
\<close>

fun log_changes :: "'c repo_env \<Rightarrow> nat \<Rightarrow> tree_change list \<Rightarrow> 'c repo \<Rightarrow> ('c repo \<times> string) option" where
  "log_changes E r [] s = Some (s, [])"
| "log_changes E r (Upsert path e # chs) s =
     (case (if r > 1 then map_option fst (get_tree_at_rev E (r - 1) s) else Some s) of
        None \<Rightarrow> None
      | Some s1 \<Rightarrow>
          map_option (\<lambda>(s2, tx).
              (s2, ''<S:modified-path'' @ attr ''node-kind'' ''file'' @ attr ''text-mods'' ''true'' @
                   attr ''prop-mods'' ''false'' @ ''>'' @ escape_xml (''/'' @ path) @ ''</S:modified-path>'' @ nl @ tx))
            (log_changes E r chs s1))"
| "log_changes E r (Delete path # chs) s =
     map_option (\<lambda>(s2, tx).
         (s2, ''<S:deleted-path'' @ attr ''node-kind'' ''file'' @ ''>'' @ escape_xml (''/'' @ path) @
              ''</S:deleted-path>'' @ nl @ tx))
       (log_changes E r chs s)"

definition changed_paths :: "'c repo_env \<Rightarrow> log_options \<Rightarrow> nat \<Rightarrow> 'c repo \<Rightarrow> ('c repo \<times> string) option" where
  "changed_paths E opt r s =
     (if lo_discover opt \<and> r > 0 then
        (case load_delta_tree E s r of
           Inl _ \<Rightarrow> Some (s, [])
         | Inr d \<Rightarrow>
             if changes d = [] then Some (s, [])
             else map_option (\<lambda>(s1, tx). (s1, ''<S:changed-path-item>'' @ nl @ tx @ ''</S:changed-path-item>'' @ nl))
                    (log_changes E r (changes d) s))
      else Some (s, []))"

definition item_open :: "nat \<Rightarrow> string" where
  "item_open r = ''<S:log-item>'' @ nl @ ''<D:version-name>'' @ show_nat r @ ''</D:version-name>'' @ nl"

definition item_props :: "(int \<Rightarrow> string option) \<Rightarrow> log_options \<Rightarrow> commit \<Rightarrow> string" where
  "item_props fmt opt c =
     (if wants opt ''svn:author''
      then ''<D:creator-displayname>'' @ escape_xml (author c) @ ''</D:creator-displayname>'' @ nl else []) @
     (if wants opt ''svn:date'' then ''<S:date>'' @ unwrap_or [] (fmt (timestamp c)) @ ''</S:date>'' @ nl else []) @
     (if wants opt ''svn:log'' then ''<D:comment>'' @ escape_xml (message c) @ ''</D:comment>'' @ nl else [])"

definition log_item :: "'c repo_env \<Rightarrow> (int \<Rightarrow> string option) \<Rightarrow> log_options \<Rightarrow> nat \<Rightarrow> commit \<Rightarrow> 'c repo \<Rightarrow> ('c repo \<times> string) option" where
  "log_item E fmt opt r c s =
     map_option (\<lambda>(s1, paths).
         (s1, item_open r @ item_props fmt opt c @ paths @ ''<S:has-children/>'' @ nl @ ''</S:log-item>'' @ nl))
       (changed_paths E opt r s)"

fun log_report_loop ::
    "'c repo_env \<Rightarrow> (int \<Rightarrow> string option) \<Rightarrow> log_options \<Rightarrow> nat \<Rightarrow> nat list \<Rightarrow> string list \<Rightarrow> 'c repo \<Rightarrow>
     ('c repo \<times> string list) option" where
  "log_report_loop E fmt opt limit [] items s = Some (s, items)"
| "log_report_loop E fmt opt limit (r # rs) items s =
     (if limit \<le> length items then Some (s, items)
      else case get_commit E s r of
        None \<Rightarrow> log_report_loop E fmt opt limit rs items s
      | Some c \<Rightarrow>
          (case log_item E fmt opt r c s of
             None \<Rightarrow> None
           | Some (s1, item) \<Rightarrow> log_report_loop E fmt opt limit rs (items @ [item]) s1))"

definition log_limit :: "string \<Rightarrow> nat" where
  "log_limit body =
     unwrap_or (2 ^ 64 - 1)
       (Option.bind
          (case extract_text_between body ''<S:limit>'' ''</S:limit>'' of
             Some t \<Rightarrow> Some t
           | None \<Rightarrow> extract_text_between body ''<limit>'' ''</limit>'') parse_u64)"

definition requested_revprops :: "string \<Rightarrow> string list option" where
  "requested_revprops body =
     map_option (\<lambda>els. filter (\<lambda>p. p \<noteq> [])
         (map (\<lambda>el. unwrap_or [] (extract_text_between el ''<S:revprop>'' ''</S:revprop>'')) els))
       (find_all_between body ''<S:revprop>'' ''</S:revprop>'')"

definition log_header :: string where
  "log_header = xml_decl @ ''<S:log-report'' @ attr ''xmlns:S'' ''svn:'' @ attr ''xmlns:D'' ''DAV:'' @ ''>'' @ nl"

definition handle_log_report ::
    "'c repo_env \<Rightarrow> (int \<Rightarrow> string option) \<Rightarrow> string \<Rightarrow> 'c repo \<Rightarrow> ('c repo \<times> string) option" where
  "handle_log_report E fmt body s =
     (case parse_log_range body (r_current_rev s) of (start_rev, end_rev, reverse) \<Rightarrow>
      case requested_revprops body of
        None \<Rightarrow> None
      | Some props \<Rightarrow>
          let opt = \<lparr>lo_discover = contains_sub body ''discover-changed-paths'',
                     lo_all_revprops = contains_sub body ''all-revprops'', lo_revprops = props\<rparr>
          in map_option (\<lambda>(s1, items).
                 (s1, log_header @ concat (if reverse then rev items else items) @ ''</S:log-report>''))
               (log_report_loop E fmt opt (log_limit body) [start_rev..<Suc end_rev] [] s))"

section \<open>get-locations-report\<close>

definition path_field :: "string \<Rightarrow> string" where
  "path_field body =
     trim_start_matches CHR ''/''
       (unwrap_or []
          (case extract_text_between body ''<S:path>'' ''</S:path>'' of
             Some t \<Rightarrow> Some t | None \<Rightarrow> extract_text_between body ''<path>'' ''</path>''))"

definition peg_field :: "string \<Rightarrow> nat \<Rightarrow> nat" where
  "peg_field body current_rev =
     unwrap_or current_rev
       (Option.bind
          (case extract_text_between body ''<S:peg-revision>'' ''</S:peg-revision>'' of
             Some t \<Rightarrow> Some t | None \<Rightarrow> extract_text_between body ''<peg-revision>'' ''</peg-revision>'') parse_u64)"

definition location_revs :: "string \<Rightarrow> nat list option" where
  "location_revs body =
     map_option (List.map_filter (\<lambda>el. num_field el ''<S:location-revision>'' ''</S:location-revision>''))
       (find_all_between body ''<S:location-revision>'' ''</S:location-revision>'')"

fun locations_loop ::
    "'c repo_env \<Rightarrow> string \<Rightarrow> nat \<Rightarrow> nat \<Rightarrow> nat list \<Rightarrow> string \<Rightarrow> 'c repo \<Rightarrow> ('c repo \<times> string) option" where
  "locations_loop E q peg cr [] xml s = Some (s, xml)"
| "locations_loop E q peg cr (r0 # rs) xml s =
     (let r = min r0 cr in
      case get_tree_at_rev E r s of
        None \<Rightarrow> None
      | Some (s1, Inl _) \<Rightarrow> locations_loop E q peg cr rs xml s1
      | Some (s1, Inr tm) \<Rightarrow>
          locations_loop E q peg cr rs
            (if ohas tm q \<or> (q = [] \<and> r \<le> peg)
             then xml @ ''<S:location'' @ attr ''rev'' (show_nat r) @
                  attr ''path'' (escape_xml (if q = [] then ''/'' else ''/'' @ q)) @ ''/>'' @ nl
             else xml) s1)"

definition handle_get_locations_report :: "'c repo_env \<Rightarrow> string \<Rightarrow> 'c repo \<Rightarrow> ('c repo \<times> string) option" where
  "handle_get_locations_report E body s =
     (case location_revs body of
        None \<Rightarrow> None
      | Some revs \<Rightarrow>
          map_option (\<lambda>(s1, xml). (s1, xml @ ''</S:get-locations-report>''))
            (locations_loop E (path_field body) (peg_field body (r_current_rev s)) (r_current_rev s) revs
               (xml_decl @ ''<S:get-locations-report'' @ attr ''xmlns:S'' ''svn:'' @ attr ''xmlns:D'' ''DAV:'' @ ''>'' @ nl) s))"

section \<open>dated-rev-report\<close>

definition I64_MAX :: int where
  "I64_MAX = 2 ^ 63 - 1"

fun dated_loop :: "'c repo_env \<Rightarrow> 'c repo \<Rightarrow> int \<Rightarrow> nat list \<Rightarrow> nat" where
  "dated_loop E s target [] = 0"
| "dated_loop E s target (r # rs) =
     (case get_commit E s r of
        Some c \<Rightarrow> if timestamp c \<le> target then r else dated_loop E s target rs
      | None \<Rightarrow> dated_loop E s target rs)"

definition dated_rev :: "'c repo_env \<Rightarrow> 'c repo \<Rightarrow> int \<Rightarrow> nat" where
  "dated_rev E s target = dated_loop E s target (rev [0..<Suc (r_current_rev s)])"

definition dated_target :: "(string \<Rightarrow> int option) \<Rightarrow> string \<Rightarrow> int" where
  "dated_target parse_rfc3339 body =
     (let date_str = unwrap_or []
            (case extract_text_between body ''<D:creationdate>'' ''</D:creationdate>'' of
               Some t \<Rightarrow> Some t | None \<Rightarrow> extract_text_between body ''<S:creationdate>'' ''</S:creationdate>'')
      in if date_str \<noteq> [] then unwrap_or I64_MAX (parse_rfc3339 date_str) else I64_MAX)"

definition handle_dated_rev_report :: "'c repo_env \<Rightarrow> (string \<Rightarrow> int option) \<Rightarrow> string \<Rightarrow> 'c repo \<Rightarrow> string" where
  "handle_dated_rev_report E parse_rfc3339 body s =
     xml_decl @ ''<S:dated-rev-report'' @ attr ''xmlns:S'' ''svn:'' @ attr ''xmlns:D'' ''DAV:'' @ ''>'' @ nl @
     ''<D:version-name>'' @ show_nat (dated_rev E s (dated_target parse_rfc3339 body)) @ ''</D:version-name>'' @ nl @
     ''</S:dated-rev-report>''"

section \<open>replay-report and the reports with a fixed answer\<close>

fun replay_change :: "tree_change \<Rightarrow> string" where
  "replay_change (Upsert path e) =
     ''<S:add-file'' @ attr ''name'' (escape_xml path) @ ''>'' @ nl @ ''</S:add-file>'' @ nl"
| "replay_change (Delete path) = ''<S:delete-entry'' @ attr ''name'' (escape_xml path) @ ''/>'' @ nl"

definition handle_replay_report :: "'c repo_env \<Rightarrow> string \<Rightarrow> 'c repo \<Rightarrow> string" where
  "handle_replay_report E body s =
     (let replay_rev = unwrap_or (r_current_rev s) (num_field body ''<S:revision>'' ''</S:revision>'') in
      xml_decl @ ''<S:editor-report'' @ attr ''xmlns:S'' ''svn:'' @ ''>'' @ nl @
      ''<S:target-revision>'' @ show_nat replay_rev @ ''</S:target-revision>'' @ nl @
      (case load_delta_tree E s replay_rev of
         Inl _ \<Rightarrow> []
       | Inr d \<Rightarrow> ''<S:open-root>'' @ nl @ concat (map replay_change (changes d)) @ ''</S:open-root>'' @ nl) @
      ''</S:editor-report>'')"

definition handle_mergeinfo_report :: string where
  "handle_mergeinfo_report =
     xml_decl @ ''<S:mergeinfo-report'' @ attr ''xmlns:S'' ''svn:'' @ ''>'' @ nl @ ''</S:mergeinfo-report>''"

definition handle_get_locks_report :: string where
  "handle_get_locks_report =
     xml_decl @ ''<S:get-locks-report'' @ attr ''xmlns:S'' ''svn:'' @ ''>'' @ nl @ ''</S:get-locks-report>''"

definition handle_inherited_props_report :: string where
  "handle_inherited_props_report =
     xml_decl @ ''<S:inherited-props-report'' @ attr ''xmlns:S'' ''svn:'' @ attr ''xmlns:D'' ''DAV:'' @ ''>'' @ nl @
     ''</S:inherited-props-report>''"

section \<open>get-deleted-rev-report\<close>

fun deletes_path :: "string \<Rightarrow> tree_change \<Rightarrow> bool" where
  "deletes_path q (Delete path) = (path = q \<or> starts_with q (path @ ''/''))"
| "deletes_path q (Upsert path e) = False"

fun deleted_loop :: "'c repo_env \<Rightarrow> 'c repo \<Rightarrow> string \<Rightarrow> nat list \<Rightarrow> nat" where
  "deleted_loop E s q [] = 0"
| "deleted_loop E s q (r # rs) =
     (case load_delta_tree E s r of
        Inr d \<Rightarrow> if list_ex (deletes_path q) (changes d) \<and> r > 0 then r else deleted_loop E s q rs
      | Inl _ \<Rightarrow> deleted_loop E s q rs)"

text \<open>The first revision of the search is \<open>peg_rev + 1\<close> in 64 bits.\<close>

definition deleted_rev :: "'c repo_env \<Rightarrow> 'c repo \<Rightarrow> string \<Rightarrow> nat \<Rightarrow> nat \<Rightarrow> nat" where
  "deleted_rev E s q peg_rev end_rev =
     deleted_loop E s q [(peg_rev + 1) mod 2 ^ 64..<Suc (min end_rev (r_current_rev s))]"

definition handle_get_deleted_rev_report :: "'c repo_env \<Rightarrow> string \<Rightarrow> 'c repo \<Rightarrow> string" where
  "handle_get_deleted_rev_report E body s =
     (let q = trim_start_matches CHR ''/'' (unwrap_or [] (extract_text_between body ''<S:path>'' ''</S:path>''));
          peg_rev = unwrap_or (r_current_rev s) (num_field body ''<S:peg-revision>'' ''</S:peg-revision>'');
          end_rev = unwrap_or (r_current_rev s) (num_field body ''<S:end-revision>'' ''</S:end-revision>'')
      in xml_decl @ ''<S:get-deleted-rev-report'' @ attr ''xmlns:S'' ''svn:'' @ attr ''xmlns:D'' ''DAV:'' @ ''>'' @ nl @
         ''<D:version-name>'' @ show_nat (deleted_rev E s q peg_rev end_rev) @ ''</D:version-name>'' @ nl @
         ''</S:get-deleted-rev-report>'')"

section \<open>What the reports say\<close>

lemma get_tree_returns:
  assumes "lru_ok E" and "history_inv E s"
  obtains s' res where "get_tree_at_rev E r s = Some (s', res)" and "read_ok E s s'"
    and "r \<le> r_current_rev s \<Longrightarrow> res = Inr (tree_of E s r)"
proof (cases "r \<le> r_current_rev s")
  case True
  then show ?thesis using get_tree_at_rev_ok [OF assms True] that by (auto simp: read_ok_def)
next
  case False
  then show ?thesis using get_tree_beyond_head [OF assms, of r] that by (auto simp: read_ok_def)
qed

lemma read_ok_refl: "history_inv E s \<Longrightarrow> read_ok E s s"
  by (simp add: read_ok_def only_cache_def exI [of _ "r_cache s"])

lemma read_ok_get_commit: "read_ok E s s' \<Longrightarrow> get_commit E s' = get_commit E s"
  by (auto simp: read_ok_def only_cache_def get_commit_def load_commit_def fun_eq_iff)

lemma log_changes_returns:
  assumes "lru_ok E" and "history_inv E s"
  obtains s' tx where "log_changes E r chs s = Some (s', tx)" and "read_ok E s s'"
  using assms(2)
proof (induction chs arbitrary: s thesis)
  case Nil
  then show ?case by (simp add: read_ok_refl)
next
  case (Cons ch chs)
  obtain s0 res where "get_tree_at_rev E (r - 1) s = Some (s0, res)" "read_ok E s s0"
    using get_tree_returns [OF assms(1) Cons.prems(2), of "r - 1"] .
  then have "\<exists>s1. (if r > 1 then map_option fst (get_tree_at_rev E (r - 1) s) else Some s) = Some s1 \<and> read_ok E s s1"
    using read_ok_refl [OF Cons.prems(2)] by auto
  then obtain s1 where s1: "(if r > 1 then map_option fst (get_tree_at_rev E (r - 1) s) else Some s) = Some s1" "read_ok E s s1"
    by blast
  obtain s2 tx where s2: "log_changes E r chs s1 = Some (s2, tx)" "read_ok E s1 s2"
    using Cons.IH [of s1] s1(2) by (auto simp: read_ok_def)
  obtain s3 tx' where s3: "log_changes E r chs s = Some (s3, tx')" "read_ok E s s3"
    using Cons.IH [of s] Cons.prems(2) by blast
  show ?case
  proof (cases ch)
    case (Upsert path e)
    then show ?thesis using Cons.prems(1) s1 s2 read_ok_trans [OF s1(2) s2(2)] by simp
  next
    case (Delete path)
    then show ?thesis using Cons.prems(1) s3 by simp
  qed
qed

lemma log_item_returns:
  assumes "lru_ok E" and "history_inv E s"
  obtains s' tail where "log_item E fmt opt r c s = Some (s', item_open r @ item_props fmt opt c @ tail)" and "read_ok E s s'"
proof -
  obtain s' paths where "changed_paths E opt r s = Some (s', paths)" and ok: "read_ok E s s'"
  proof (cases "lo_discover opt \<and> r > 0")
    case True
    show ?thesis
    proof (cases "load_delta_tree E s r")
      case (Inr d)
      obtain s' paths where "log_changes E r (changes d) s = Some (s', paths)" "read_ok E s s'"
        by (rule log_changes_returns [OF assms])
      with that True Inr read_ok_refl [OF assms(2)] show ?thesis
        by (cases "changes d = []") (simp_all add: changed_paths_def)
    qed (use that True read_ok_refl [OF assms(2)] in \<open>simp add: changed_paths_def\<close>)
  next
    case False
    then have "changed_paths E opt r s = Some (s, [])" by (simp only: changed_paths_def if_False)
    with that read_ok_refl [OF assms(2)] show ?thesis by blast
  qed
  then have "log_item E fmt opt r c s = Some (s', item_open r @ item_props fmt opt c @
      (paths @ ''<S:has-children/>'' @ nl @ ''</S:log-item>'' @ nl))"
    by (simp only: log_item_def option.map prod.case append_assoc)
  from that [OF this ok] show ?thesis .
qed

text \<open>Item \<open>t\<close> is about revision \<open>r\<close> of the repository and carries its properties.\<close>

definition item_of :: "'c repo_env \<Rightarrow> (int \<Rightarrow> string option) \<Rightarrow> log_options \<Rightarrow> 'c repo \<Rightarrow> nat \<Rightarrow> string \<Rightarrow> bool" where
  "item_of E fmt opt s r t \<longleftrightarrow>
     (\<exists>c. get_commit E s r = Some c \<and> starts_with t (item_open r @ item_props fmt opt c))"

lemma log_report_loop_items:
  assumes "lru_ok E" and "history_inv E s"
  shows "\<exists>s' new. log_report_loop E fmt opt limit rs items s = Some (s', items @ new) \<and> read_ok E s s' \<and>
           list_all2 (item_of E fmt opt s) (take (limit - length items) (filter (\<lambda>r. get_commit E s r \<noteq> None) rs)) new"
  using assms(2)
proof (induction rs arbitrary: s items)
  case Nil
  then show ?case by (simp add: read_ok_refl)
next
  case (Cons r rs)
  show ?case
  proof (cases "limit \<le> length items")
    case True
    then show ?thesis using read_ok_refl [OF Cons.prems] by simp
  next
    case limit: False
    show ?thesis
    proof (cases "get_commit E s r")
      case None
      then show ?thesis using Cons.IH [OF Cons.prems, of items] limit by simp
    next
      case (Some c)
      obtain s1 tail where i: "log_item E fmt opt r c s = Some (s1, item_open r @ item_props fmt opt c @ tail)"
        and ok: "read_ok E s s1"
        by (rule log_item_returns [OF assms(1) Cons.prems])
      let ?item = "item_open r @ item_props fmt opt c @ tail"
      have io: "item_of E fmt opt s r ?item" using Some by (simp add: item_of_def starts_with_iff)
      have same: "item_of E fmt opt s1 = item_of E fmt opt s" "get_commit E s1 = get_commit E s"
        by (simp_all add: item_of_def fun_eq_iff read_ok_get_commit [OF ok])
      have h1: "history_inv E s1" using ok by (simp add: read_ok_def)
      obtain s' new where "log_report_loop E fmt opt limit rs (items @ [?item]) s1 = Some (s', (items @ [?item]) @ new)"
        "read_ok E s1 s'"
        "list_all2 (item_of E fmt opt s) (take (limit - length (items @ [?item])) (filter (\<lambda>r. get_commit E s r \<noteq> None) rs)) new"
        using Cons.IH [OF h1, of "items @ [?item]"] unfolding same by blast
      moreover have "take (limit - length items) (r # xs) = r # take (limit - length (items @ [?item])) xs" for xs
        using limit by (simp add: take_Cons')
      ultimately show ?thesis
        using limit Some i io read_ok_trans [OF ok]
        by (intro exI [of _ s'] exI [of _ "?item # new"]) simp
    qed
  qed
qed

text \<open>
  C37. The log report of a reachable repository returns, changes the cache only, and holds one
  item for each readable revision of the requested range in ascending order, cut off after
  \<open>limit\<close> of them counted from the oldest; a descending request only reverses the items kept.
\<close>

theorem log_report_revisions:
  assumes "reachable E s" and "parse_log_range body (r_current_rev s) = (lo, hi, reverse)"
    and "requested_revprops body = Some props"
    and "opt = \<lparr>lo_discover = contains_sub body ''discover-changed-paths'',
                lo_all_revprops = contains_sub body ''all-revprops'', lo_revprops = props\<rparr>"
  shows "\<exists>s' items. handle_log_report E fmt body s =
             Some (s', log_header @ concat (if reverse then rev items else items) @ ''</S:log-report>'') \<and>
           only_cache s s' \<and>
           list_all2 (item_of E fmt opt s)
             (take (log_limit body) (filter (\<lambda>r. get_commit E s r \<noteq> None) [lo..<Suc hi])) items"
proof -
  have "lru_ok E" "history_inv E s"
    using reachable_life [OF assms(1)] by (simp_all add: life_inv_def repo_inv_def env_ok_def)
  from log_report_loop_items [OF this, of fmt opt "log_limit body" "[lo..<Suc hi]" "[]"]
  obtain s' items where "log_report_loop E fmt opt (log_limit body) [lo..<Suc hi] [] s = Some (s', items)" "read_ok E s s'"
    and all: "list_all2 (item_of E fmt opt s)
      (take (log_limit body) (filter (\<lambda>r. get_commit E s r \<noteq> None) [lo..<Suc hi])) items"
    by auto
  then have "handle_log_report E fmt body s =
      Some (s', log_header @ concat (if reverse then rev items else items) @ ''</S:log-report>'')" "only_cache s s'"
    unfolding handle_log_report_def assms(2,3) prod.case option.case Let_def assms(4) [symmetric]
    by (simp_all only: option.map prod.case read_ok_def)
  with all show ?thesis by blast
qed

lemma sample_one_log: "\<exists>c. get_commit sample sample_one 1 = Some c \<and> timestamp c = 0"
proof -
  obtain chs where c: "commits_as sample chs ''ann'' ''first'' 0 sample_edited sample_one"
    using repo_inv_tables [OF sample_edited_facts(1)]
    by (cases rule: commit_result [where E = sample and a = "''ann''" and m = "''first''" and ts = 0])
      (use sample_one_commit in auto)
  have "externals_ok sample" using sample_ok by (simp add: env_ok_def)
  from commits_as_commit [OF this c] sample_edited_facts(2) show ?thesis by (metis One_nat_def)
qed

lemma item_of_open: "item_of E fmt opt s r t \<Longrightarrow> starts_with t (item_open r)"
  by (auto simp: item_of_def starts_with_iff)

theorem log_report_revisions_witness:
  "\<exists>s' item. handle_log_report sample (\<lambda>_. None) ''-'' sample_one =
       Some (s', log_header @ item @ ''</S:log-report>'') \<and> starts_with item (item_open 1)"
proof -
  have p: "parse_log_range ''-'' (r_current_rev sample_one) = (1, 1, False)"
    by (simp add: parse_log_range_def extract_text_between_def sample_one_facts(2))
  have l: "log_limit ''-'' = 2 ^ 64 - 1" by (simp add: log_limit_def extract_text_between_def)
  have f: "requested_revprops ''-'' = Some []"
    by (simp add: requested_revprops_def find_all_between_def find_all_loop.simps)
  have revs: "take (log_limit ''-'') (filter (\<lambda>r. get_commit sample sample_one r \<noteq> None) [1..<Suc 1]) = [1]"
    using sample_one_log by (auto simp: l upt_rec)
  obtain s' items where h: "handle_log_report sample (\<lambda>_. None) ''-'' sample_one =
      Some (s', log_header @ concat items @ ''</S:log-report>'')"
    and i: "list_all2 (item_of sample (\<lambda>_. None) \<lparr>lo_discover = contains_sub ''-'' ''discover-changed-paths'',
                lo_all_revprops = contains_sub ''-'' ''all-revprops'', lo_revprops = []\<rparr> sample_one) [1] items"
    using log_report_revisions [OF sample_one_reachable p f refl, of "\<lambda>_. None"] unfolding revs if_False by blast
  from i obtain item where "items = [item]" and it: "item_of sample (\<lambda>_. None)
      \<lparr>lo_discover = contains_sub ''-'' ''discover-changed-paths'',
       lo_all_revprops = contains_sub ''-'' ''all-revprops'', lo_revprops = []\<rparr> sample_one 1 item"
    by (auto simp only: list_all2_Cons1 list_all2_Nil)
  with h item_of_open [OF it] show ?thesis by (intro exI [of _ s'] exI [of _ item]) simp
qed

section \<open>Searches over revisions\<close>

lemma dated_loop_result:
  assumes "dated_loop E s t rs = r"
  shows "(r = 0 \<or> (\<exists>c. r \<in> set rs \<and> get_commit E s r = Some c \<and> timestamp c \<le> t)) \<and>
         (\<forall>q \<in> set (takeWhile (\<lambda>q. q \<noteq> r) rs). \<forall>c. get_commit E s q = Some c \<longrightarrow> t < timestamp c)"
  using assms
  by (induction rs) (auto split: option.splits if_splits)

lemma takeWhile_descending:
  assumes "r < q" and "q \<le> n"
  shows "q \<in> set (takeWhile (\<lambda>q. q \<noteq> r) (rev [0..<Suc n]))"
  using assms by (induction n) (auto simp: le_Suc_eq)

text \<open>
  The dated-rev report names the newest revision whose commit is not younger than the
  requested time: every later revision is younger, and 0 is the answer when all are.
\<close>

theorem dated_rev_correct:
  assumes "dated_rev E s t = r"
  shows "r \<le> r_current_rev s \<and>
         (r = 0 \<or> (\<exists>c. get_commit E s r = Some c \<and> timestamp c \<le> t)) \<and>
         (\<forall>q c. r < q \<longrightarrow> q \<le> r_current_rev s \<longrightarrow> get_commit E s q = Some c \<longrightarrow> t < timestamp c)"
proof -
  note d = dated_loop_result [OF assms [unfolded dated_rev_def]]
  from d have "r \<le> r_current_rev s" "r = 0 \<or> (\<exists>c. get_commit E s r = Some c \<and> timestamp c \<le> t)"
    by auto
  moreover have "t < timestamp c" if "r < q" "q \<le> r_current_rev s" "get_commit E s q = Some c" for q c
    using d takeWhile_descending [OF that(1,2)] that(3) by blast
  ultimately show ?thesis by blast
qed

theorem dated_rev_correct_witness:
  "dated_rev sample sample_one 7 = 1 \<and> (\<exists>c. get_commit sample sample_one 1 = Some c \<and> timestamp c \<le> 7)"
proof -
  have "dated_rev sample sample_one 7 = 1"
    using sample_one_log by (auto simp: dated_rev_def sample_one_facts(2) upt_rec)
  with dated_rev_correct [OF this] show ?thesis by simp
qed

text \<open>The revision deletes the path or a directory above it.\<close>

definition deletes_at :: "'c repo_env \<Rightarrow> 'c repo \<Rightarrow> string \<Rightarrow> nat \<Rightarrow> bool" where
  "deletes_at E s q r \<longleftrightarrow>
     r > 0 \<and> (case load_delta_tree E s r of Inr d \<Rightarrow> list_ex (deletes_path q) (changes d) | Inl _ \<Rightarrow> False)"

lemma deleted_loop_find: "deleted_loop E s q rs = unwrap_or 0 (List.find (deletes_at E s q) rs)"
  by (induction rs) (auto simp: deletes_at_def split: sum.splits)

lemma find_upt_Some:
  assumes "List.find P [a..<b] = Some r"
  shows "a \<le> r \<and> r < b \<and> P r \<and> (\<forall>q. a \<le> q \<longrightarrow> q < r \<longrightarrow> \<not> P q)"
proof -
  obtain i where i: "i < b - a" "P (a + i)" "r = a + i" "\<forall>j < i. \<not> P (a + j)"
    using assms by (auto simp: find_Some_iff)
  then have "\<not> P q" if "a \<le> q" "q < r" for q
    using that i(4) [rule_format, of "q - a"] by simp
  with i show ?thesis by simp
qed

text \<open>
  The get-deleted-rev report names the first revision after the peg revision, within the
  requested range, that deletes the path or a directory above it, and 0 exactly when there is
  none.
\<close>

theorem deleted_rev_first:
  assumes "peg_rev + 1 < 2 ^ 64" and "deleted_rev E s q peg_rev end_rev = r"
  shows "if r = 0 then (\<forall>x. peg_rev < x \<longrightarrow> x \<le> min end_rev (r_current_rev s) \<longrightarrow> \<not> deletes_at E s q x)
         else peg_rev < r \<and> r \<le> min end_rev (r_current_rev s) \<and> deletes_at E s q r \<and>
              (\<forall>x. peg_rev < x \<longrightarrow> x < r \<longrightarrow> \<not> deletes_at E s q x)"
proof (cases "List.find (deletes_at E s q) [peg_rev + 1..<Suc (min end_rev (r_current_rev s))]")
  case None
  then have "r = 0" using assms by (simp add: deleted_rev_def deleted_loop_find del: upt_Suc)
  with None show ?thesis by (auto simp: find_None_iff simp del: upt_Suc)
next
  case (Some x)
  then have "r = x" using assms by (simp add: deleted_rev_def deleted_loop_find del: upt_Suc)
  with find_upt_Some [OF Some] show ?thesis by auto
qed

definition deleted_repo :: "(nat \<rightharpoonup> tree_map) repo" where
  "deleted_repo = sample_repo\<lparr>r_deltas := [(1, ser_delta sample (delta_tree_new 0 [Delete ''src''] 0))], r_current_rev := 1\<rparr>"

theorem deleted_rev_first_witness:
  "deleted_rev sample deleted_repo ''src/a'' 0 5 = 1 \<and> deletes_at sample deleted_repo ''src/a'' 1"
proof -
  have "externals_ok sample" using sample_ok by (simp add: env_ok_def)
  then have "load_delta_tree sample deleted_repo 1 = Inr (delta_tree_new 0 [Delete ''src''] 0)"
    by (simp add: deleted_repo_def load_delta_tree_def externals_okD)
  then have "deleted_rev sample deleted_repo ''src/a'' 0 5 = 1"
    by (simp add: deleted_rev_def deleted_repo_def delta_tree_new_def upt_rec)
  with deleted_rev_first [OF _ this] show ?thesis by simp
qed

end
