(* ===== verification/Proppatch.thy ===== *)
theory Proppatch
  imports Webdav_Text
begin

text \<open>
  The \<open>PROPPATCH\<close> request parser, \<open>dsvn-webdav/src/proppatch.rs\<close>. It searches the text for
  tags. A slice that is out of order or cuts a character panics; in \<open>parse_property_element\<close>
  the outer \<open>None\<close> is the panic and the inner one the function's own \<open>None\<close>.
\<close>

section \<open>Requests and responses\<close>

datatype property_modification =
    PmSet (pm_name: string) (pm_value: string) (pm_xmlns: "string option")
  | PmRemove (pm_name: string) (pm_xmlns: "string option")

record prop_patch_request =
  ppr_href :: string
  modifications :: "property_modification list"

record pp_property =
  pp_name :: string
  pp_value :: "string option"

record prop_stat =
  ps_status :: string
  responsedescription :: "string option"
  ps_props :: "pp_property list"

record prop_patch_response =
  pp_href :: string
  propstats :: "prop_stat list"

section \<open>Parsing\<close>

function xml_blocks :: "string \<Rightarrow> string \<Rightarrow> string \<Rightarrow> string list" where
  "xml_blocks start_tag end_tag xml =
     (case find_sub xml start_tag of
        None \<Rightarrow> []
      | Some i \<Rightarrow>
          (case find_sub (drop i xml) end_tag of
             None \<Rightarrow> []
           | Some j \<Rightarrow>
               (let e = j + length end_tag in
                if e = 0 then [] else take e (drop i xml) # xml_blocks start_tag end_tag (drop (i + e) xml))))"
  by pat_completeness auto
termination
proof (relation "measure (\<lambda>(_, _, xml). length xml)", goal_cases)
  case (2 start_tag end_tag xml i j e)
  then have "e \<le> length xml - i" "0 < e" using find_sub_Some [of "drop i xml" end_tag j] by auto
  then show ?case by simp
qed simp

declare xml_blocks.simps [simp del]

text \<open>The closing tag has at least three characters, so every round advances.\<close>

definition find_xml_blocks :: "string \<Rightarrow> string \<Rightarrow> string list" where
  "find_xml_blocks xml tag = xml_blocks (''<'' @ tag @ ''>'') (''</'' @ tag @ ''>'') xml"

text \<open>A byte offset is a character boundary unless a UTF-8 continuation byte stands there.\<close>

definition char_boundary :: "string \<Rightarrow> nat \<Rightarrow> bool" where
  "char_boundary s i \<longleftrightarrow> i = length s \<or> (i < length s \<and> \<not> (128 \<le> (of_char (s ! i) :: nat) \<and> (of_char (s ! i) :: nat) < 192))"

definition str_slice :: "string \<Rightarrow> nat \<Rightarrow> nat \<Rightarrow> string option" where
  "str_slice s i j =
     (if i \<le> j \<and> j \<le> length s \<and> char_boundary s i \<and> char_boundary s j then Some (take (j - i) (drop i s)) else None)"

text \<open>The part of \<open>parse_property_element\<close> behind the slice: name and value of the first element.\<close>

definition parse_content :: "string \<Rightarrow> (string \<times> string) option" where
  "parse_content content =
     (case find_sub content ''<'' of
        None \<Rightarrow> None
      | Some o0 \<Rightarrow>
          let tag_open = o0 + 1 in
          (case find_sub (drop tag_open content) ''>'' of
             None \<Rightarrow> None
           | Some rel \<Rightarrow>
               let tag_close = tag_open + rel;
                   full_tag = take rel (drop tag_open content);
                   prop_name = last (split CHR '':'' full_tag);
                   closing_tag = ''</'' @ full_tag @ ''>'';
                   rest = drop (tag_close + 1) content;
                   value = (case find_sub rest closing_tag of Some k \<Rightarrow> trim (take k rest) | None \<Rightarrow> [])
               in Some (prop_name, value)))"

definition parse_property_element :: "string \<Rightarrow> (string \<times> string) option option" where
  "parse_property_element xml =
     (case find_sub xml ''<D:prop>'' of
        None \<Rightarrow> Some None
      | Some i \<Rightarrow>
          (case find_sub xml ''</D:prop>'' of
             None \<Rightarrow> Some None
           | Some prop_end \<Rightarrow> map_option parse_content (str_slice xml (i + 9) prop_end)))"

text \<open>Panicking is contagious; blocks without a property are skipped.\<close>

fun collect_props :: "string list \<Rightarrow> (string \<times> string) list option" where
  "collect_props [] = Some []"
| "collect_props (b # bs) =
     (case parse_property_element b of
        None \<Rightarrow> None
      | Some r \<Rightarrow>
          map_option (\<lambda>ps. case r of Some p \<Rightarrow> p # ps | None \<Rightarrow> ps) (collect_props bs))"

definition from_xml :: "string \<Rightarrow> prop_patch_request option" where
  "from_xml xml =
     (case collect_props (find_xml_blocks xml ''D:set'') of
        None \<Rightarrow> None
      | Some sets \<Rightarrow>
          (case collect_props (find_xml_blocks xml ''D:remove'') of
             None \<Rightarrow> None
           | Some removes \<Rightarrow>
               Some \<lparr>ppr_href = ''/'',
                     modifications = map (\<lambda>(n, v). PmSet n v None) sets @ map (\<lambda>(n, _). PmRemove n None) removes\<rparr>))"

definition is_valid :: "prop_patch_request \<Rightarrow> bool" where
  "is_valid r \<longleftrightarrow> modifications r \<noteq> []"

definition pp_success :: "string \<Rightarrow> prop_patch_response" where
  "pp_success href =
     \<lparr>pp_href = href, propstats = [\<lparr>ps_status = ''HTTP/1.1 200 OK'', responsedescription = None, ps_props = []\<rparr>]\<rparr>"

definition pp_error :: "string \<Rightarrow> string \<Rightarrow> prop_patch_response" where
  "pp_error href message =
     \<lparr>pp_href = href, propstats = [\<lparr>ps_status = ''HTTP/1.1 403 Forbidden'', responsedescription = Some message, ps_props = []\<rparr>]\<rparr>"

definition pp_to_xml :: "prop_patch_response \<Rightarrow> string" where
  "pp_to_xml r =
     ''<?xml version='' @ [CHR 0x22] @ ''1.0'' @ [CHR 0x22] @ '' encoding='' @ [CHR 0x22] @ ''utf-8'' @ [CHR 0x22] @ ''?>'' @
     ''<D:multistatus xmlns:D='' @ [CHR 0x22] @ ''DAV:'' @ [CHR 0x22] @ ''>'' @
     concat (map (\<lambda>st.
         ''<D:response><D:href>'' @ pp_href r @ ''</D:href><D:propstat><D:status>'' @ ps_status st @ ''</D:status>'' @
         (case responsedescription st of
            Some desc \<Rightarrow> ''<D:responsedescription>'' @ escape_xml desc @ ''</D:responsedescription>'' | None \<Rightarrow> []) @
         ''</D:propstat></D:response>'') (propstats r)) @
     ''</D:multistatus>''"

section \<open>What is read of a property element\<close>

lemma find_sub_skip:
  assumes "c \<notin> set a"
  shows "find_sub (a @ s) (c # p) = map_option (\<lambda>i. length a + i) (find_sub s (c # p))"
  using assms by (induction a) (cases "find_sub s (c # p)"; auto)+

lemma find_sub_hit: "find_sub (p @ s) p = Some 0"
  by (rule find_sub_prefix)

lemma starts_with_close:
  assumes "CHR ''>'' \<notin> set tag" and "CHR ''>'' \<notin> set t" and "tag \<noteq> t"
  shows "\<not> starts_with (tag @ CHR ''>'' # s) (t @ ''>'')"
proof
  assume "starts_with (tag @ CHR ''>'' # s) (t @ ''>'')"
  then obtain u where u: "tag @ CHR ''>'' # s = t @ CHR ''>'' # u" by (auto simp: starts_with_iff)
  then have "split_once CHR ''>'' (tag @ CHR ''>'' # s) = split_once CHR ''>'' (t @ CHR ''>'' # u)" by simp
  with assms show False by simp
qed

text \<open>An element \<open>tag\<close> with text \<open>v\<close>.\<close>

definition element :: "string \<Rightarrow> string \<Rightarrow> string" where
  "element tag v = ''<'' @ tag @ ''>'' @ v @ ''</'' @ tag @ ''>''"

definition plain_tag :: "string \<Rightarrow> bool" where
  "plain_tag tag \<longleftrightarrow> tag \<noteq> [] \<and> hd tag \<noteq> CHR ''/'' \<and> (of_char (hd tag) :: nat) < 128 \<and> tag \<noteq> ''D:prop'' \<and> CHR ''<'' \<notin> set tag \<and> CHR ''>'' \<notin> set tag"

lemma find_close_prop:
  assumes "plain_tag tag" and "CHR ''<'' \<notin> set v" and "CHR ''<'' \<notin> set a" and "CHR ''<'' \<notin> set b"
  shows "find_sub (''<D:prop>'' @ a @ element tag v @ b @ ''</D:prop>'') ''</D:prop>'' =
         Some (8 + length a + length (element tag v) + length b)"
proof -
  obtain t ts where t: "tag = t # ts" "t \<noteq> CHR ''/''" using assms(1) by (cases tag) (auto simp: plain_tag_def)
  have "CHR ''>'' \<notin> set ''D:prop''" by simp
  from starts_with_close [OF _ this, of tag "b @ ''</D:prop>''"] assms(1)
  have n: "\<not> starts_with (tag @ CHR ''>'' # b @ ''</D:prop>'') ''D:prop>''" by (simp add: plain_tag_def)
  have "find_sub (b @ ''</D:prop>'') ''</D:prop>'' = Some (length b)"
    using find_sub_skip [OF assms(4), of "''</D:prop>''" "''/D:prop>''"] by simp
  moreover have "CHR ''<'' \<notin> set (CHR ''/'' # tag @ ''>'')" using assms(1) by (auto simp: plain_tag_def)
  ultimately have "find_sub ((CHR ''/'' # tag @ ''>'') @ b @ ''</D:prop>'') ''</D:prop>'' = Some (length tag + 2 + length b)"
    using find_sub_skip [of "CHR ''<''" "CHR ''/'' # tag @ ''>''" "b @ ''</D:prop>''" "''/D:prop>''"] by simp
  then have c: "find_sub (CHR ''<'' # (CHR ''/'' # tag @ ''>'') @ b @ ''</D:prop>'') ''</D:prop>'' =
      Some (length tag + 3 + length b)"
    using n by simp
  have "CHR ''<'' \<notin> set (tag @ ''>'' @ v)" using assms(1,2) by (auto simp: plain_tag_def)
  from find_sub_skip [OF this, of "''</'' @ tag @ ''>'' @ b @ ''</D:prop>''" "''/D:prop>''"] c
  have d: "find_sub ((tag @ ''>'' @ v) @ ''</'' @ tag @ ''>'' @ b @ ''</D:prop>'') ''</D:prop>'' =
      Some (2 * length tag + 4 + length v + length b)" by simp
  have "find_sub (''<'' @ (tag @ ''>'' @ v) @ ''</'' @ tag @ ''>'' @ b @ ''</D:prop>'') ''</D:prop>'' =
      Some (2 * length tag + 5 + length v + length b)"
    using d t by simp
  with find_sub_skip [OF assms(3), of "element tag v @ b @ ''</D:prop>''" "''/D:prop>''"]
  have "find_sub (a @ element tag v @ b @ ''</D:prop>'') ''</D:prop>'' =
      Some (length a + (2 * length tag + 5 + length v + length b))"
    by (simp add: element_def)
  then show ?thesis by (simp add: element_def)
qed

lemma drop_length_append: "drop (length xs) (xs @ ys) = ys"
  by simp

lemma find_sub_None_skip: "c \<notin> set a \<Longrightarrow> find_sub a (c # p) = None"
  using find_sub_skip [of c a "[]" p] by simp

lemma parse_content_element:
  assumes "plain_tag tag" and "CHR ''<'' \<notin> set v" and "CHR ''<'' \<notin> set a"
  shows "parse_content (a @ element tag v @ b) = Some (last (split CHR '':'' tag), trim v)"
proof -
  have o: "find_sub (a @ element tag v @ b) ''<'' = Some (length a)"
    using find_sub_skip [OF assms(3), of "element tag v @ b" "[]"] by (simp add: element_def)
  have "CHR ''>'' \<notin> set tag" using assms(1) by (simp add: plain_tag_def)
  from find_sub_skip [OF this, of "''>'' @ v @ ''</'' @ tag @ ''>'' @ b" "[]"]
  have c: "find_sub (tag @ ''>'' @ v @ ''</'' @ tag @ ''>'' @ b) ''>'' = Some (length tag)" by simp
  have v: "find_sub (v @ ''</'' @ tag @ ''>'' @ b) (''</'' @ tag @ ''>'') = Some (length v)"
    using find_sub_skip [OF assms(2), of "''</'' @ tag @ ''>'' @ b" "CHR ''/'' # tag @ ''>''"]
      find_sub_hit [of "''</'' @ tag @ ''>''" b] by simp
  have d: "drop (length a + 1) (a @ element tag v @ b) = tag @ ''>'' @ v @ ''</'' @ tag @ ''>'' @ b"
    "drop (length a + 1 + length tag + 1) (a @ element tag v @ b) = v @ ''</'' @ tag @ ''>'' @ b"
    by (simp_all add: element_def)
  show ?thesis
    unfolding parse_content_def o option.case Let_def d c
    by (simp add: v [simplified])
qed

lemma parse_content_cut:
  assumes "plain_tag tag" and "CHR ''<'' \<notin> set v" and "CHR ''<'' \<notin> set b"
  shows "parse_content (tl (element tag v) @ b) = Some (last (split CHR '':'' (''/'' @ tag)), [])"
proof -
  have e: "tl (element tag v) @ b = (tag @ ''>'' @ v) @ ''<'' @ (''/'' @ tag) @ ''>'' @ b" by (simp add: element_def)
  have n: "CHR ''<'' \<notin> set (tag @ ''>'' @ v)" "CHR ''>'' \<notin> set (''/'' @ tag)"
    using assms(1,2) by (auto simp: plain_tag_def)
  have o: "find_sub (tl (element tag v) @ b) ''<'' = Some (length (tag @ ''>'' @ v))"
    unfolding e using find_sub_skip [OF n(1), of "''<'' @ (''/'' @ tag) @ ''>'' @ b" "[]"] by simp
  have c: "find_sub ((''/'' @ tag) @ ''>'' @ b) ''>'' = Some (length (''/'' @ tag))"
    using find_sub_skip [OF n(2), of "''>'' @ b" "[]"] by simp
  have d: "drop (length (tag @ ''>'' @ v) + 1) (tl (element tag v) @ b) = (''/'' @ tag) @ ''>'' @ b"
    unfolding e by simp_all
  have "length (tag @ ''>'' @ v) + 1 + length (''/'' @ tag) + 1 = length (tl (element tag v))"
    by (simp add: element_def)
  then have d2: "drop (length (tag @ ''>'' @ v) + 1 + length (''/'' @ tag) + 1) (tl (element tag v) @ b) = b"
    by (simp only: drop_length_append)
  have r: "find_sub b (''</'' @ (''/'' @ tag) @ ''>'') = None"
    using find_sub_None_skip [OF assms(3)] by simp
  show ?thesis
    unfolding parse_content_def o option.case Let_def d c d2 using r by simp
qed

lemma space_no_markup:
  assumes "\<forall>c \<in> set a. is_space c"
  shows "CHR ''<'' \<notin> set a"
proof -
  have "\<not> is_space CHR ''<''" by (simp add: is_space_def)
  with assms show ?thesis by blast
qed

lemma space_ascii: "is_space c \<Longrightarrow> (of_char c :: nat) < 128"
  by (auto simp: is_space_def)

lemma prop_slice:
  assumes "find_sub (''<D:prop>'' @ s @ ''</D:prop>'') ''</D:prop>'' = Some (8 + length s)"
    and "s \<noteq> []" and "tl s = [] \<or> (of_char (hd (tl s)) :: nat) < 128"
  shows "parse_property_element (''<D:prop>'' @ s @ ''</D:prop>'') = Some (parse_content (tl s))"
proof -
  let ?x = "''<D:prop>'' @ s @ ''</D:prop>''"
  have l: "length ''<D:prop>'' = 8" by simp
  have "?x ! 9 = (if tl s = [] then CHR ''<'' else hd (tl s))"
    using assms(2) by (cases s; cases "tl s") (simp_all add: nth_append)
  then have b1: "char_boundary ?x 9" using assms(2,3) by (cases s) (auto simp: char_boundary_def)
  have "?x ! (8 + length s) = CHR ''<''" using nth_append_length [of "''<D:prop>'' @ s"] by simp
  then have b2: "char_boundary ?x (8 + length s)" by (simp add: char_boundary_def)
  have "take (8 + length s - 9) (drop 9 ?x) = tl s" using assms(2) by (cases s) simp_all
  then have "str_slice ?x 9 (8 + length s) = Some (tl s)"
    using b1 b2 assms(2) by (cases s) (auto simp: str_slice_def)
  moreover have f: "find_sub ?x ''<D:prop>'' = Some 0" by (rule find_sub_prefix)
  ultimately show ?thesis
    unfolding parse_property_element_def f assms(1) option.case by (simp only: add_0 option.map)
qed

text \<open>
  A property element set off by white space is read with its local name and its trimmed
  value. Written directly behind \<open><D:prop>\<close>, the same element loses its value and becomes the
  empty string, because one character too many is skipped.
\<close>

theorem property_element_value:
  assumes "plain_tag tag" and "CHR ''<'' \<notin> set v"
    and "sp \<noteq> []" and "\<forall>c \<in> set sp. is_space c" and "\<forall>c \<in> set sp'. is_space c"
  shows "parse_property_element (''<D:prop>'' @ sp @ element tag v @ sp' @ ''</D:prop>'') =
           Some (Some (last (split CHR '':'' tag), trim v)) \<and>
         parse_property_element (''<D:prop>'' @ element tag v @ sp' @ ''</D:prop>'') =
           Some (Some (last (split CHR '':'' (''/'' @ tag)), []))"
proof -
  note ns = space_no_markup [OF assms(4)] space_no_markup [OF assms(5)]
  have "\<forall>c \<in> set sp. (of_char c :: nat) < 128" using assms(4) space_ascii by blast
  then have "tl (sp @ element tag v @ sp') \<noteq> [] \<and> (of_char (hd (tl (sp @ element tag v @ sp'))) :: nat) < 128"
    using assms(3) by (cases sp; cases "tl sp") (simp_all add: element_def)
  with prop_slice [of "sp @ element tag v @ sp'"] find_close_prop [OF assms(1,2) ns] assms(3)
  have "parse_property_element (''<D:prop>'' @ sp @ element tag v @ sp' @ ''</D:prop>'') =
      Some (parse_content (tl sp @ element tag v @ sp'))" by simp
  moreover have "CHR ''<'' \<notin> set (tl sp)" using ns(1) by (cases sp) auto
  moreover have "parse_property_element (''<D:prop>'' @ element tag v @ sp' @ ''</D:prop>'') =
      Some (parse_content (tl (element tag v) @ sp'))"
    using prop_slice [of "element tag v @ sp'"] find_close_prop [OF assms(1,2) _ ns(2), of "[]"] assms(1)
    by (auto simp: element_def plain_tag_def)
  ultimately show ?thesis
    using parse_content_element [OF assms(1,2)] parse_content_cut [OF assms(1,2) ns(2)] by simp
qed

theorem property_element_value_witness:
  "parse_property_element ''<D:prop> <svn:x>1</svn:x></D:prop>'' = Some (Some (''x'', ''1'')) \<and>
   parse_property_element ''<D:prop><svn:x>1</svn:x></D:prop>'' = Some (Some (''x'', []))"
  using property_element_value [of "''svn:x''" "''1''" "'' ''" "[]"]
  by (simp add: plain_tag_def element_def is_space_def trim_def)

text \<open>An empty property list makes the slice run backwards: a panic.\<close>

lemma empty_prop_panics: "parse_property_element ''<D:prop></D:prop>'' = None"
  by code_simp

end
