(* ===== verification/Webdav_Server.thy ===== *)
theory Webdav_Server
  imports Svndiff Proppatch Property_Store Webdav_Reports
begin

text \<open>
  The state of the WebDAV server and its handlers, \<open>dsvn-webdav/src/handlers.rs\<close>: the registry
  that routes a request to a repository, the table of open transactions (activities), and the
  handlers that fill, abort and merge them.

  The repositories behind their \<open>Arc\<close>s are a heap from addresses to repositories, so two names
  may share one. A handler is one step: the table of transactions is behind a lock and a merge
  holds the commit lock from its first edit to the commit. Collecting the request body is I/O
  and has succeeded. The order in which a \<open>HashMap\<close> is walked is a parameter.
\<close>

section \<open>State\<close>

record transaction =
  txn_id :: string
  base_revision :: nat
  txn_author :: string
  log_message :: string
  created_at :: int
  staged_files :: "(string, bytes) omap"
  staged_properties :: "(string, (string, string) omap) omap"

record 'c node =
  nd_root :: string
  nd_repo :: "'c repo"
  nd_props :: sqlite_props

record registry =
  repositories :: "(string, nat) omap"
  reg_names :: "(string, string) omap"

record 'c web =
  w_heap :: "(nat, 'c node) omap"
  w_single :: "nat option"
  w_registry :: "registry option"
  w_txns :: "(string, transaction) omap"
  w_counter :: "64 word"

text \<open>The repository's and the property store's parameters, and the order of each kind of map.\<close>

record 'c web_env =
  we_repo :: "'c repo_env"
  we_props :: prop_env
  we_date :: "int \<Rightarrow> string"
  it_files :: "(string, bytes) omap \<Rightarrow> (string \<times> bytes) list"
  it_staged :: "(string, (string, string) omap) omap \<Rightarrow> (string \<times> (string, string) omap) list"
  it_props :: "(string, string) omap \<Rightarrow> (string \<times> string) list"

definition iter_ok :: "'c web_env \<Rightarrow> bool" where
  "iter_ok W \<longleftrightarrow>
     (\<forall>m. omap_ok m \<longrightarrow> set (it_files W m) = set m \<and> distinct (map fst (it_files W m))) \<and>
     (\<forall>m. omap_ok m \<longrightarrow> set (it_staged W m) = set m \<and> distinct (map fst (it_staged W m))) \<and>
     (\<forall>m. omap_ok m \<longrightarrow> set (it_props W m) = set m \<and> distinct (map fst (it_props W m)))"

datatype web_error =
    Panicked
  | CommitFailed repo_error
  | TreeFailed nat repo_error

datatype payload = Text string | Content bytes

record response =
  status :: nat
  resp_headers :: "(string \<times> string) list"
  resp_body :: payload

section \<open>The registry\<close>

datatype registry_error = AlreadyRegistered string | NotFound string

definition registry_new :: registry where
  "registry_new = \<lparr>repositories = [], reg_names = []\<rparr>"

definition register :: "string \<Rightarrow> nat \<Rightarrow> string \<Rightarrow> registry \<Rightarrow> registry \<times> (registry_error + unit)" where
  "register name a root reg =
     (if ohas (repositories reg) name then (reg, Inl (AlreadyRegistered name))
      else (reg\<lparr>repositories := oput name a (repositories reg), reg_names := oput root name (reg_names reg)\<rparr>, Inr ()))"

definition reg_get :: "registry \<Rightarrow> string \<Rightarrow> nat option" where
  "reg_get reg name = map_of (repositories reg) name"

definition get_name_by_path :: "registry \<Rightarrow> string \<Rightarrow> string option" where
  "get_name_by_path reg path = map_of (reg_names reg) path"

definition reg_list :: "registry \<Rightarrow> string list" where
  "reg_list reg = okeys (repositories reg)"

definition is_multi_repo :: "registry \<Rightarrow> bool" where
  "is_multi_repo reg \<longleftrightarrow> length (repositories reg) > 1"

definition get_default :: "nat option \<Rightarrow> registry \<Rightarrow> nat option" where
  "get_default single reg = (case repositories reg of [(_, a)] \<Rightarrow> Some a | _ \<Rightarrow> single)"

definition unregister :: "(nat \<Rightarrow> string) \<Rightarrow> string \<Rightarrow> registry \<Rightarrow> registry \<times> (registry_error + unit)" where
  "unregister root_of name reg =
     (case map_of (repositories reg) name of
        Some a \<Rightarrow> (reg\<lparr>repositories := odel name (repositories reg), reg_names := odel (root_of a) (reg_names reg)\<rparr>, Inr ())
      | None \<Rightarrow> (reg, Inl (NotFound name)))"

definition get_repo :: "'c web \<Rightarrow> web_error + nat" where
  "get_repo s = ok_or Panicked (w_single s)"

definition get_repo_by_path :: "string \<Rightarrow> 'c web \<Rightarrow> web_error + nat" where
  "get_repo_by_path path s =
     (let parts = filter (\<lambda>p. p \<noteq> []) (split CHR ''/'' (unwrap_or path (strip_prefix path ''/svn''))) in
      case w_registry s of
        None \<Rightarrow> get_repo s
      | Some reg \<Rightarrow>
          (case (case parts of p # _ \<Rightarrow> reg_get reg p | [] \<Rightarrow> None) of
             Some a \<Rightarrow> Inr a
           | None \<Rightarrow>
               (case get_default (w_single s) reg of
                  Some a \<Rightarrow> Inr a
                | None \<Rightarrow> get_repo s)))"

text \<open>The repository behind an address; an \<open>Arc\<close> always points at one.\<close>

definition node_at :: "'c web \<Rightarrow> nat \<Rightarrow> web_error + 'c node" where
  "node_at s a = ok_or Panicked (map_of (w_heap s) a)"

definition route :: "string \<Rightarrow> 'c web \<Rightarrow> web_error + (nat \<times> 'c node)" where
  "route path s = rbind (get_repo_by_path path s) (\<lambda>a. rbind (node_at s a) (\<lambda>nd. Inr (a, nd)))"

section \<open>Responses\<close>

definition REPO_PREFIX :: string where
  "REPO_PREFIX = ''/svn''"

definition plain :: "nat \<Rightarrow> string \<Rightarrow> response" where
  "plain st t = \<lparr>status = st, resp_headers = [], resp_body = Text t\<rparr>"

definition xml_type :: "string \<times> string" where
  "xml_type = (''Content-Type'', ''text/xml; charset='' @ dq @ ''utf-8'' @ dq)"

definition error_xml :: "string \<Rightarrow> string \<Rightarrow> string" where
  "error_xml code msg =
     xml_decl @ ''<D:error'' @ attr ''xmlns:D'' ''DAV:'' @ attr ''xmlns:m'' ''http://apache.org/dav/xmlns'' @
     attr ''xmlns:C'' ''svn:'' @ ''>'' @ nl @ ''<C:error/>'' @ nl @ ''<m:human-readable'' @ attr ''errcode'' code @ ''>'' @ nl @
     msg @ nl @ ''</m:human-readable>'' @ nl @ ''</D:error>''"

definition special_path :: "string \<Rightarrow> string" where
  "special_path path = unwrap_or path (strip_prefix path REPO_PREFIX)"

section \<open>Transactions\<close>

definition new_txn :: "string \<Rightarrow> nat \<Rightarrow> int \<Rightarrow> transaction" where
  "new_txn name r now =
     \<lparr>txn_id = name, base_revision = r, txn_author = [], log_message = [], created_at = now,
      staged_files = [], staged_properties = []\<rparr>"

definition put_txn :: "string \<Rightarrow> transaction \<Rightarrow> 'c web \<Rightarrow> 'c web" where
  "put_txn name t s = s\<lparr>w_txns := oput name t (w_txns s)\<rparr>"

definition txn_name :: "nat \<Rightarrow> 64 word \<Rightarrow> string" where
  "txn_name r sq = show_nat r @ ''-'' @ show_nat (unat sq)"

definition post_handler :: "int \<Rightarrow> string \<Rightarrow> string \<Rightarrow> 'c web \<Rightarrow> 'c web \<times> (web_error + response)" where
  "post_handler now path body s =
     (case route path s of
        Inl e \<Rightarrow> (s, Inl e)
      | Inr (a, nd) \<Rightarrow>
          if ends_with path ''/!svn/me'' \<and> contains_sub body ''create-txn'' then
            let r = r_current_rev (nd_repo nd);
                name = txn_name r (w_counter s);
                s1 = s\<lparr>w_counter := w_counter s + 1\<rparr>
            in (put_txn name (new_txn name r now) s1,
                Inr \<lparr>status = 201, resp_headers = [(''SVN-Txn-Name'', name), (''Content-Length'', ''0'')], resp_body = Text []\<rparr>)
          else (s, Inr (plain 405 ''Method Not Allowed'')))"

definition mkactivity_handler :: "int \<Rightarrow> string \<Rightarrow> 'c web \<Rightarrow> 'c web \<times> (web_error + response)" where
  "mkactivity_handler now path s =
     (case route path s of
        Inl e \<Rightarrow> (s, Inl e)
      | Inr (a, nd) \<Rightarrow>
          (case strip_prefix (special_path path) ''/!svn/act/'' of
             None \<Rightarrow> (s, Inr (plain 405 ''MKACTIVITY only supported on /!svn/act/''))
           | Some rest \<Rightarrow>
               let client = trim_end_matches CHR ''/'' rest;
                   r = r_current_rev (nd_repo nd);
                   (name, s1) = (if client = [] then (txn_name r (w_counter s), s\<lparr>w_counter := w_counter s + 1\<rparr>)
                                 else (client, s))
               in if ohas (w_txns s1) name then
                    (s1, Inr \<lparr>status = 405, resp_headers = [xml_type],
                              resp_body = Text (error_xml ''160024'' (''Activity '' @ [CHR 0x27] @ escape_xml name @ [CHR 0x27] @ '' already exists.''))\<rparr>)
                  else
                    (put_txn name (new_txn name r now) s1,
                     Inr \<lparr>status = 201,
                          resp_headers = [(''Location'', REPO_PREFIX @ ''/!svn/act/'' @ name), xml_type, (''SVN-Txn-Name'', name)],
                          resp_body = Text (xml_decl @ ''<D:mkactivity-response'' @ attr ''xmlns:D'' ''DAV:'' @ ''>'' @ nl @ ''<D:href>'' @
                            REPO_PREFIX @ ''/!svn/act/'' @ name @ ''</D:href>'' @ nl @ ''</D:mkactivity-response>'')\<rparr>)))"

text \<open>\<open>PUT\<close>: a panic while decoding is the error \<open>Panicked\<close>.\<close>

definition put_handler :: "string \<Rightarrow> bytes \<Rightarrow> 'c web \<Rightarrow> 'c web \<times> (web_error + response)" where
  "put_handler path body s =
     (case Option.bind (strip_prefix (special_path path) ''/!svn/txr/'') (split_once CHR ''/'') of
        None \<Rightarrow> (s, Inr (plain 405 ''PUT not allowed''))
      | Some (name, file_path) \<Rightarrow>
          (case decode_svndiff body of
             None \<Rightarrow> (s, Inl Panicked)
           | Some content \<Rightarrow>
               (case map_of (w_txns s) name of
                  None \<Rightarrow> (s, Inr (plain 404 ''Transaction not found''))
                | Some t \<Rightarrow>
                    (put_txn name (t\<lparr>staged_files := oput (''/'' @ file_path) content (staged_files t)\<rparr>) s,
                     Inr \<lparr>status = 201,
                          resp_headers = [(''Location'', REPO_PREFIX @ ''/!svn/txr/'' @ name @ ''/'' @ file_path)],
                          resp_body = Text []\<rparr>))))"

definition handle_delete_activity :: "string \<Rightarrow> 'c web \<Rightarrow> 'c web \<times> response" where
  "handle_delete_activity name s =
     (if ohas (w_txns s) name then (s\<lparr>w_txns := odel name (w_txns s)\<rparr>, plain 204 [])
      else (s, \<lparr>status = 404, resp_headers = [xml_type],
                resp_body = Text (error_xml ''160007'' (''Activity '' @ [CHR 0x27] @ escape_xml name @ [CHR 0x27] @ '' not found.''))\<rparr>))"

definition delete_handler :: "string \<Rightarrow> 'c web \<Rightarrow> 'c web \<times> response" where
  "delete_handler path s =
     (case strip_prefix (special_path path) ''/!svn/act/'' of
        Some rest \<Rightarrow>
          (let name = trim_end_matches CHR ''/'' rest in
           if name = [] then (s, plain 405 ''Cannot DELETE the activity collection itself'')
           else handle_delete_activity name s)
      | None \<Rightarrow> (s, plain 204 []))"

section \<open>PROPPATCH\<close>

fun apply_modification :: "prop_env \<Rightarrow> string \<Rightarrow> property_modification \<Rightarrow> sqlite_props \<Rightarrow> sqlite_props" where
  "apply_modification P path (PmSet n v _) st = sp_set P path n v st"
| "apply_modification P path (PmRemove n _) st = fst (sp_remove P path n st)"

definition multistatus_head :: string where
  "multistatus_head =
     xml_decl @ ''<D:multistatus'' @ attr ''xmlns:D'' ''DAV:'' @
     attr ''xmlns:ns3'' ''http://subversion.tigris.org/xmlns/dav/'' @
     attr ''xmlns:ns2'' ''http://subversion.tigris.org/xmlns/custom/'' @
     attr ''xmlns:ns1'' ''http://subversion.tigris.org/xmlns/svn/'' @ attr ''xmlns:ns0'' ''DAV:'' @ ''>'' @ nl @
     ''<D:response>'' @ nl"

definition multistatus_tail :: string where
  "multistatus_tail =
     ''<D:status>HTTP/1.1 200 OK</D:status>'' @ nl @ ''</D:propstat>'' @ nl @ ''</D:response>'' @ nl @ ''</D:multistatus>''"

definition proppatch_handler :: "'c web_env \<Rightarrow> string \<Rightarrow> string \<Rightarrow> 'c web \<Rightarrow> 'c web \<times> (web_error + response)" where
  "proppatch_handler W path body s =
     (case route path s of
        Inl e \<Rightarrow> (s, Inl e)
      | Inr (a, nd) \<Rightarrow>
          if starts_with (special_path path) ''/!svn/txr/'' then
            (s, Inr \<lparr>status = 207, resp_headers = [xml_type],
                     resp_body = Text (multistatus_head @ ''<D:href>'' @ path @ ''</D:href>'' @ nl @ ''<D:propstat>'' @ nl @
                       ''<D:prop/>'' @ nl @ multistatus_tail)\<rparr>)
          else
            (case strip_prefix (special_path path) ''/!svn/txn/'' of
               Some name \<Rightarrow>
                 (case (extract_text_between body ''<S:log>'' ''</S:log>'', map_of (w_txns s) name) of
                    (Some msg, Some t) \<Rightarrow> put_txn name (t\<lparr>log_message := msg\<rparr>) s
                  | _ \<Rightarrow> s,
                  Inr \<lparr>status = 207, resp_headers = [xml_type],
                       resp_body = Text (multistatus_head @ ''<D:href>'' @ REPO_PREFIX @ ''/!svn/txn/'' @ name @ ''</D:href>'' @ nl @
                         ''<D:propstat>'' @ nl @ ''<D:prop>'' @ nl @ ''<ns1:log/>'' @ nl @ ''</D:prop>'' @ nl @ multistatus_tail)\<rparr>)
             | None \<Rightarrow>
                 (case from_xml body of
                    None \<Rightarrow> (s, Inl Panicked)
                  | Some req \<Rightarrow>
                      (s\<lparr>w_heap := oput a (nd\<lparr>nd_props := fold (apply_modification (we_props W) path) (modifications req) (nd_props nd)\<rparr>) (w_heap s)\<rparr>,
                       Inr \<lparr>status = 207, resp_headers = [(''Content-Type'', ''text/xml; charset=utf-8'')],
                            resp_body = Text (pp_to_xml (pp_success path))\<rparr>))))"

section \<open>MERGE\<close>

definition is_executable :: "string \<Rightarrow> bool" where
  "is_executable p \<longleftrightarrow> ends_with p ''.sh'' \<or> contains_sub p ''/bin/''"

definition stage_files :: "'c repo_env \<Rightarrow> (string \<times> bytes) list \<Rightarrow> 'c repo \<Rightarrow> 'c repo" where
  "stage_files E fs r = fold (\<lambda>(p, d) r. fst (add_file E p d (is_executable p) r)) fs r"

definition stage_properties :: "'c web_env \<Rightarrow> (string \<times> (string, string) omap) list \<Rightarrow> sqlite_props \<Rightarrow> sqlite_props" where
  "stage_properties W ps st =
     fold (\<lambda>(p, m) st. fold (\<lambda>(n, v) st. sp_set (we_props W) (REPO_PREFIX @ p) n v st) (it_props W m) st) ps st"

definition merge_xml :: "'c web_env \<Rightarrow> nat \<Rightarrow> int \<Rightarrow> string \<Rightarrow> string" where
  "merge_xml W r now a =
     xml_decl @ ''<D:merge-response'' @ attr ''xmlns:D'' ''DAV:'' @ ''>'' @ nl @ ''<D:updated-set>'' @ nl @ ''<D:response>'' @ nl @
     ''<D:href>'' @ REPO_PREFIX @ ''/!svn/vcc/default</D:href>'' @ nl @ ''<D:propstat><D:prop>'' @ nl @
     ''<D:resourcetype><D:baseline/></D:resourcetype>'' @ nl @ ''<D:version-name>'' @ show_nat r @ ''</D:version-name>'' @ nl @
     ''<D:creationdate>'' @ we_date W now @ ''</D:creationdate>'' @ nl @
     ''<D:creator-displayname>'' @ escape_xml a @ ''</D:creator-displayname>'' @ nl @ ''</D:prop>'' @ nl @
     ''<D:status>HTTP/1.1 200 OK</D:status>'' @ nl @ ''</D:propstat>'' @ nl @ ''</D:response>'' @ nl @ ''</D:updated-set>'' @ nl @
     ''</D:merge-response>''"

text \<open>The part of \<open>merge_handler\<close> under the commit lock: stage the files and properties, commit.\<close>

definition merge_author :: "transaction \<Rightarrow> string" where
  "merge_author t = (if txn_author t = [] then ''anonymous'' else txn_author t)"

definition merge_message :: "transaction \<Rightarrow> string" where
  "merge_message t = (if log_message t = [] then ''No log message'' else log_message t)"

definition merge_txn :: "'c web_env \<Rightarrow> int \<Rightarrow> transaction \<Rightarrow> 'c node \<Rightarrow> 'c node \<times> (web_error + response)" where
  "merge_txn W now t nd =
     (let r1 = stage_files (we_repo W) (it_files W (staged_files t)) (nd_repo nd);
          props = stage_properties W (it_staged W (staged_properties t)) (nd_props nd)
      in case commit (we_repo W) (merge_author t) (merge_message t) now r1 of
           (r2, Inl e) \<Rightarrow> (nd\<lparr>nd_repo := r2, nd_props := props\<rparr>, Inl (CommitFailed e))
         | (r2, Inr n) \<Rightarrow>
             (nd\<lparr>nd_repo := r2, nd_props := props\<rparr>,
              Inr \<lparr>status = 200, resp_headers = [(''Content-Type'', ''text/xml''), (''Cache-Control'', ''no-cache'')],
                   resp_body = Text (merge_xml W n now (merge_author t))\<rparr>))"

definition merge_target :: "string \<Rightarrow> string" where
  "merge_target body = unwrap_or [] (extract_text_between body ''/!svn/txn/'' ''</D:href>'')"

definition merge_handler :: "'c web_env \<Rightarrow> int \<Rightarrow> string \<Rightarrow> string \<Rightarrow> 'c web \<Rightarrow> 'c web \<times> (web_error + response)" where
  "merge_handler W now path body s =
     (case route path s of
        Inl e \<Rightarrow> (s, Inl e)
      | Inr (a, nd) \<Rightarrow>
          let name = merge_target body;
              s1 = s\<lparr>w_txns := odel name (w_txns s)\<rparr>
          in case map_of (w_txns s) name of
               None \<Rightarrow> (s1, Inr (plain 404 ''Transaction not found''))
             | Some t \<Rightarrow>
                 (case merge_txn W now t nd of
                    (nd', res) \<Rightarrow> (s1\<lparr>w_heap := oput a nd' (w_heap s)\<rparr>, res)))"

section \<open>GET and HEAD\<close>

definition handle_list_activities :: "'c web \<Rightarrow> web_error + response" where
  "handle_list_activities s =
     rbind (route ''/svn'' s) (\<lambda>(_, nd). Inr
       \<lparr>status = 200, resp_headers = [xml_type, (''SVN-Repository-UUID'', r_uuid (nd_repo nd))],
        resp_body = Text (xml_decl @ ''<D:activity-collection-set'' @ attr ''xmlns:D'' ''DAV:'' @ ''>'' @ nl @
          concat (map (\<lambda>n. ''  <D:href>'' @ REPO_PREFIX @ ''/!svn/act/'' @ n @ ''</D:href>'' @ nl) (okeys (w_txns s))) @
          ''</D:activity-collection-set>'')\<rparr>)"

definition get_handler :: "'c web_env \<Rightarrow> string \<Rightarrow> 'c web \<Rightarrow> ('c web \<times> (web_error + response)) option" where
  "get_handler W path s =
     (case route path s of
        Inl e \<Rightarrow> Some (s, Inl e)
      | Inr (a, nd) \<Rightarrow>
          if special_path path \<in> {''/!svn/act/'', ''/!svn/act''} then Some (s, handle_list_activities s)
          else if contains_sub path ''!svn'' then Some (s, Inr (plain 404 ''Not found''))
          else if ends_with path ''/'' \<or> path = ''/svn'' then
            Some (s, Inr \<lparr>status = 405, resp_headers = [(''Allow'', ''PROPFIND'')], resp_body = Text ''Use PROPFIND''\<rparr>)
          else map_option (\<lambda>(r1, res).
                 (s\<lparr>w_heap := oput a (nd\<lparr>nd_repo := r1\<rparr>) (w_heap s)\<rparr>,
                  Inr (case res of
                         Inr content \<Rightarrow> \<lparr>status = 200, resp_headers = [(''Content-Type'', ''application/octet-stream'')], resp_body = Content content\<rparr>
                       | Inl _ \<Rightarrow> plain 404 ''Not found'')))
                 (get_file (we_repo W) path (r_current_rev (nd_repo nd)) (nd_repo nd)))"

definition head_handler :: "'c web_env \<Rightarrow> string \<Rightarrow> 'c web \<Rightarrow> ('c web \<times> (web_error + response)) option" where
  "head_handler W path s =
     (case route path s of
        Inl e \<Rightarrow> Some (s, Inl e)
      | Inr (a, nd) \<Rightarrow>
          if contains_sub path ''!svn'' then Some (s, Inr (plain 404 []))
          else map_option (\<lambda>(r1, found).
                 (s\<lparr>w_heap := oput a (nd\<lparr>nd_repo := r1\<rparr>) (w_heap s)\<rparr>,
                  Inr (if found then \<lparr>status = 200, resp_headers = [(''Content-Type'', ''application/octet-stream'')], resp_body = Text []\<rparr>
                       else plain 404 [])))
                 (exists_path (we_repo W) path (r_current_rev (nd_repo nd)) (nd_repo nd)))"

text \<open>The methods that answer without doing anything: \<open>COPY\<close>, \<open>MOVE\<close> and \<open>MKCOL\<close> claim to have created something.\<close>

definition lock_handler :: response where "lock_handler = plain 200 []"
definition unlock_handler :: response where "unlock_handler = plain 204 []"
definition copy_handler :: response where "copy_handler = plain 201 []"
definition move_handler :: response where "move_handler = plain 201 []"
definition mkcol_handler :: response where "mkcol_handler = plain 201 []"
definition checkout_handler :: response where "checkout_handler = plain 200 []"

end
