(* ===== verification/Webdav_Transactions.thy ===== *)
theory Webdav_Transactions
  imports Webdav_Server
begin

text \<open>
  What the server promises about transactions: requests as a datatype with the dispatch of
  \<open>WebDavHandler::handle\<close>, the states that serving them can reach, isolation of transactions and
  of the repositories, and what a merge publishes.
\<close>

section \<open>Serving requests\<close>

datatype request =
    Post string string
  | MkActivity string
  | Put string bytes
  | PropPatch string string
  | DeleteReq string
  | Merge string string
  | Get string
  | Head string
  | Lock | Unlock | Copy | Move | MkCol | Checkout

fun serve :: "'c web_env \<Rightarrow> int \<Rightarrow> request \<Rightarrow> 'c web \<Rightarrow> ('c web \<times> (web_error + response)) option" where
  "serve W now (Post path body) s = Some (post_handler now path body s)"
| "serve W now (MkActivity path) s = Some (mkactivity_handler now path s)"
| "serve W now (Put path body) s = Some (put_handler path body s)"
| "serve W now (PropPatch path body) s = Some (proppatch_handler W path body s)"
| "serve W now (DeleteReq path) s = Some (case delete_handler path s of (s', r) \<Rightarrow> (s', Inr r))"
| "serve W now (Merge path body) s = Some (merge_handler W now path body s)"
| "serve W now (Get path) s = get_handler W path s"
| "serve W now (Head path) s = head_handler W path s"
| "serve W now Lock s = Some (s, Inr lock_handler)"
| "serve W now Unlock s = Some (s, Inr unlock_handler)"
| "serve W now Copy s = Some (s, Inr copy_handler)"
| "serve W now Move s = Some (s, Inr move_handler)"
| "serve W now MkCol s = Some (s, Inr mkcol_handler)"
| "serve W now Checkout s = Some (s, Inr checkout_handler)"

text \<open>A repository that only the server has written: its history is reachable and nothing is pending.\<close>

definition clean_repo :: "'c repo_env \<Rightarrow> 'c repo \<Rightarrow> bool" where
  "clean_repo E r \<longleftrightarrow> reachable E r \<and> r_pending r = []"

definition repos_clean :: "'c web_env \<Rightarrow> 'c web \<Rightarrow> bool" where
  "repos_clean W s \<longleftrightarrow> (\<forall>a nd. map_of (w_heap s) a = Some nd \<longrightarrow> clean_repo (we_repo W) (nd_repo nd))"

definition heads_small :: "'c web \<Rightarrow> bool" where
  "heads_small s \<longleftrightarrow> (\<forall>a nd. map_of (w_heap s) a = Some nd \<longrightarrow> r_current_rev (nd_repo nd) < 2 ^ 64)"

definition txn_ok :: "transaction \<Rightarrow> bool" where
  "txn_ok t \<longleftrightarrow> omap_ok (staged_files t) \<and> staged_properties t = [] \<and> txn_author t = []"

definition txns_ok :: "'c web \<Rightarrow> bool" where
  "txns_ok s \<longleftrightarrow> (\<forall>n t. map_of (w_txns s) n = Some t \<longrightarrow> txn_ok t \<and> txn_id t = n)"

text \<open>The states of a server whose requests are answered (no panic, no rejected commit).\<close>

inductive web_reachable :: "'c web_env \<Rightarrow> 'c web \<Rightarrow> bool" for W where
  started: "repos_clean W s \<Longrightarrow> w_txns s = [] \<Longrightarrow> web_reachable W s"
| served: "web_reachable W s \<Longrightarrow> serve W now req s = Some (s', Inr resp) \<Longrightarrow> heads_small s' \<Longrightarrow> web_reachable W s'"

section \<open>Staging the files of a merge\<close>

lemma pending_add_file:
  assumes "externals_ok E"
  shows "pend_of (fst (add_file E p d x r)) =
         (pend_of r)(trim_start_matches CHR ''/'' p \<mapsto> Some (tree_entry_new (trim_start_matches CHR ''/'' p) (from_data E d) KBlob (file_mode x)))"
  using assms by (simp add: add_file_def Let_def pend_insert)

abbreviation tree_path :: "string \<Rightarrow> string" where
  "tree_path p \<equiv> trim_start_matches CHR ''/'' p"

definition no_deletes :: "'c repo \<Rightarrow> bool" where
  "no_deletes r \<longleftrightarrow> (\<forall>q. pend_of r q \<noteq> Some None)"

text \<open>The object slots of all staged contents are free or hold that content.\<close>

definition slots_ok :: "'c repo_env \<Rightarrow> bytes set \<Rightarrow> 'c repo \<Rightarrow> bool" where
  "slots_ok E D r \<longleftrightarrow> (\<forall>d \<in> D. slot_ok E r d)"

definition holds :: "'c repo_env \<Rightarrow> 'c repo \<Rightarrow> bytes \<Rightarrow> bool" where
  "holds E r d \<longleftrightarrow> (\<exists>bs. map_of (r_objects r) (from_data E d) = Some bs \<and> map_option fst (de_blob E bs) = Some d)"

lemma holds_kept: "holds E r d \<Longrightarrow> objects_kept r r' \<Longrightarrow> holds E r' d"
  by (auto simp: holds_def objects_kept_def)

lemma add_file_other_slot:
  assumes "i \<noteq> from_data E d"
  shows "map_of (r_objects (fst (add_file E p d x r))) i = map_of (r_objects r) i"
  using assms by (simp add: add_file_def Let_def conn_tree_insert_def store_object_def omap_simps)

lemma slots_ok_add:
  assumes "externals_ok E" and "slots_ok E D r" and "d \<in> D" and "inj_on (from_data E) D"
  shows "slots_ok E D (fst (add_file E p d x r))"
  unfolding slots_ok_def
proof
  fix c
  assume c: "c \<in> D"
  show "slot_ok E (fst (add_file E p d x r)) c"
  proof (cases "c = d")
    case True
    with add_file_object [OF assms(1), of r d p x] assms(2,3) show ?thesis by (auto simp: slots_ok_def slot_ok_def)
  next
    case False
    with assms(3,4) c have "from_data E c \<noteq> from_data E d" by (auto dest: inj_onD)
    with assms(2) c show ?thesis by (simp add: slots_ok_def slot_ok_def add_file_other_slot)
  qed
qed

text \<open>One file: what it keeps and what it adds.\<close>

lemma stage_one:
  assumes "repo_inv E r" and "no_deletes r"
  shows "edit_safe E (AddFile p d x) r" and "repo_inv E (fst (add_file E p d x r))"
    and "no_deletes (fst (add_file E p d x r))"
    and "r_current_rev (fst (add_file E p d x r)) = r_current_rev r"
    and "tree_of E (fst (add_file E p d x r)) = tree_of E r"
    and "objects_kept r (fst (add_file E p d x r))"
proof -
  have ext: "externals_ok E" using assms(1) by (simp add: repo_inv_def env_ok_def)
  show safe: "edit_safe E (AddFile p d x) r" using assms(2) by (simp add: add_safe_def no_deletes_def)
  show "repo_inv E (fst (add_file E p d x r))" using edit_repo_inv [OF assms(1) safe] by simp
  show "no_deletes (fst (add_file E p d x r))"
    using assms(2) by (simp add: no_deletes_def pending_add_file [OF ext])
  show "r_current_rev (fst (add_file E p d x r)) = r_current_rev r" "tree_of E (fst (add_file E p d x r)) = tree_of E r"
    using edit_head_tree [of E "AddFile p d x" r] by simp_all
  show "objects_kept r (fst (add_file E p d x r))" using objects_kept_edit [of r E "AddFile p d x"] by simp
qed

lemma stage_files_Cons:
  "stage_files E ((p, d) # fs) r = stage_files E fs (fst (add_file E p d (is_executable p) r))"
  by (simp add: stage_files_def)

lemma stage_files_keep:
  assumes "repo_inv E r" and "no_deletes r"
  shows "repo_inv E (stage_files E fs r) \<and> no_deletes (stage_files E fs r) \<and>
         r_current_rev (stage_files E fs r) = r_current_rev r \<and> tree_of E (stage_files E fs r) = tree_of E r \<and>
         objects_kept r (stage_files E fs r)"
  using assms
proof (induction fs arbitrary: r)
  case Nil
  then show ?case by (simp add: stage_files_def objects_kept_def)
next
  case (Cons f fs)
  obtain p d where f: "f = (p, d)" by (cases f)
  note one = stage_one [OF Cons.prems, of p d "is_executable p"]
  from Cons.IH [OF one(2,3)] one(4,5,6) show ?case
    by (auto simp: f stage_files_Cons intro: objects_kept_trans)
qed

lemma stage_files_reachable:
  assumes "reachable E r" and "no_deletes r"
  shows "reachable E (stage_files E fs r)"
  using assms
proof (induction fs arbitrary: r)
  case (Cons f fs)
  obtain p d where f: "f = (p, d)" by (cases f)
  have i: "repo_inv E r" using reachable_life [OF Cons.prems(1)] by (simp add: life_inv_def)
  note one = stage_one [OF i Cons.prems(2), of p d "is_executable p"]
  from reachable.edited [OF Cons.prems(1) one(1)] have "reachable E (fst (add_file E p d (is_executable p) r))" by simp
  from Cons.IH [OF this one(3)] show ?case by (simp add: f stage_files_Cons)
qed (simp add: stage_files_def)

lemma stage_files_other:
  assumes "repo_inv E r" and "no_deletes r" and "q \<notin> tree_path ` fst ` set fs"
  shows "map_of (work (stage_files E fs r)) q = map_of (work r) q"
  using assms
proof (induction fs arbitrary: r)
  case (Cons f fs)
  obtain p d where f: "f = (p, d)" by (cases f)
  note one = stage_one [OF Cons.prems(1,2), of p d "is_executable p"]
  from Cons.IH [OF one(2,3)] Cons.prems(3) add_file_work [OF Cons.prems(1)] show ?case
    by (simp add: f stage_files_Cons)
qed (simp add: stage_files_def)

lemma stage_files_entry:
  assumes "repo_inv E r" and "no_deletes r" and "(p, d) \<in> set fs" and "distinct (map (tree_path \<circ> fst) fs)"
    and "slots_ok E (snd ` set fs) r" and "inj_on (from_data E) (snd ` set fs)"
  shows "map_of (work (stage_files E fs r)) (tree_path p) =
           Some (tree_entry_new (tree_path p) (from_data E d) KBlob (file_mode (is_executable p))) \<and>
         holds E (stage_files E fs r) d"
  using assms
proof (induction fs arbitrary: r)
  case (Cons f fs)
  obtain p0 d0 where f: "f = (p0, d0)" by (cases f)
  let ?r = "fst (add_file E p0 d0 (is_executable p0) r)"
  have ext: "externals_ok E" using Cons.prems(1) by (simp add: repo_inv_def env_ok_def)
  note one = stage_one [OF Cons.prems(1,2), of p0 d0 "is_executable p0"]
  show ?case
  proof (cases "(p, d) = f")
    case True
    have "tree_path p \<notin> tree_path ` fst ` set fs"
      using Cons.prems(4) by (simp add: image_comp flip: True)
    then have "map_of (work (stage_files E fs ?r)) (tree_path p) = map_of (work ?r) (tree_path p)"
      by (rule stage_files_other [OF one(2,3)])
    moreover have "slot_ok E r d0" using Cons.prems(5) f by (simp add: slots_ok_def)
    then have "holds E ?r d0" using add_file_object [OF ext] by (simp add: holds_def)
    then have "holds E (stage_files E fs ?r) d0"
      using holds_kept stage_files_keep [OF one(2,3)] by blast
    ultimately show ?thesis
      using True add_file_work [OF Cons.prems(1)] by (simp add: f stage_files_Cons)
  next
    case False
    have "slots_ok E (insert d0 (snd ` set fs)) ?r"
      using slots_ok_add [OF ext _ _ Cons.prems(6)] Cons.prems(5) by (simp add: f)
    then have "slots_ok E (snd ` set fs) ?r" by (simp add: slots_ok_def)
    moreover have "inj_on (from_data E) (snd ` set fs)" using Cons.prems(6) by (simp add: inj_on_def)
    moreover have "(p, d) \<in> set fs" using Cons.prems(3) False by auto
    ultimately show ?thesis
      using Cons.IH [OF one(2,3)] Cons.prems(4) by (simp add: f stage_files_Cons)
  qed
qed simp

section \<open>Invariants of the server\<close>

lemma clean_repo_inv:
  assumes "clean_repo E r"
  shows "repo_inv E r" and "no_deletes r" and "work r = tree_of E r (r_current_rev r)"
proof -
  have l: "repo_inv E r" and p: "r_pending r = []"
    using assms reachable_life [of E r] by (simp_all add: clean_repo_def life_inv_def)
  then have e: "pend_of r = Map.empty" by (simp add: pend_of_def fun_eq_iff)
  show "repo_inv E r" by (rule l)
  show "no_deletes r" by (simp add: no_deletes_def e)
  have "omap_ok (work r)" using work_eq [of r] tables_ok_rows [OF repo_inv_tables [OF l]] by simp
  moreover have "map_of (work r) = map_of (tree_of E r (r_current_rev r))"
    using l e by (simp add: repo_inv_def work_inv_def)
  ultimately show "work r = tree_of E r (r_current_rev r)" by (intro omap_eqI) simp_all
qed

lemma commit_cleans:
  assumes "repo_inv E r" and "commit E a m ts r = (r', Inr n)"
  shows "r_pending r' = []"
proof -
  obtain chs a m ts where "commits_as E chs a m ts r r'"
    using commit_okE [OF assms(1) commit_okI [OF assms(2)]] .
  then show ?thesis by (simp add: commits_as_def Let_def)
qed

text \<open>The repository a successful merge leaves behind.\<close>

lemma merged_repo:
  assumes "clean_repo E r" and "commit E a m ts (stage_files E fs r) = (r', Inr n)" and "n < 2 ^ 64"
  shows "clean_repo E r'"
proof -
  have "reachable E r" "no_deletes r" using assms(1) clean_repo_inv(2) by (auto simp: clean_repo_def)
  from stage_files_reachable [OF this] have s: "reachable E (stage_files E fs r)" .
  then have "repo_inv E (stage_files E fs r)" using reachable_life [OF s] by (simp add: life_inv_def)
  from reachable.committed [OF s assms(2,3)] commit_cleans [OF this assms(2)] show ?thesis by (simp add: clean_repo_def)
qed

lemma get_file_clean:
  assumes "clean_repo E r" and "get_file E p n r = Some (r', res)"
  shows "clean_repo E r'" and "only_cache r r'"
proof -
  have i: "lru_ok E" "history_inv E r"
    using clean_repo_inv(1) [OF assms(1)] by (simp_all add: repo_inv_def env_ok_def)
  obtain s' res' where "get_file E p n r = Some (s', res')" "read_ok E r s'" using get_file_ok [OF i] .
  with assms(2) show oc: "only_cache r r'" by (simp add: read_ok_def)
  from assms reachable.read [OF _ assms(2)] only_cacheD(7) [OF oc] show "clean_repo E r'" by (simp add: clean_repo_def)
qed

lemma route_node: "route path s = Inr (a, nd) \<Longrightarrow> map_of (w_heap s) a = Some nd"
  by (auto simp: route_def node_at_def rbind_eq_Inr ok_or_def split: option.splits)

lemma repos_clean_put:
  assumes "repos_clean W s" and "clean_repo (we_repo W) (nd_repo nd)" and "w_heap s' = oput a nd (w_heap s)"
  shows "repos_clean W s'"
  using assms by (auto simp: repos_clean_def omap_simps)

lemma merge_txn_cases:
  assumes "merge_txn W now t nd = (nd', res)"
  obtains (rejected) e r' where "commit (we_repo W) (merge_author t) (merge_message t) now
      (stage_files (we_repo W) (it_files W (staged_files t)) (nd_repo nd)) = (r', Inl e)" "res = Inl (CommitFailed e)"
  | (committed) n r' resp where "commit (we_repo W) (merge_author t) (merge_message t) now
      (stage_files (we_repo W) (it_files W (staged_files t)) (nd_repo nd)) = (r', Inr n)"
      "nd_repo nd' = r'" "res = Inr resp" "status resp = 200"
proof -
  obtain r' cres where c: "commit (we_repo W) (merge_author t) (merge_message t) now
      (stage_files (we_repo W) (it_files W (staged_files t)) (nd_repo nd)) = (r', cres)" by fastforce
  show ?thesis
  proof (cases cres)
    case (Inl e)
    with c assms that(1) show ?thesis by (simp add: merge_txn_def)
  next
    case (Inr n)
    with c assms that(2) show ?thesis by (auto simp: merge_txn_def)
  qed
qed

lemma merge_handler_cases:
  assumes "merge_handler W now path body s = (s', res)"
  obtains (refused) e where "route path s = Inl e" "s' = s" "res = Inl e"
  | (missing) "map_of (w_txns s) (merge_target body) = None" "s' = s\<lparr>w_txns := odel (merge_target body) (w_txns s)\<rparr>"
      "res = Inr (plain 404 ''Transaction not found'')"
  | (merged) a nd t nd' where "route path s = Inr (a, nd)" "map_of (w_txns s) (merge_target body) = Some t"
      "merge_txn W now t nd = (nd', res)"
      "s' = s\<lparr>w_txns := odel (merge_target body) (w_txns s), w_heap := oput a nd' (w_heap s)\<rparr>"
proof (cases "route path s")
  case (Inl e)
  then have "merge_handler W now path body s = (s, Inl e)" by (simp add: merge_handler_def)
  with assms have "s' = s" "res = Inl e" by simp_all
  from that(1) [OF Inl this] show ?thesis .
next
  case r: (Inr an)
  obtain a nd where an: "an = (a, nd)" by (cases an)
  show ?thesis
  proof (cases "map_of (w_txns s) (merge_target body)")
    case None
    with r an have "merge_handler W now path body s =
        (s\<lparr>w_txns := odel (merge_target body) (w_txns s)\<rparr>, Inr (plain 404 ''Transaction not found''))"
      by (simp only: merge_handler_def sum.case prod.case Let_def option.case)
    with assms have "s' = s\<lparr>w_txns := odel (merge_target body) (w_txns s)\<rparr>" "res = Inr (plain 404 ''Transaction not found'')"
      by simp_all
    from that(2) [OF None this] show ?thesis .
  next
    case (Some t)
    obtain nd' res' where m: "merge_txn W now t nd = (nd', res')" by fastforce
    with r an Some have "merge_handler W now path body s =
        (s\<lparr>w_txns := odel (merge_target body) (w_txns s), w_heap := oput a nd' (w_heap s)\<rparr>, res')"
      by (simp only: merge_handler_def sum.case prod.case Let_def option.case)
    with assms have eqs: "res' = res" "s' = s\<lparr>w_txns := odel (merge_target body) (w_txns s), w_heap := oput a nd' (w_heap s)\<rparr>"
      by simp_all
    from that(3) [OF r [unfolded an] Some m [unfolded eqs(1)] eqs(2)] show ?thesis .
  qed
qed

text \<open>The transaction a request is about.\<close>

definition act_name :: "string \<Rightarrow> string option" where
  "act_name path = map_option (trim_end_matches CHR ''/'') (strip_prefix (special_path path) ''/!svn/act/'')"

definition fresh_name :: "string \<Rightarrow> 'c web \<Rightarrow> string option" where
  "fresh_name path s =
     (case route path s of Inr (a, nd) \<Rightarrow> Some (txn_name (r_current_rev (nd_repo nd)) (w_counter s)) | Inl _ \<Rightarrow> None)"

fun txn_of :: "request \<Rightarrow> 'c web \<Rightarrow> string option" where
  "txn_of (Post path body) s = fresh_name path s"
| "txn_of (MkActivity path) s = (if act_name path = Some [] then fresh_name path s else act_name path)"
| "txn_of (Put path body) s =
     map_option fst (Option.bind (strip_prefix (special_path path) ''/!svn/txr/'') (split_once CHR ''/''))"
| "txn_of (PropPatch path body) s = strip_prefix (special_path path) ''/!svn/txn/''"
| "txn_of (DeleteReq path) s = act_name path"
| "txn_of (Merge path body) s = Some (merge_target body)"
| "txn_of _ s = None"

text \<open>
  A request that stages: the repositories stay, and the table of transactions gains, changes or
  loses at most one, \<open>n\<close>.
\<close>

definition stages :: "string option \<Rightarrow> 'c web \<Rightarrow> 'c web \<Rightarrow> bool" where
  "stages n s s' \<longleftrightarrow> w_heap s' = w_heap s \<and>
     (w_txns s' = w_txns s \<or>
      (\<exists>k. n = Some k \<and> (w_txns s' = odel k (w_txns s) \<or>
         (\<exists>t. w_txns s' = oput k t (w_txns s) \<and> (txns_ok s \<longrightarrow> txn_ok t \<and> txn_id t = k)))))"

lemma stages_same [simp]: "stages n s s" "w_heap s' = w_heap s \<Longrightarrow> w_txns s' = w_txns s \<Longrightarrow> stages n s s'"
  by (simp_all add: stages_def)

lemma stages_put:
  assumes "txns_ok s \<Longrightarrow> txn_ok t \<and> txn_id t = k" and "w_heap s' = w_heap s" and "w_txns s' = w_txns s"
  shows "stages (Some k) s (put_txn k t s')"
  using assms by (auto simp: stages_def put_txn_def)

lemma new_txn_ok: "txn_ok (new_txn n r now)" "txn_id (new_txn n r now) = n"
  by (simp_all add: txn_ok_def new_txn_def)

lemma post_stages: "post_handler now path body s = (s', res) \<Longrightarrow> stages (fresh_name path s) s s'"
  by (auto simp: post_handler_def fresh_name_def Let_def new_txn_ok intro!: stages_put split: sum.splits if_splits)

lemma mkactivity_stages: "mkactivity_handler now path s = (s', res) \<Longrightarrow> stages (txn_of (MkActivity path) s) s s'"
  by (auto simp: mkactivity_handler_def fresh_name_def act_name_def Let_def new_txn_ok intro!: stages_put
      split: sum.splits if_splits option.splits)

lemma put_stages: "put_handler path body s = (s', res) \<Longrightarrow> stages (txn_of (Put path body) s) s s'"
  by (auto simp: put_handler_def txns_ok_def txn_ok_def intro!: stages_put split: option.splits)

lemma delete_stages: "delete_handler path s = (s', res) \<Longrightarrow> stages (txn_of (DeleteReq path) s) s s'"
  by (auto simp: delete_handler_def handle_delete_activity_def act_name_def Let_def stages_def split: option.splits if_splits)

lemma proppatch_effect:
  assumes "proppatch_handler W path body s = (s', res)"
  shows "stages (txn_of (PropPatch path body) s) s s' \<or>
         (\<exists>a nd st. route path s = Inr (a, nd) \<and> w_txns s' = w_txns s \<and> w_heap s' = oput a (nd\<lparr>nd_props := st\<rparr>) (w_heap s))"
proof (cases "route path s")
  case (Inl e)
  with assms have "s' = s" by (simp add: proppatch_handler_def)
  then show ?thesis by simp
next
  case r: (Inr an)
  obtain a nd where an: "an = (a, nd)" by (cases an)
  show ?thesis
  proof (cases "strip_prefix (special_path path) ''/!svn/txn/''")
    case None
    with assms have "s' = s \<or> (\<exists>st. s' = s\<lparr>w_heap := oput a (nd\<lparr>nd_props := st\<rparr>) (w_heap s)\<rparr>)"
      by (auto simp: proppatch_handler_def r an split: if_splits option.splits)
    then show ?thesis using r an by auto
  next
    case (Some name)
    with assms have "s' = s \<or> (\<exists>t msg. map_of (w_txns s) name = Some t \<and> s' = put_txn name (t\<lparr>log_message := msg\<rparr>) s)"
      by (auto simp: proppatch_handler_def r an split: if_splits option.splits)
    then have "stages (Some name) s s'"
      by (auto simp: txns_ok_def txn_ok_def intro!: stages_put)
    with Some show ?thesis by simp
  qed
qed

lemma read_effect:
  assumes "serve W now req s = Some (s', res)" and "req = Get path \<or> req = Head path"
  shows "s' = s \<or> (\<exists>a nd r1 fres. route path s = Inr (a, nd) \<and> s' = s\<lparr>w_heap := oput a (nd\<lparr>nd_repo := r1\<rparr>) (w_heap s)\<rparr> \<and>
           get_file (we_repo W) path (r_current_rev (nd_repo nd)) (nd_repo nd) = Some (r1, fres))"
proof (cases "route path s")
  case (Inl e)
  with assms show ?thesis by (auto simp: get_handler_def head_handler_def)
next
  case r: (Inr an)
  obtain a nd where an: "an = (a, nd)" by (cases an)
  show ?thesis
  proof (cases "get_file (we_repo W) path (r_current_rev (nd_repo nd)) (nd_repo nd)")
    case None
    with assms r an show ?thesis by (auto simp: get_handler_def head_handler_def exists_path_def split: if_splits)
  next
    case (Some f)
    obtain r1 fres where f: "f = (r1, fres)" by (cases f)
    have "s' = s \<or> s' = s\<lparr>w_heap := oput a (nd\<lparr>nd_repo := r1\<rparr>) (w_heap s)\<rparr>"
      using assms by (auto simp: get_handler_def head_handler_def exists_path_def r an Some f split: if_splits)
    with r an Some f show ?thesis by blast
  qed
qed

text \<open>A repository before and after a request: the same up to its tree cache.\<close>

definition same_repos :: "'c web \<Rightarrow> 'c web \<Rightarrow> bool" where
  "same_repos s s' \<longleftrightarrow> (\<forall>a nd. map_of (w_heap s) a = Some nd \<longrightarrow>
     (\<exists>nd'. map_of (w_heap s') a = Some nd' \<and> only_cache (nd_repo nd) (nd_repo nd')))"

definition web_inv :: "'c web_env \<Rightarrow> 'c web \<Rightarrow> bool" where
  "web_inv W s \<longleftrightarrow> repos_clean W s \<and> txns_ok s"

lemma stages_inv:
  assumes "stages n s s'" and "web_inv W s"
  shows "web_inv W s'" and "same_repos s s'" and "n \<noteq> Some k \<Longrightarrow> map_of (w_txns s') k = map_of (w_txns s) k"
  using assms
  by (auto simp: stages_def web_inv_def repos_clean_def txns_ok_def same_repos_def omap_simps split: if_splits)

lemma stages_all:
  assumes "stages n s s'" and "web_inv W s"
  shows "web_inv W s' \<and> same_repos s s' \<and> (n \<noteq> Some k \<longrightarrow> map_of (w_txns s') k = map_of (w_txns s) k)"
  using stages_inv [OF assms] by blast

text \<open>A request that replaces one repository by a clean one.\<close>

lemma heap_put_inv:
  assumes "web_inv W s" and "w_heap s' = oput a nd' (w_heap s)" and "clean_repo (we_repo W) (nd_repo nd')"
    and "\<And>n t. map_of (w_txns s') n = Some t \<Longrightarrow> map_of (w_txns s) n = Some t"
  shows "web_inv W s'"
proof -
  have "txns_ok s'" using assms(1,4) unfolding web_inv_def txns_ok_def by blast
  moreover have "repos_clean W s'" using assms(1-3) repos_clean_put by (auto simp: web_inv_def)
  ultimately show ?thesis by (simp add: web_inv_def)
qed

lemma heap_put_same:
  assumes "w_heap s' = oput a nd' (w_heap s)" and "map_of (w_heap s) a = Some nd" and "only_cache (nd_repo nd) (nd_repo nd')"
  shows "same_repos s s'"
  using assms by (auto simp: same_repos_def omap_simps)

lemma web_inv_node: "web_inv W s \<Longrightarrow> route path s = Inr (a, nd) \<Longrightarrow> clean_repo (we_repo W) (nd_repo nd)"
  using route_node [of path s a nd] by (auto simp: web_inv_def repos_clean_def)

lemma proppatch_inv:
  assumes "proppatch_handler W path body s = (s', res)" and "web_inv W s"
  shows "web_inv W s' \<and> same_repos s s' \<and>
         (txn_of (PropPatch path body) s \<noteq> Some k \<longrightarrow> map_of (w_txns s') k = map_of (w_txns s) k)"
  using proppatch_effect [OF assms(1)]
proof
  assume "stages (txn_of (PropPatch path body) s) s s'"
  from stages_inv [OF this assms(2)] show ?thesis by blast
next
  assume "\<exists>a nd st. route path s = Inr (a, nd) \<and> w_txns s' = w_txns s \<and> w_heap s' = oput a (nd\<lparr>nd_props := st\<rparr>) (w_heap s)"
  then obtain a nd st where e: "route path s = Inr (a, nd)" "w_txns s' = w_txns s" "w_heap s' = oput a (nd\<lparr>nd_props := st\<rparr>) (w_heap s)"
    by blast
  from heap_put_inv [OF assms(2) e(3)] heap_put_same [OF e(3) route_node [OF e(1)]] web_inv_node [OF assms(2) e(1)] e(2)
  show ?thesis by simp
qed

lemma read_inv:
  assumes "serve W now req s = Some (s', res)" and "req = Get path \<or> req = Head path" and "web_inv W s"
  shows "web_inv W s' \<and> same_repos s s' \<and> w_txns s' = w_txns s"
  using read_effect [OF assms(1,2)]
proof
  assume "s' = s"
  with assms(3) show ?thesis by (auto simp: same_repos_def)
next
  assume "\<exists>a nd r1 fres. route path s = Inr (a, nd) \<and> s' = s\<lparr>w_heap := oput a (nd\<lparr>nd_repo := r1\<rparr>) (w_heap s)\<rparr> \<and>
      get_file (we_repo W) path (r_current_rev (nd_repo nd)) (nd_repo nd) = Some (r1, fres)"
  then obtain a nd r1 fres where e: "route path s = Inr (a, nd)" "s' = s\<lparr>w_heap := oput a (nd\<lparr>nd_repo := r1\<rparr>) (w_heap s)\<rparr>"
    "get_file (we_repo W) path (r_current_rev (nd_repo nd)) (nd_repo nd) = Some (r1, fres)" by blast
  note g = get_file_clean [OF web_inv_node [OF assms(3) e(1)] e(3)]
  have h: "w_heap s' = oput a (nd\<lparr>nd_repo := r1\<rparr>) (w_heap s)" by (simp add: e(2))
  from heap_put_inv [OF assms(3) h] heap_put_same [OF h route_node [OF e(1)]] g show ?thesis by (simp add: e(2))
qed

lemma serve_staging:
  assumes "serve W now req s = Some (s', res)" and "web_inv W s" and "\<nexists>p b. req = Merge p b"
  shows "web_inv W s' \<and> same_repos s s' \<and> (txn_of req s \<noteq> Some k \<longrightarrow> map_of (w_txns s') k = map_of (w_txns s) k)"
proof (cases req)
  case (Post p b)
  with assms(1) have e: "post_handler now p b s = (s', res)" by simp
  from stages_all [OF post_stages [OF e] assms(2), of k] show ?thesis unfolding Post txn_of.simps .
next
  case (MkActivity p)
  with assms(1) have e: "mkactivity_handler now p s = (s', res)" by simp
  from stages_all [OF mkactivity_stages [OF e] assms(2), of k] show ?thesis unfolding MkActivity txn_of.simps .
next
  case (Put p b)
  with assms(1) have e: "put_handler p b s = (s', res)" by simp
  from stages_all [OF put_stages [OF e] assms(2), of k] show ?thesis unfolding Put txn_of.simps .
next
  case (PropPatch p b)
  with assms(1) proppatch_inv [OF _ assms(2), of p b s' res k] show ?thesis by simp
next
  case (DeleteReq p)
  with assms(1) have e: "delete_handler p s = (s', snd (delete_handler p s))" by (auto split: prod.splits)
  from stages_all [OF delete_stages [OF e] assms(2), of k] show ?thesis unfolding DeleteReq txn_of.simps .
next
  case (Get p)
  with read_inv [OF assms(1) _ assms(2), of p] show ?thesis by simp
next
  case (Head p)
  with read_inv [OF assms(1) _ assms(2), of p] show ?thesis by simp
qed (use assms in \<open>auto simp: same_repos_def\<close>)

lemma serve_inv:
  assumes "serve W now req s = Some (s', Inr resp)" and "web_inv W s" and "heads_small s'"
  shows "web_inv W s'"
proof (cases "\<exists>p b. req = Merge p b")
  case False
  then show ?thesis using serve_staging [OF assms(1,2)] by blast
next
  case True
  then obtain p b where m: "merge_handler W now p b s = (s', Inr resp)" using assms(1) by auto
  then show ?thesis
  proof (cases rule: merge_handler_cases)
    case missing
    then show ?thesis using assms(2) by (auto simp: web_inv_def repos_clean_def txns_ok_def omap_simps)
  next
    case (merged a nd t nd')
    from merged(3) show ?thesis
    proof (cases rule: merge_txn_cases)
      case (committed n r' resp')
      have n: "clean_repo (we_repo W) (nd_repo nd)" by (rule web_inv_node [OF assms(2) merged(1)])
      have "map_of (w_heap s') a = Some nd'" by (simp add: merged(4) omap_simps)
      then have "r_current_rev r' < 2 ^ 64" using assms(3) committed(2) by (auto simp: heads_small_def)
      moreover have "repo_inv (we_repo W) (stage_files (we_repo W) (it_files W (staged_files t)) (nd_repo nd))"
        using stage_files_keep clean_repo_inv(1,2) [OF n] by blast
      from sq.cmt_head [OF this commit_okI [OF committed(1)]] commit_number(1) [OF repo_inv_tables [OF this] committed(1)]
      have "r_current_rev r' = n" by simp
      ultimately have "clean_repo (we_repo W) (nd_repo nd')"
        using merged_repo [OF n committed(1)] committed(2) by simp
      then show ?thesis
        by (intro heap_put_inv [OF assms(2), of s' a nd']) (auto simp: merged(4) omap_simps split: if_splits)
    qed simp
  qed simp
qed

lemma web_reachable_inv: "web_reachable W s \<Longrightarrow> web_inv W s"
proof (induction rule: web_reachable.induct)
  case (started s)
  then show ?case by (simp add: web_inv_def txns_ok_def)
next
  case (served s now req s' resp)
  then show ?case using serve_inv by blast
qed

section \<open>What a merge publishes\<close>

text \<open>The new revision of a repository after staging \<open>fs\<close> and committing.\<close>

lemma committed_files:
  assumes "clean_repo E r" and "commit E a m ts (stage_files E fs r) = (r', Inr n)"
    and "distinct (map (tree_path \<circ> fst) fs)" and "slots_ok E (snd ` set fs) r" and "inj_on (from_data E) (snd ` set fs)"
  shows "n = Suc (r_current_rev r)" and "r_current_rev r' = n"
    and "(p, d) \<in> set fs \<Longrightarrow> \<exists>r3. get_file E p n r' = Some (r3, Inr d)"
    and "q \<notin> tree_path ` fst ` set fs \<Longrightarrow> map_of (tree_of E r' n) q = map_of (tree_of E r (r_current_rev r)) q"
    and "k < n \<Longrightarrow> tree_of E r' k = tree_of E r k"
proof -
  let ?r1 = "stage_files E fs r"
  note i = clean_repo_inv [OF assms(1)]
  have keep: "repo_inv E ?r1" "r_current_rev ?r1 = r_current_rev r" "tree_of E ?r1 = tree_of E r"
    using stage_files_keep [OF i(1,2), of fs] by simp_all
  note c = commit_okI [OF assms(2)]
  obtain chs a m ts where ca: "commits_as E chs a m ts ?r1 r'" using commit_okE [OF keep(1) c] .
  show n: "n = Suc (r_current_rev r)"
    using commit_number(1) [OF repo_inv_tables [OF keep(1)] assms(2)] keep(2) by simp
  show "r_current_rev r' = n" using sq.cmt_head [OF keep(1) c] keep(2) n by simp
  have t: "tree_of E r' n = work ?r1" using sq.cmt_new [OF keep(1) c] keep(2) n by simp
  show "tree_of E r' k = tree_of E r k" if "k < n"
    using sq.cmt_old [OF keep(1) c, of k] keep(2,3) n that by simp
  show "map_of (tree_of E r' n) q = map_of (tree_of E r (r_current_rev r)) q" if "q \<notin> tree_path ` fst ` set fs"
    using stage_files_other [OF i(1,2) that] t i(3) by simp
  assume pd: "(p, d) \<in> set fs"
  obtain r3 res where g: "get_file E p n r' = Some (r3, res)" and res: "result_ok res = file_of E r' n (tree_path p)"
    using get_file_new_revision [OF keep(1) assms(2)] .
  note e = stage_files_entry [OF i(1,2) pd assms(3-5)]
  then have "holds E r' d" using holds_kept objects_kept_commit [OF ca] by blast
  with e t have "file_of E r' n (tree_path p) = Some d"
    by (auto simp: file_of_def holds_def tree_entry_new_def)
  with res g show "\<exists>r3. get_file E p n r' = Some (r3, Inr d)" by (cases res) auto
qed

text \<open>
  C38. A merge publishes exactly what was staged: the repository gains one revision in which
  every staged file reads back byte for byte, every other path is as in the previous revision,
  no earlier revision changes, and the transaction is gone. The contents must not collide in
  the object store, and no two staged paths may differ in leading slashes only.
\<close>

theorem merge_publishes:
  assumes "iter_ok W" and "web_reachable W s" and "route path s = Inr (a, nd)"
    and "map_of (w_txns s) (merge_target body) = Some t"
    and "inj_on tree_path (fst ` set (staged_files t))"
    and "inj_on (from_data (we_repo W)) (snd ` set (staged_files t))"
    and "\<forall>d \<in> snd ` set (staged_files t). slot_ok (we_repo W) (nd_repo nd) d"
    and "merge_handler W now path body s = (s', Inr resp)"
  shows "\<exists>nd'. map_of (w_heap s') a = Some nd' \<and>
           r_current_rev (nd_repo nd') = Suc (r_current_rev (nd_repo nd)) \<and>
           (\<forall>p d. (p, d) \<in> set (staged_files t) \<longrightarrow>
              (\<exists>r. get_file (we_repo W) p (Suc (r_current_rev (nd_repo nd))) (nd_repo nd') = Some (r, Inr d))) \<and>
           (\<forall>q. q \<notin> tree_path ` fst ` set (staged_files t) \<longrightarrow>
              map_of (tree_of (we_repo W) (nd_repo nd') (Suc (r_current_rev (nd_repo nd)))) q =
              map_of (tree_of (we_repo W) (nd_repo nd) (r_current_rev (nd_repo nd))) q) \<and>
           (\<forall>k \<le> r_current_rev (nd_repo nd). tree_of (we_repo W) (nd_repo nd') k = tree_of (we_repo W) (nd_repo nd) k) \<and>
           map_of (w_txns s') (merge_target body) = None"
proof -
  note inv = web_reachable_inv [OF assms(2)]
  have cl: "clean_repo (we_repo W) (nd_repo nd)" by (rule web_inv_node [OF inv assms(3)])
  let ?fs = "it_files W (staged_files t)"
  have tok: "omap_ok (staged_files t)" using inv assms(4) by (auto simp: web_inv_def txns_ok_def txn_ok_def)
  then have fs: "set ?fs = set (staged_files t)" "distinct (map fst ?fs)" using assms(1) by (simp_all add: iter_ok_def)
  have dist: "distinct (map (tree_path \<circ> fst) ?fs)"
    using fs assms(5) by (simp add: distinct_map comp_inj_on_iff [symmetric] flip: map_map)
  have slots: "slots_ok (we_repo W) (snd ` set ?fs) (nd_repo nd)" "inj_on (from_data (we_repo W)) (snd ` set ?fs)"
    using assms(6,7) fs by (simp_all add: slots_ok_def)
  from assms(8) show ?thesis
  proof (cases rule: merge_handler_cases)
    case (merged a0 nd0 t0 nd')
    with assms(3,4) have m: "merge_txn W now t nd = (nd', Inr resp)"
      and s': "s' = s\<lparr>w_txns := odel (merge_target body) (w_txns s), w_heap := oput a nd' (w_heap s)\<rparr>" by simp_all
    from m show ?thesis
    proof (cases rule: merge_txn_cases)
      case (committed n r' resp')
      note f = committed_files [OF cl committed(1) dist slots]
      show ?thesis
        using f(1,2) f(3-5) fs(1) committed(2)
        by (intro exI [of _ nd']) (auto simp: s' omap_simps less_Suc_eq_le)
    qed simp
  qed (use assms(3,4) in auto)
qed


section \<open>A sample run\<close>

definition sample_we :: "(nat \<rightharpoonup> tree_map) web_env" where
  "sample_we = \<lparr>we_repo = sample, we_props = sample_json, we_date = (\<lambda>_. []),
     it_files = (\<lambda>m. m), it_staged = (\<lambda>m. m), it_props = (\<lambda>m. m)\<rparr>"

definition sample_web :: "(nat \<rightharpoonup> tree_map) web" where
  "sample_web = \<lparr>w_heap = [(0, \<lparr>nd_root = ''/r'', nd_repo = sample_repo, nd_props = sp_new []\<rparr>)], w_single = Some 0,
     w_registry = None, w_txns = [], w_counter = 0\<rparr>"

definition sample_opened :: "(nat \<rightharpoonup> tree_map) web" where
  "sample_opened = put_txn ''t'' (new_txn ''t'' 0 0) sample_web"

definition sample_staged :: "(nat \<rightharpoonup> tree_map) web" where
  "sample_staged = put_txn ''t'' ((new_txn ''t'' 0 0)\<lparr>staged_files := [(''/src/a'', [104, 105])]\<rparr>) sample_web"

lemma sample_iter: "iter_ok sample_we"
  by (simp add: iter_ok_def sample_we_def omap_ok_distinct)

lemma sample_route:
  assumes "w_single s = Some 0" and "w_registry s = None" and "w_heap s = w_heap sample_web"
  shows "route path s = Inr (0, \<lparr>nd_root = ''/r'', nd_repo = sample_repo, nd_props = sp_new []\<rparr>)"
  using assms by (simp add: route_def get_repo_by_path_def get_repo_def node_at_def sample_web_def)

lemma sample_paths:
  "special_path ''/svn/!svn/act/t'' = ''/!svn/act/t''" "special_path ''/svn/!svn/act/u'' = ''/!svn/act/u''"
  "special_path ''/svn/!svn/txr/t/src/a'' = ''/!svn/txr/t/src/a''" "merge_target ''/!svn/txn/t</D:href>'' = ''t''"
  by code_simp+

lemma sample_open_act:
  "\<exists>resp. serve sample_we 0 (MkActivity ''/svn/!svn/act/t'') sample_web = Some (sample_opened, Inr resp)"
proof -
  have "route p sample_web = Inr (0, \<lparr>nd_root = ''/r'', nd_repo = sample_repo, nd_props = sp_new []\<rparr>)" for p
    by (rule sample_route) (simp_all add: sample_web_def)
  moreover have "strip_prefix ''/!svn/act/t'' ''/!svn/act/'' = Some ''t''" "trim_end_matches CHR ''/'' ''t'' = ''t''" by code_simp+
  ultimately show ?thesis
    using sample_repo_facts(3)
    by (simp add: mkactivity_handler_def sample_paths ohas_def sample_opened_def Let_def) (simp add: sample_web_def)
qed

lemma sample_stage_file:
  "\<exists>resp. serve sample_we 0 (Put ''/svn/!svn/txr/t/src/a'' [104, 105]) sample_opened = Some (sample_staged, Inr resp)"
proof -
  have "strip_prefix ''/!svn/txr/t/src/a'' ''/!svn/txr/'' = Some ''t/src/a''" "split_once CHR ''/'' ''t/src/a'' = Some (''t'', ''src/a'')"
    by code_simp+
  moreover have "decode_svndiff [104, 105] = Some [104, 105]" by (simp add: decode_svndiff_def)
  ultimately show ?thesis
    by (simp add: put_handler_def sample_paths sample_opened_def sample_staged_def put_txn_def new_txn_def sample_web_def)
qed

lemma sample_web_reachable: "web_reachable sample_we sample_web" "web_reachable sample_we sample_opened" "web_reachable sample_we sample_staged"
proof -
  have small: "heads_small sample_web" "heads_small sample_opened" "heads_small sample_staged"
    using sample_repo_facts(3) by (simp_all add: heads_small_def sample_web_def sample_opened_def sample_staged_def put_txn_def)
  show w: "web_reachable sample_we sample_web"
    using sample_reachable sample_repo_facts(4)
    by (intro web_reachable.started) (simp_all add: repos_clean_def clean_repo_def sample_web_def sample_we_def)
  show o: "web_reachable sample_we sample_opened"
    using sample_open_act web_reachable.served [OF w _ small(2)] by blast
  show "web_reachable sample_we sample_staged"
    using sample_stage_file web_reachable.served [OF o _ small(3)] by blast
qed


theorem merge_publishes_witness:
  "web_reachable sample_we sample_staged \<and>
   (\<exists>s' resp nd' r. merge_handler sample_we 0 ''/svn/'' ''/!svn/txn/t</D:href>'' sample_staged = (s', Inr resp) \<and>
     map_of (w_heap s') 0 = Some nd' \<and> get_file sample ''/src/a'' 1 (nd_repo nd') = Some (r, Inr [104, 105]))"
proof -
  let ?nd = "\<lparr>nd_root = ''/r'', nd_repo = sample_repo, nd_props = sp_new []\<rparr>"
  let ?t = "(new_txn ''t'' 0 0)\<lparr>staged_files := [(''/src/a'', [104, 105])]\<rparr>"
  have r: "route ''/svn/'' sample_staged = Inr (0, ?nd)"
    by (rule sample_route) (simp_all add: sample_staged_def put_txn_def sample_web_def)
  have t: "map_of (w_txns sample_staged) (merge_target ''/!svn/txn/t</D:href>'') = Some ?t"
    by (simp add: sample_paths sample_staged_def put_txn_def sample_web_def)
  have "slot_ok sample sample_repo [104, 105]" by (simp add: slot_ok_def sample_slot)
  then have side: "inj_on tree_path (fst ` set (staged_files ?t))"
    "inj_on (from_data (we_repo sample_we)) (snd ` set (staged_files ?t))"
    "\<forall>d \<in> snd ` set (staged_files ?t). slot_ok (we_repo sample_we) (nd_repo ?nd) d"
    by (simp_all add: sample_we_def)
  have inv: "repo_inv sample (stage_files sample [(''/src/a'', [104, 105])] sample_repo)"
    using stage_files_keep [OF sample_repo_facts(2)] sample_repo_facts(4) by (simp add: no_deletes_def pend_of_def)
  obtain r' where c: "commit sample (merge_author ?t) (merge_message ?t) 0 (stage_files sample [(''/src/a'', [104, 105])] sample_repo) =
      (r', Inr (Suc (r_current_rev (stage_files sample [(''/src/a'', [104, 105])] sample_repo))))"
    using sample_commits [OF inv] .
  then obtain nd' resp where "merge_txn sample_we 0 ?t ?nd = (nd', Inr resp)"
    by (simp add: merge_txn_def sample_we_def)
  then obtain s' where m: "merge_handler sample_we 0 ''/svn/'' ''/!svn/txn/t</D:href>'' sample_staged = (s', Inr resp)"
    using r t by (simp add: merge_handler_def)
  obtain nd'' where h: "map_of (w_heap s') 0 = Some nd''"
    and f: "\<forall>p d. (p, d) \<in> set (staged_files ?t) \<longrightarrow>
      (\<exists>r. get_file (we_repo sample_we) p (Suc (r_current_rev (nd_repo ?nd))) (nd_repo nd'') = Some (r, Inr d))"
    using merge_publishes [OF sample_iter sample_web_reachable(3) r t side m] by blast
  have "\<exists>r. get_file sample ''/src/a'' 1 (nd_repo nd'') = Some (r, Inr [104, 105])"
    using f sample_repo_facts(3) by (simp add: sample_we_def)
  with m h sample_web_reachable(3) show ?thesis by blast
qed

end
