(* ===== verification/Utf8.thy ===== *)
theory Utf8
  imports Prelude
begin

text \<open>
  UTF-8 as the Rust standard library reads it: \<open>utf8_next\<close> gives the length of the first
  character, or of the invalid sequence that \<open>from_utf8_lossy\<close> replaces by one U+FFFD.
  \<open>BufRead::read_line\<close> refuses a line that is not valid.
\<close>

definition code :: "char \<Rightarrow> nat" where
  "code c = of_char c"

definition utf8_width :: "char \<Rightarrow> nat" where
  "utf8_width c =
     (if code c < 128 then 1 else if code c < 194 then 0 else if code c < 224 then 2
      else if code c < 240 then 3 else if code c < 245 then 4 else 0)"

definition utf8_cont :: "char \<Rightarrow> bool" where
  "utf8_cont c \<longleftrightarrow> 128 \<le> code c \<and> code c < 192"

definition utf8_second :: "char \<Rightarrow> char \<Rightarrow> bool" where
  "utf8_second b c \<longleftrightarrow> utf8_cont c \<and>
     (if code b = 224 then 160 \<le> code c else if code b = 237 then code c < 160
      else if code b = 240 then 144 \<le> code c else if code b = 244 then code c < 144 else True)"

definition utf8_next :: "string \<Rightarrow> bool \<times> nat" where
  "utf8_next s =
     (case s of
        [] \<Rightarrow> (True, 0)
      | c # cs \<Rightarrow>
          (let w = utf8_width c in
           if w = 0 then (False, 1)
           else if w = 1 then (True, 1)
           else if cs = [] \<or> \<not> utf8_second c (hd cs) then (False, 1)
           else if w = 2 then (True, 2)
           else if length cs < 2 \<or> \<not> utf8_cont (cs ! 1) then (False, 2)
           else if w = 3 then (True, 3)
           else if length cs < 3 \<or> \<not> utf8_cont (cs ! 2) then (False, 3)
           else (True, 4)))"

lemma utf8_next_pos: "s \<noteq> [] \<Longrightarrow> 0 < snd (utf8_next s)"
  by (cases s) (auto simp: utf8_next_def Let_def)

function utf8_valid :: "string \<Rightarrow> bool" where
  "utf8_valid s =
     (if s = [] then True else fst (utf8_next s) \<and> utf8_valid (drop (snd (utf8_next s)) s))"
  by pat_completeness auto
termination
  by (relation "measure length") (use utf8_next_pos in auto)

function utf8_lossy :: "string \<Rightarrow> string" where
  "utf8_lossy s =
     (if s = [] then []
      else (let n = snd (utf8_next s) in
            (if fst (utf8_next s) then take n s else [CHR 0xEF, CHR 0xBF, CHR 0xBD]) @ utf8_lossy (drop n s)))"
  by pat_completeness auto
termination
  by (relation "measure length") (use utf8_next_pos in auto)

declare utf8_valid.simps [simp del] utf8_lossy.simps [simp del]

lemma utf8_valid_Nil [simp]: "utf8_valid []"
  by (simp add: utf8_valid.simps [of "[]"])

lemma utf8_valid_step: "s \<noteq> [] \<Longrightarrow> utf8_valid s \<longleftrightarrow> fst (utf8_next s) \<and> utf8_valid (drop (snd (utf8_next s)) s)"
  by (subst utf8_valid.simps) simp

text \<open>A complete first character does not depend on what follows it.\<close>

lemma utf8_next_append:
  assumes "s \<noteq> []" "fst (utf8_next s)"
  shows "utf8_next (s @ t) = utf8_next s \<and> snd (utf8_next s) \<le> length s"
proof (cases s)
  case (Cons c cs)
  consider "cs = []" | x where "cs = [x]" | x y where "cs = [x, y]" | x y z r where "cs = x # y # z # r"
    by (metis neq_Nil_conv)
  then show ?thesis
    by cases (use assms(2) Cons in \<open>auto simp: utf8_next_def Let_def split: if_splits\<close>)
qed (use assms in simp)

lemma utf8_valid_append: "utf8_valid s \<Longrightarrow> utf8_valid t \<Longrightarrow> utf8_valid (s @ t)"
proof (induction s rule: utf8_valid.induct)
  case (1 s)
  show ?case
  proof (cases "s = []")
    case True
    with "1.prems" show ?thesis by simp
  next
    case False
    with "1.prems" have v: "fst (utf8_next s)" "utf8_valid (drop (snd (utf8_next s)) s)"
      by (simp_all add: utf8_valid_step)
    have "utf8_valid (drop (snd (utf8_next s)) s @ t)" using 1 False v by blast
    then show ?thesis
      using utf8_next_append [OF False v(1), of t] v(1) False by (simp add: utf8_valid_step)
  qed
qed

lemma utf8_lossy_valid: "utf8_valid s \<Longrightarrow> utf8_lossy s = s"
proof (induction s rule: utf8_valid.induct)
  case (1 s)
  show ?case
  proof (cases "s = []")
    case False
    with 1 show ?thesis by (subst utf8_lossy.simps) (simp add: utf8_valid_step Let_def)
  qed (simp add: utf8_lossy.simps)
qed

lemma utf8_valid_Cons: "code c < 128 \<Longrightarrow> utf8_valid (c # s) \<longleftrightarrow> utf8_valid s"
  by (subst utf8_valid_step) (simp_all add: utf8_next_def utf8_width_def)

lemma utf8_valid_ascii: "list_all (\<lambda>c. code c < 128) s \<Longrightarrow> utf8_valid s"
  by (induction s) (simp_all add: utf8_valid_Cons)

text \<open>Decimal numbers are ASCII.\<close>

lemma utf8_show_nat [simp]: "utf8_valid (show_nat n)"
proof -
  have "code c < 128" if "digit_val c \<noteq> None" for c
    using that by (auto simp: code_def digit_val_def split: if_splits)
  then show ?thesis using show_nat_digits [of _ n] by (auto simp: list_all_iff intro: utf8_valid_ascii)
qed

end
