(* ===== verification/Md5.thy ===== *)
theory Md5
  imports Prelude
begin

text \<open>
  The MD5 digest of \<open>dsvn-webdav/src/dump_handlers.rs\<close> (\<open>md5_compute\<close>, \<open>md5_hex\<close>), which the dump
  writer puts in the header of every file. Sums wrap at 32 bits, the length at 64.
\<close>

unbundle bit_operations_syntax

definition md5_S :: "nat list" where
  "md5_S =
     [7, 12, 17, 22, 7, 12, 17, 22, 7, 12, 17, 22, 7, 12, 17, 22,
      5, 9, 14, 20, 5, 9, 14, 20, 5, 9, 14, 20, 5, 9, 14, 20,
      4, 11, 16, 23, 4, 11, 16, 23, 4, 11, 16, 23, 4, 11, 16, 23,
      6, 10, 15, 21, 6, 10, 15, 21, 6, 10, 15, 21, 6, 10, 15, 21]"

definition md5_K :: "32 word list" where
  "md5_K =
     [0xd76aa478, 0xe8c7b756, 0x242070db, 0xc1bdceee, 0xf57c0faf, 0x4787c62a, 0xa8304613, 0xfd469501,
      0x698098d8, 0x8b44f7af, 0xffff5bb1, 0x895cd7be, 0x6b901122, 0xfd987193, 0xa679438e, 0x49b40821,
      0xf61e2562, 0xc040b340, 0x265e5a51, 0xe9b6c7aa, 0xd62f105d, 0x02441453, 0xd8a1e681, 0xe7d3fbc8,
      0x21e1cde6, 0xc33707d6, 0xf4d50d87, 0x455a14ed, 0xa9e3e905, 0xfcefa3f8, 0x676f02d9, 0x8d2a4c8a,
      0xfffa3942, 0x8771f681, 0x6d9d6122, 0xfde5380c, 0xa4beea44, 0x4bdecfa9, 0xf6bb4b60, 0xbebfbc70,
      0x289b7ec6, 0xeaa127fa, 0xd4ef3085, 0x04881d05, 0xd9d4d039, 0xe6db99e5, 0x1fa27cf8, 0xc4ac5665,
      0xf4292244, 0x432aff97, 0xab9423a7, 0xfc93a039, 0x655b59c3, 0x8f0ccc92, 0xffeff47d, 0x85845dd1,
      0x6fa87e4f, 0xfe2ce6e0, 0xa3014314, 0x4e0811a1, 0xf7537e82, 0xbd3af235, 0x2ad7d2bb, 0xeb86d391]"

text \<open>The padding loop: zero bytes until 8 bytes are missing to a multiple of 64.\<close>

function md5_fill :: "bytes \<Rightarrow> bytes" where
  "md5_fill msg = (if length msg mod 64 \<noteq> 56 then md5_fill (msg @ [0]) else msg)"
  by pat_completeness auto
termination
proof (relation "measure (\<lambda>msg. (120 - length msg mod 64) mod 64)")
  fix msg :: bytes
  assume ne: "length msg mod 64 \<noteq> 56"
  define r where "r = length msg mod 64"
  have "r < 64" "r \<noteq> 56" using ne by (simp_all add: r_def)
  moreover have "Suc (length msg) mod 64 = (if r = 63 then 0 else Suc r)"
    by (simp add: mod_Suc r_def)
  ultimately have "(120 - Suc (length msg) mod 64) mod 64 < (120 - r) mod 64"
    by (cases "r < 56") (auto simp: mod_if)
  then show "(msg @ [0], msg) \<in> measure (\<lambda>msg. (120 - length msg mod 64) mod 64)"
    by (simp add: r_def)
qed simp

declare md5_fill.simps [simp del]

definition md5_pad :: "bytes \<Rightarrow> bytes" where
  "md5_pad data = md5_fill (data @ [0x80]) @ le_bytes 8 (length data * 8)"

fun chunks :: "nat \<Rightarrow> 'a list \<Rightarrow> 'a list list" where
  "chunks n [] = []"
| "chunks n (x # xs) = (if n = 0 then [] else take n (x # xs) # chunks n (drop n (x # xs)))"

text \<open>\<open>u32::from_le_bytes\<close> and \<open>u32::to_le_bytes\<close>.\<close>

definition u32_from_le :: "bytes \<Rightarrow> 32 word" where
  "u32_from_le bs =
     ucast (bs ! 0) OR push_bit 8 (ucast (bs ! 1)) OR push_bit 16 (ucast (bs ! 2)) OR push_bit 24 (ucast (bs ! 3))"

definition u32_to_le :: "32 word \<Rightarrow> bytes" where
  "u32_to_le w = [ucast w, ucast (drop_bit 8 w), ucast (drop_bit 16 w), ucast (drop_bit 24 w)]"

definition md5_words :: "bytes \<Rightarrow> 32 word list" where
  "md5_words chunk = map (\<lambda>i. u32_from_le (take 4 (drop (4 * i) chunk))) [0..<16]"

type_synonym md5_state = "32 word \<times> 32 word \<times> 32 word \<times> 32 word"

definition md5_mix :: "nat \<Rightarrow> 32 word \<Rightarrow> 32 word \<Rightarrow> 32 word \<Rightarrow> 32 word \<times> nat" where
  "md5_mix i b c d =
     (if i < 16 then ((b AND c) OR (NOT b AND d), i)
      else if i < 32 then ((d AND b) OR (NOT d AND c), (5 * i + 1) mod 16)
      else if i < 48 then (b XOR c XOR d, (3 * i + 5) mod 16)
      else (c XOR (b OR NOT d), (7 * i) mod 16))"

definition md5_round :: "32 word list \<Rightarrow> nat \<Rightarrow> md5_state \<Rightarrow> md5_state" where
  "md5_round m i st =
     (case st of (a, b, c, d) \<Rightarrow>
        let (f0, g) = md5_mix i b c d;
            f = f0 + a + md5_K ! i + m ! g
        in (d, b + word_rotl (md5_S ! i) f, b, c))"

definition md5_chunk :: "bytes \<Rightarrow> md5_state \<Rightarrow> md5_state" where
  "md5_chunk chunk st =
     (case (st, fold (md5_round (md5_words chunk)) [0..<64] st) of
        ((a0, b0, c0, d0), (a, b, c, d)) \<Rightarrow> (a0 + a, b0 + b, c0 + c, d0 + d))"

definition md5_init :: md5_state where
  "md5_init = (0x67452301, 0xefcdab89, 0x98badcfe, 0x10325476)"

definition md5_compute :: "bytes \<Rightarrow> bytes" where
  "md5_compute data =
     (case fold md5_chunk (chunks 64 (md5_pad data)) md5_init of
        (a0, b0, c0, d0) \<Rightarrow>
          u32_to_le a0 @ u32_to_le b0 @ u32_to_le c0 @ u32_to_le d0)"

definition hex_char :: "nat \<Rightarrow> char" where
  "hex_char d = (if d < 10 then digit_char d else char_of (87 + d))"

definition md5_hex :: "bytes \<Rightarrow> string" where
  "md5_hex data = concat (map (\<lambda>b. [hex_char (unat b div 16), hex_char (unat b mod 16)]) (md5_compute data))"

lemma length_md5_fill: "length (md5_fill msg) mod 64 = 56"
proof (induction msg rule: md5_fill.induct)
  case (1 msg)
  then show ?case by (cases "length msg mod 64 = 56") (simp_all add: md5_fill.simps [of msg])
qed

lemma length_md5_pad: "length (md5_pad data) mod 64 = 0"
  using length_md5_fill [of "data @ [0x80]"] mod_add_left_eq [of "length (md5_fill (data @ [0x80]))" 64 8]
  by (simp add: md5_pad_def)

text \<open>So every chunk the loop sees has 64 bytes and its sixteen slices are in range.\<close>

lemma chunks_full:
  assumes "0 < n" "length xs mod n = 0" "ch \<in> set (chunks n xs)"
  shows "length ch = n"
  using assms
proof (induction n xs rule: chunks.induct)
  case (2 n x xs)
  have le: "n \<le> length (x # xs)"
    using "2.prems"(1,2) by (metis length_0_conv list.distinct(1) mod_less not_le)
  have "length (drop n (x # xs)) mod n = 0"
    using "2.prems"(2) le_mod_geq [OF le] by simp
  then show ?case using 2 le by (auto split: if_splits)
qed simp

lemma length_md5_compute [simp]: "length (md5_compute data) = 16"
  by (simp add: md5_compute_def u32_to_le_def split: prod.splits)

lemma length_md5_hex [simp]: "length (md5_hex data) = 32"
proof -
  have "length (concat (map (\<lambda>b. [f b, g b]) xs)) = 2 * length xs" for f g :: "byte \<Rightarrow> char" and xs
    by (induction xs) auto
  then show ?thesis by (simp add: md5_hex_def)
qed

text \<open>The first test vector of RFC 1321.\<close>

lemma md5_compute_empty:
  "md5_compute [] =
     [0xd4, 0x1d, 0x8c, 0xd9, 0x8f, 0x00, 0xb2, 0x04, 0xe9, 0x80, 0x09, 0x98, 0xec, 0xf8, 0x42, 0x7e]"
  by code_simp

end
