(* ===== verification/Dump_Format.thy ===== *)
theory Dump_Format
  imports Utf8 Md5 Proppatch
begin

text \<open>
  The SVN dump format as \<open>dsvn-webdav/src/dump_handlers.rs\<close> writes and reads it. The reader works
  on the bytes that are left of the body; a line that is not UTF-8 and a record that is cut short
  are errors, a slice out of range panics. Lengths are \<open>usize\<close>, 64 bits wide.
\<close>

abbreviation newl :: string where "newl \<equiv> [CHR 0x0A]"

abbreviation str_bytes :: "string \<Rightarrow> bytes" where "str_bytes s \<equiv> map char_byte s"

section \<open>Writing records\<close>

definition build_prop :: "string \<Rightarrow> string \<Rightarrow> string" where
  "build_prop k v =
     ''K '' @ show_nat (length k) @ newl @ k @ newl @ ''V '' @ show_nat (length v) @ newl @ v @ newl"

definition build_rev_props :: "string \<Rightarrow> string \<Rightarrow> string \<Rightarrow> bytes" where
  "build_rev_props author message date =
     str_bytes ((if author \<noteq> [] then build_prop ''svn:author'' author else []) @
                (if message \<noteq> [] then build_prop ''svn:log'' message else []) @
                (if date \<noteq> [] then build_prop ''svn:date'' date else []) @ ''PROPS-END'' @ newl)"

definition build_empty_props :: bytes where
  "build_empty_props = str_bytes (''PROPS-END'' @ newl)"

definition build_node_props :: "bool \<Rightarrow> bytes" where
  "build_node_props executable =
     str_bytes ((if executable then build_prop ''svn:executable'' ''*'' else []) @ ''PROPS-END'' @ newl)"

text \<open>One header line, as \<open>writeln!\<close> formats it.\<close>

definition header :: "string \<Rightarrow> string \<Rightarrow> bytes" where
  "header name v = str_bytes (name @ '': '' @ v @ newl)"

definition blank_line :: bytes where
  "blank_line = str_bytes newl"

definition rev_record :: "nat \<Rightarrow> bytes \<Rightarrow> bytes" where
  "rev_record r props =
     header ''Revision-number'' (show_nat r) @ header ''Prop-content-length'' (show_nat (length props)) @
     header ''Content-length'' (show_nat (length props)) @ blank_line @ props @ blank_line"

definition file_record :: "string \<Rightarrow> string \<Rightarrow> bool \<Rightarrow> bytes \<Rightarrow> bytes" where
  "file_record path action executable content =
     (let np = build_node_props executable in
      header ''Node-path'' path @ header ''Node-kind'' ''file'' @ header ''Node-action'' action @
      header ''Prop-content-length'' (show_nat (length np)) @
      header ''Text-content-length'' (show_nat (length content)) @
      header ''Text-content-md5'' (md5_hex content) @
      header ''Content-length'' (show_nat (length np + length content)) @
      blank_line @ np @ content @ blank_line @ blank_line)"

definition dir_record :: "string \<Rightarrow> string \<Rightarrow> bytes" where
  "dir_record path action =
     (let np = build_empty_props in
      header ''Node-path'' path @ header ''Node-kind'' ''dir'' @ header ''Node-action'' action @
      header ''Prop-content-length'' (show_nat (length np)) @ header ''Content-length'' (show_nat (length np)) @
      blank_line @ np @ blank_line @ blank_line)"

definition delete_record :: "string \<Rightarrow> bytes" where
  "delete_record path = header ''Node-path'' path @ header ''Node-action'' ''delete'' @ blank_line"

section \<open>Parsed records\<close>

datatype node_action = NAdd | NDelete | NChange | NReplace

datatype node_kind = NFile | NDir

record parsed_node =
  pn_path :: string
  pn_kind :: "node_kind option"
  pn_action :: "node_action option"
  pn_content :: bytes

record parsed_revision =
  revision_number :: nat
  pv_author :: string
  pv_message :: string
  pv_timestamp :: int
  pv_nodes :: "parsed_node list"

text \<open>\<open>Callback\<close> is an error returned by the consumer of the parsed revisions.\<close>

datatype 'e dump_error = NotUtf8 | UnexpectedEof | DumpPanic | Callback 'e

section \<open>Reading lines and blocks\<close>

fun take_line :: "bytes \<Rightarrow> bytes \<times> bytes" where
  "take_line [] = ([], [])"
| "take_line (b # bs) = (if b = 10 then ([b], bs) else (case take_line bs of (l, r) \<Rightarrow> (b # l, r)))"

text \<open>\<open>BufRead::read_line\<close>: the line is consumed also when it is not UTF-8, which is an error.\<close>

definition read_line :: "bytes \<Rightarrow> string option \<times> bytes" where
  "read_line d =
     (case take_line d of (l, r) \<Rightarrow>
        (if utf8_valid (map byte_char l) then Some (map byte_char l) else None, r))"

text \<open>\<open>vec![0u8; n]\<close> panics beyond \<open>isize::MAX\<close>; \<open>read_exact\<close> fails on a short input.\<close>

definition read_block :: "nat \<Rightarrow> bytes \<Rightarrow> 'e dump_error + (bytes \<times> bytes)" where
  "read_block n d =
     (if n \<ge> 2 ^ 63 then Inl DumpPanic
      else if n \<le> length d then Inr (take n d, drop n d) else Inl UnexpectedEof)"

definition hdr_val :: "string \<Rightarrow> string" where
  "hdr_val line = (case find_sub line '': '' of None \<Rightarrow> [] | Some i \<Rightarrow> trim (drop (i + 2) line))"

definition hdr_num :: "string \<Rightarrow> nat" where
  "hdr_num line = unwrap_or 0 (parse_u64 (hdr_val line))"

text \<open>\<open>&s[..n.min(s.len())]\<close>, which panics inside a character.\<close>

definition str_upto :: "string \<Rightarrow> nat \<Rightarrow> 'e dump_error + string" where
  "str_upto s n = ok_or DumpPanic (str_slice s 0 (min n (length s)))"

fun props_loop :: "string list \<Rightarrow> (string \<rightharpoonup> string) \<Rightarrow> 'e dump_error + (string \<rightharpoonup> string)" where
  "props_loop [] m = Inr m"
| "props_loop (l # ls) m =
     (if l = ''PROPS-END'' then Inr m
      else if starts_with l ''K '' then
        (case ls of
           [] \<Rightarrow> Inr m
         | k # ls1 \<Rightarrow>
             rbind (str_upto k (unwrap_or 0 (parse_u64 (drop 2 l)))) (\<lambda>key.
               case ls1 of
                 [] \<Rightarrow> Inr m
               | v # ls2 \<Rightarrow>
                   if starts_with v ''V '' then
                     (case ls2 of
                        [] \<Rightarrow> Inr m
                      | x # ls3 \<Rightarrow>
                          rbind (str_upto x (unwrap_or 0 (parse_u64 (drop 2 v)))) (\<lambda>val.
                            props_loop ls3 (m(key \<mapsto> val))))
                   else props_loop ls2 m))
      else props_loop ls m)"

definition parse_props_block :: "bytes \<Rightarrow> 'e dump_error + (string \<rightharpoonup> string)" where
  "parse_props_block data = props_loop (str_lines (utf8_lossy (map byte_char data))) Map.empty"

lemma take_line_split: "take_line d = (l, r) \<Longrightarrow> d = l @ r"
  by (induction d arbitrary: l) (auto split: if_splits prod.splits)

lemma read_line_shorter: "read_line d = (Some l, r) \<Longrightarrow> l \<noteq> [] \<Longrightarrow> length r < length d"
  by (auto simp: read_line_def split: prod.splits if_splits dest!: take_line_split)

lemma read_line_le: "read_line d = (x, r) \<Longrightarrow> length r \<le> length d"
  by (auto simp: read_line_def split: prod.splits dest!: take_line_split)

lemma read_block_le: "read_block n d = Inr (b, r) \<Longrightarrow> length r \<le> length d"
  by (auto simp: read_block_def split: if_splits)

section \<open>Reading records\<close>

text \<open>
  What the code takes from \<open>chrono\<close>: the date of a timestamp as written to a dump, the timestamp
  of an RFC 3339 date, and the clock, read with so many bytes of the input left.
\<close>

record dump_env =
  dump_date :: "int \<Rightarrow> string option"
  parse_rfc3339 :: "string \<Rightarrow> int option"
  clock_at :: "nat \<Rightarrow> int"

function read_hdr_buf :: "nat \<Rightarrow> nat \<Rightarrow> bytes \<Rightarrow> 'e dump_error + ((nat \<times> nat) \<times> bytes)" where
  "read_hdr_buf pl cl d =
     (case read_line d of
        (None, r) \<Rightarrow> Inl NotUtf8
      | (Some line, r) \<Rightarrow>
          if line = [] then Inr ((pl, cl), r)
          else if trim line = [] then Inr ((pl, cl), r)
          else if starts_with (trim line) ''Prop-content-length:'' then read_hdr_buf (hdr_num (trim line)) cl r
          else if starts_with (trim line) ''Content-length:'' then read_hdr_buf pl (hdr_num (trim line)) r
          else read_hdr_buf pl cl r)"
  by pat_completeness auto
termination
  by (relation "measure (\<lambda>(pl, cl, d). length d)") (auto dest!: sym [of _ "read_line _"] read_line_shorter)

definition rev_props :: "nat \<Rightarrow> nat \<Rightarrow> bytes \<Rightarrow> 'e dump_error + ((string \<rightharpoonup> string) \<times> bytes)" where
  "rev_props pl cl d =
     (let n = (if cl > 0 then cl else pl) in
      if n > 0 then
        rbind (read_block n d) (\<lambda>(buf, r).
          rbind (if pl > 0 then (if pl \<le> length buf then parse_props_block (take pl buf) else Inl DumpPanic)
                 else Inr Map.empty) (\<lambda>m. Inr (m, r)))
      else Inr (Map.empty, d))"

definition parse_revision :: "dump_env \<Rightarrow> string \<Rightarrow> bytes \<Rightarrow> 'e dump_error + (parsed_revision \<times> bytes)" where
  "parse_revision D tr d =
     rbind (read_hdr_buf 0 0 d) (\<lambda>((pl, cl), d1).
       rbind (rev_props pl cl d1) (\<lambda>(props, d2).
         Inr (\<lparr>revision_number = hdr_num tr,
               pv_author = unwrap_or ''unknown'' (props ''svn:author''),
               pv_message = unwrap_or [] (props ''svn:log''),
               pv_timestamp = unwrap_or (clock_at D (length d2)) (Option.bind (props ''svn:date'') (parse_rfc3339 D)),
               pv_nodes = []\<rparr>, d2)))"

text \<open>The three length headers of a node: properties, text, both.\<close>

definition set_length :: "string \<Rightarrow> nat \<times> nat \<times> nat \<Rightarrow> nat \<times> nat \<times> nat" where
  "set_length t ls =
     (case ls of (pl, txl, tcl) \<Rightarrow>
        if starts_with t ''Prop-content-length:'' then (hdr_num t, txl, tcl)
        else if starts_with t ''Text-content-length:'' then (pl, hdr_num t, tcl)
        else if starts_with t ''Content-length:'' then (pl, txl, hdr_num t)
        else (pl, txl, tcl))"

function content_headers :: "nat \<times> nat \<times> nat \<Rightarrow> bytes \<Rightarrow> 'e dump_error + ((nat \<times> nat \<times> nat) \<times> bytes)" where
  "content_headers ls d =
     (case read_line d of
        (None, r) \<Rightarrow> Inl NotUtf8
      | (Some line, r) \<Rightarrow>
          if line = [] then Inr (ls, r)
          else if trim line = [] then Inr (ls, r)
          else content_headers (set_length (trim line) ls) r)"
  by pat_completeness auto
termination
  by (relation "measure (\<lambda>(ls, d). length d)") (auto dest!: sym [of _ "read_line _"] read_line_shorter)

definition node_text :: "nat \<Rightarrow> nat \<Rightarrow> bytes \<Rightarrow> bytes \<Rightarrow> 'e dump_error + bytes" where
  "node_text pl txl buf old =
     (let e = (pl + txl) mod 2 ^ 64 in
      if txl > 0 \<and> e \<le> length buf then
        (if pl \<le> e then Inr (take (e - pl) (drop pl buf)) else Inl DumpPanic)
      else if txl > 0 then Inr (take (min txl (length buf)) buf)
      else Inr old)"

definition node_body :: "parsed_node \<Rightarrow> nat \<times> nat \<times> nat \<Rightarrow> bytes \<Rightarrow> 'e dump_error + (parsed_node \<times> bytes)" where
  "node_body nd ls d =
     (case ls of (pl, txl, tcl) \<Rightarrow>
        let rl = (if tcl > 0 then tcl else (pl + txl) mod 2 ^ 64) in
        rbind (if rl > 0 then rbind (read_block rl d) (\<lambda>(buf, r). rbind (node_text pl txl buf (pn_content nd)) (\<lambda>c. Inr (c, r)))
               else Inr (pn_content nd, d)) (\<lambda>(c, r).
          Inr (nd\<lparr>pn_content := c\<rparr>, snd (read_line r))))"

definition node_kind_of :: "string \<Rightarrow> node_kind option" where
  "node_kind_of v = (if v = ''file'' then Some NFile else if v = ''dir'' then Some NDir else None)"

definition node_action_of :: "string \<Rightarrow> node_action option" where
  "node_action_of v =
     (if v = ''add'' then Some NAdd else if v = ''delete'' then Some NDelete
      else if v = ''change'' then Some NChange else if v = ''replace'' then Some NReplace else None)"

function parse_node_headers :: "parsed_node \<Rightarrow> bytes \<Rightarrow> 'e dump_error + (parsed_node \<times> bytes)" where
  "parse_node_headers nd d =
     (case read_line d of
        (None, r) \<Rightarrow> Inl NotUtf8
      | (Some line, r) \<Rightarrow>
          if line = [] then Inr (nd, r)
          else if trim line = [] then Inr (nd, r)
          else if starts_with (trim line) ''Node-kind:''
            then parse_node_headers (nd\<lparr>pn_kind := node_kind_of (hdr_val (trim line))\<rparr>) r
          else if starts_with (trim line) ''Node-action:''
            then parse_node_headers (nd\<lparr>pn_action := node_action_of (hdr_val (trim line))\<rparr>) r
          else if starts_with (trim line) ''Prop-content-length:'' \<or> starts_with (trim line) ''Text-content-length:'' \<or>
                  starts_with (trim line) ''Content-length:''
            then rbind (content_headers (set_length (trim line) (0, 0, 0)) r) (\<lambda>(ls, r1). node_body nd ls r1)
          else parse_node_headers nd r)"
  by pat_completeness auto
termination
  by (relation "measure (\<lambda>(nd, d). length d)") (auto dest!: sym [of _ "read_line _"] read_line_shorter)

declare read_hdr_buf.simps [simp del] content_headers.simps [simp del] parse_node_headers.simps [simp del]

lemma read_hdr_buf_le: "read_hdr_buf pl cl d = Inr (x, r) \<Longrightarrow> length r \<le> length d"
proof (induction pl cl d rule: read_hdr_buf.induct)
  case (1 pl cl d)
  obtain y r1 where y: "read_line d = (y, r1)" by (cases "read_line d") auto
  show ?case
  proof (cases y)
    case None
    with "1.prems" y show ?thesis by (simp add: read_hdr_buf.simps [of pl cl d])
  next
    case (Some line)
    with "1.prems" y show ?thesis
      using "1.IH" [OF y [symmetric] Some] read_line_le [OF y]
      by (auto simp add: read_hdr_buf.simps [of pl cl d] split: if_splits)
  qed
qed

lemma content_headers_le: "content_headers ls d = Inr (x, r) \<Longrightarrow> length r \<le> length d"
proof (induction ls d rule: content_headers.induct)
  case (1 ls d)
  obtain y r1 where y: "read_line d = (y, r1)" by (cases "read_line d") auto
  show ?case
  proof (cases y)
    case None
    with "1.prems" y show ?thesis by (simp add: content_headers.simps [of ls d])
  next
    case (Some line)
    with "1.prems" y show ?thesis
      using "1.IH" [OF y [symmetric] Some] read_line_le [OF y]
      by (auto simp add: content_headers.simps [of ls d] split: if_splits)
  qed
qed

lemma snd_read_line_le: "length (snd (read_line d)) \<le> length d"
  by (rule read_line_le [of d "fst (read_line d)"]) simp

lemma node_body_le: "node_body nd ls d = Inr (x, r) \<Longrightarrow> length r \<le> length d"
  by (auto simp: node_body_def Let_def rbind_eq_Inr split: prod.splits if_splits dest!: read_block_le
      intro: order_trans [OF snd_read_line_le])

lemma parse_node_headers_le: "parse_node_headers nd d = Inr (x, r) \<Longrightarrow> length r \<le> length d"
proof (induction nd d rule: parse_node_headers.induct)
  case (1 nd d)
  obtain y r1 where y: "read_line d = (y, r1)" by (cases "read_line d") auto
  show ?case
  proof (cases y)
    case None
    with "1.prems" y show ?thesis by (simp add: parse_node_headers.simps [of nd d])
  next
    case (Some line)
    have body: "length r \<le> length d" if "rbind (content_headers ls r1) (\<lambda>(ls, r1). node_body nd ls r1) = Inr (x, r)" for ls
      using that read_line_le [OF y] by (auto simp: rbind_eq_Inr dest!: content_headers_le node_body_le)
    show ?thesis
      using "1.prems" y Some "1.IH" [OF y [symmetric] Some] read_line_le [OF y] body
      by (simp add: parse_node_headers.simps [of nd d] split: if_splits)
  qed
qed

lemma parse_revision_le: "parse_revision D tr d = Inr (x, r) \<Longrightarrow> length r \<le> length d"
  by (auto simp: parse_revision_def rev_props_def Let_def rbind_eq_Inr split: if_splits
      dest!: read_hdr_buf_le read_block_le)

section \<open>The stream\<close>

text \<open>
  A consumer takes a parsed revision and its own state; \<open>flush_rev\<close> is
  \<open>if let Some(rev) = cur_rev.take() { on_rev(rev)?; }\<close>.
\<close>

type_synonym ('s, 'e) consumer = "parsed_revision \<Rightarrow> 's \<Rightarrow> 's \<times> ('e + unit)"

definition flush_rev :: "('r \<Rightarrow> 's \<Rightarrow> 's \<times> ('e + unit)) \<Rightarrow> 'r option \<Rightarrow> 's \<Rightarrow> 's \<times> ('e dump_error + unit)" where
  "flush_rev on_rev cur st =
     (case cur of
        None \<Rightarrow> (st, Inr ())
      | Some rv \<Rightarrow> (case on_rev rv st of (st1, Inl e) \<Rightarrow> (st1, Inl (Callback e)) | (st1, Inr _) \<Rightarrow> (st1, Inr ())))"

definition new_node :: "string \<Rightarrow> parsed_node" where
  "new_node path = \<lparr>pn_path = path, pn_kind = None, pn_action = None, pn_content = []\<rparr>"

definition push_node :: "parsed_node \<Rightarrow> parsed_revision \<Rightarrow> parsed_revision" where
  "push_node nd rv = rv\<lparr>pv_nodes := pv_nodes rv @ [nd]\<rparr>"

function parse_loop :: "dump_env \<Rightarrow> ('s, 'e) consumer \<Rightarrow> bytes \<Rightarrow> parsed_revision option \<Rightarrow> 's \<Rightarrow>
    's \<times> ('e dump_error + unit)" where
  "parse_loop D on_rev d cur st =
     (case read_line d of
        (None, r) \<Rightarrow> (st, Inl NotUtf8)
      | (Some line, r) \<Rightarrow>
          if line = [] then flush_rev on_rev cur st
          else if starts_with (trim line) ''SVN-fs-dump-format-version:'' \<or> starts_with (trim line) ''UUID:'' \<or>
                  trim line = [] then parse_loop D on_rev r cur st
          else if starts_with (trim line) ''Revision-number:'' then
            (case flush_rev on_rev cur st of
               (st1, Inl e) \<Rightarrow> (st1, Inl e)
             | (st1, Inr _) \<Rightarrow>
                 (case parse_revision D (trim line) r of
                    Inl e \<Rightarrow> (st1, Inl e)
                  | Inr (rv, r1) \<Rightarrow> parse_loop D on_rev r1 (Some rv) st1))
          else if starts_with (trim line) ''Node-path:'' then
            (case parse_node_headers (new_node (hdr_val (trim line))) r of
               Inl e \<Rightarrow> (st, Inl e)
             | Inr (nd, r1) \<Rightarrow> parse_loop D on_rev r1 (map_option (push_node nd) cur) st)
          else parse_loop D on_rev r cur st)"
  by pat_completeness auto
termination
  by (relation "measure (\<lambda>(D, on_rev, d, cur, st). length d)")
     (auto dest!: sym [of _ "read_line _"] read_line_shorter sym [of _ "parse_revision _ _ _"] parse_revision_le
        sym [of _ "parse_node_headers _ _"] parse_node_headers_le)

declare parse_loop.simps [simp del]

definition parse_dump_stream :: "dump_env \<Rightarrow> ('s, 'e) consumer \<Rightarrow> bytes \<Rightarrow> 's \<Rightarrow> 's \<times> ('e dump_error + unit)" where
  "parse_dump_stream D on_rev d st = parse_loop D on_rev d None st"

end
