(* ===== verification/Dump_Roundtrip.thy ===== *)
theory Dump_Roundtrip
  imports Dump_Format
begin

text \<open>
  The reader of dumps undoes the writer, record by record: lemmas on header lines, property
  blocks and node records that rewrite the parser over a written record.
\<close>

named_theorems dump_read \<open>what the reader does on a written piece\<close>

section \<open>Header lines\<close>

definition name_ok :: "string \<Rightarrow> bool" where
  "name_ok n \<longleftrightarrow> n \<noteq> [] \<and> \<not> is_space (hd n) \<and> list_all (\<lambda>c. code c < 128 \<and> c \<noteq> CHR '':'' \<and> c \<noteq> CHR 0x0A) n"

text \<open>Text on one line that \<open>trim\<close> leaves alone.\<close>

definition value_ok :: "string \<Rightarrow> bool" where
  "value_ok v \<longleftrightarrow> v \<noteq> [] \<and> utf8_valid v \<and> CHR 0x0A \<notin> set v \<and>
     \<not> is_space (hd v) \<and> code (hd v) < 128 \<and> \<not> is_space (last v) \<and> code (last v) < 128"

lemma trim_id: "s \<noteq> [] \<Longrightarrow> \<not> is_space (hd s) \<Longrightarrow> \<not> is_space (last s) \<Longrightarrow> trim s = s"
proof -
  have id: "dropWhile is_space u = u" if "u \<noteq> []" "\<not> is_space (hd u)" for u
    using that by (cases u) auto
  assume "s \<noteq> []" "\<not> is_space (hd s)" "\<not> is_space (last s)"
  then show "trim s = s" by (simp add: trim_def id hd_rev)
qed

lemma trim_newl: "s \<noteq> [] \<Longrightarrow> \<not> is_space (hd s) \<Longrightarrow> \<not> is_space (last s) \<Longrightarrow> trim (s @ newl) = s"
proof -
  assume s: "s \<noteq> []" "\<not> is_space (hd s)" "\<not> is_space (last s)"
  then have "dropWhile is_space (s @ newl) = s @ newl" by (cases s) auto
  moreover have "is_space (CHR 0x0A)" by (simp add: is_space_def)
  ultimately show "trim (s @ newl) = s"
    using s trim_id [OF s] by (simp add: trim_def) (metis dropWhile_eq_self_iff hd_rev rev_is_Nil_conv rev_rev_ident)
qed

lemma take_line_append [simp]: "10 \<notin> set l \<Longrightarrow> take_line (l @ 10 # r) = (l @ [10], r)"
  by (induction l) auto

lemma char_byte_newl [simp]: "char_byte (CHR 0x0A) = 10"
  by (simp add: char_byte_def)

lemma char_byte_10: "char_byte c = 10 \<longleftrightarrow> c = CHR 0x0A"
  using char_byte_eq [of c "CHR 0x0A"] by simp

lemma map_byte_char [simp]: "map byte_char (str_bytes s) = s" "map (byte_char \<circ> char_byte) s = s"
  by (simp_all add: comp_def)

lemma read_line_str:
  assumes "CHR 0x0A \<notin> set s" "utf8_valid s"
  shows "read_line (str_bytes s @ 10 # r) = (Some (s @ newl), r)"
proof -
  have "10 \<notin> set (str_bytes s)" using assms(1) by (auto simp: char_byte_10 eq_commute [of 10])
  moreover have "byte_char 10 = CHR 0x0A" by (metis byte_char_byte char_byte_newl)
  moreover have "utf8_valid (s @ newl)"
    by (rule utf8_valid_append [OF assms(2)]) (simp add: utf8_valid_Cons code_def)
  ultimately show ?thesis by (simp add: read_line_def)
qed

lemma read_blank [dump_read]: "read_line (blank_line @ r) = (Some newl, r)"
  using read_line_str [of "[]" r] by (simp add: blank_line_def)

lemma trim_blank [dump_read]: "trim newl = []"
  by (simp add: trim_def is_space_def)

lemma name_ascii: "name_ok n \<Longrightarrow> utf8_valid n"
  by (rule utf8_valid_ascii) (auto simp: name_ok_def list_all_iff)

lemma read_header_line:
  assumes "name_ok n" "value_ok v"
  shows "read_line (header n v @ r) = (Some ((n @ '': '' @ v) @ newl), r)"
    and "trim ((n @ '': '' @ v) @ newl) = n @ '': '' @ v"
proof -
  have "utf8_valid (n @ '': '' @ v)"
    using utf8_valid_append [OF name_ascii [OF assms(1)], of "'': '' @ v"] assms(2)
    by (simp add: utf8_valid_Cons value_ok_def code_def)
  moreover have "CHR 0x0A \<notin> set (n @ '': '' @ v)" using assms by (auto simp: name_ok_def value_ok_def list_all_iff)
  ultimately show "read_line (header n v @ r) = (Some ((n @ '': '' @ v) @ newl), r)"
    using read_line_str [of "n @ '': '' @ v" r] by (simp add: header_def)
  show "trim ((n @ '': '' @ v) @ newl) = n @ '': '' @ v"
    using assms by (intro trim_newl) (auto simp: name_ok_def value_ok_def)
qed

text \<open>A header line starts with a given key and colon only if that is its name.\<close>

lemma starts_with_header:
  assumes "CHR '':'' \<notin> set n" "CHR '':'' \<notin> set k"
  shows "starts_with (n @ '': '' @ v) (k @ '':'') \<longleftrightarrow> k = n"
proof
  assume "starts_with (n @ '': '' @ v) (k @ '':'')"
  then obtain t where "n @ CHR '':'' # CHR '' '' # v = k @ CHR '':'' # t"
    by (auto simp: starts_with_iff)
  then have "split_once (CHR '':'') (n @ CHR '':'' # CHR '' '' # v) = split_once (CHR '':'') (k @ CHR '':'' # t)"
    by simp
  then show "k = n" using assms by simp
qed (simp add: starts_with_iff)

lemma hdr_val_header:
  assumes "name_ok n" "value_ok v"
  shows "hdr_val (n @ '': '' @ v) = v"
proof -
  have n: "CHR '':'' \<notin> set n" using assms by (auto simp: name_ok_def list_all_iff)
  have "find_sub (n @ '': '' @ v) '': '' = Some (length n)" using n
    by (induction n) auto
  then show ?thesis using assms by (simp add: hdr_val_def trim_id value_ok_def)
qed

lemma value_ok_num [simp]: "value_ok (show_nat n)"
proof -
  have d: "\<not> is_space c \<and> code c < 128 \<and> c \<noteq> CHR 0x0A" if "c \<in> set (show_nat n)" for c
    using show_nat_digits [OF that] show_nat_no_space [OF that]
    by (auto simp: code_def digit_val_def split: if_splits)
  show ?thesis using d [OF hd_in_set] d [OF last_in_set] d by (auto simp: value_ok_def)
qed

lemma hdr_num_header: "name_ok n \<Longrightarrow> k < 2 ^ 64 \<Longrightarrow> hdr_num (n @ '': '' @ show_nat k) = k"
  by (simp only: hdr_num_def hdr_val_header value_ok_num parse_show_nat) (simp add: unwrap_or_def)

section \<open>Reading one header\<close>

lemma starts_with_key:
  assumes "name_ok n" "CHR '':'' \<notin> set k" "key = k @ '':''"
  shows "starts_with (n @ '': '' @ v) key \<longleftrightarrow> n = k"
  using starts_with_header [of n k v] assms by (auto simp: name_ok_def list_all_iff)

lemma header_keys:
  assumes "name_ok n"
  shows "starts_with (n @ '': '' @ v) ''Prop-content-length:'' \<longleftrightarrow> n = ''Prop-content-length''"
    and "starts_with (n @ '': '' @ v) ''Text-content-length:'' \<longleftrightarrow> n = ''Text-content-length''"
    and "starts_with (n @ '': '' @ v) ''Content-length:'' \<longleftrightarrow> n = ''Content-length''"
    and "starts_with (n @ '': '' @ v) ''Node-kind:'' \<longleftrightarrow> n = ''Node-kind''"
    and "starts_with (n @ '': '' @ v) ''Node-action:'' \<longleftrightarrow> n = ''Node-action''"
    and "starts_with (n @ '': '' @ v) ''Node-path:'' \<longleftrightarrow> n = ''Node-path''"
    and "starts_with (n @ '': '' @ v) ''Revision-number:'' \<longleftrightarrow> n = ''Revision-number''"
    and "starts_with (n @ '': '' @ v) ''SVN-fs-dump-format-version:'' \<longleftrightarrow> n = ''SVN-fs-dump-format-version''"
    and "starts_with (n @ '': '' @ v) ''UUID:'' \<longleftrightarrow> n = ''UUID''"
  by (rule starts_with_key [OF assms]; simp)+

lemma header_names [simp]:
  "name_ok ''Prop-content-length''" "name_ok ''Text-content-length''" "name_ok ''Content-length''"
  "name_ok ''Text-content-md5''" "name_ok ''Node-kind''" "name_ok ''Node-action''" "name_ok ''Node-path''"
  "name_ok ''Revision-number''" "name_ok ''SVN-fs-dump-format-version''" "name_ok ''UUID''"
  by code_simp+

lemma read_hdr_header:
  assumes "name_ok n" "value_ok v"
  shows "read_hdr_buf pl cl (header n v @ r) =
    (if n = ''Prop-content-length'' then read_hdr_buf (hdr_num (n @ '': '' @ v)) cl r
     else if n = ''Content-length'' then read_hdr_buf pl (hdr_num (n @ '': '' @ v)) r
     else read_hdr_buf pl cl r)"
  unfolding read_hdr_buf.simps [of pl cl "header n v @ r"] read_header_line [OF assms] prod.case option.case
    header_keys [OF assms(1)] by (rule trans [OF if_not_P trans [OF if_not_P refl]]; simp add: assms)

lemma content_header:
  assumes "name_ok n" "value_ok v"
  shows "content_headers ls (header n v @ r) = content_headers (set_length (n @ '': '' @ v) ls) r"
  unfolding content_headers.simps [of ls "header n v @ r"] read_header_line [OF assms] prod.case option.case by simp

lemma set_length_header:
  assumes "name_ok n"
  shows "set_length (n @ '': '' @ v) (pl, txl, tcl) =
    (if n = ''Prop-content-length'' then (hdr_num (n @ '': '' @ v), txl, tcl)
     else if n = ''Text-content-length'' then (pl, hdr_num (n @ '': '' @ v), tcl)
     else if n = ''Content-length'' then (pl, txl, hdr_num (n @ '': '' @ v))
     else (pl, txl, tcl))"
  unfolding set_length_def header_keys [OF assms] by simp

lemma node_header:
  assumes "name_ok n" "value_ok v"
  shows "parse_node_headers nd (header n v @ r) =
    (if n = ''Node-kind'' then parse_node_headers (nd\<lparr>pn_kind := node_kind_of v\<rparr>) r
     else if n = ''Node-action'' then parse_node_headers (nd\<lparr>pn_action := node_action_of v\<rparr>) r
     else if n = ''Prop-content-length'' \<or> n = ''Text-content-length'' \<or> n = ''Content-length''
       then rbind (content_headers (set_length (n @ '': '' @ v) (0, 0, 0)) r) (\<lambda>(ls, r1). node_body nd ls r1)
     else parse_node_headers nd r)"
  unfolding parse_node_headers.simps [of nd "header n v @ r"] read_header_line [OF assms] prod.case option.case
    header_keys [OF assms(1)] hdr_val_header [OF assms] by (rule trans [OF if_not_P trans [OF if_not_P refl]]; simp add: assms)

lemma loop_header:
  assumes "name_ok n" "value_ok v"
  shows "parse_loop D f (header n v @ r) cur st =
    (if n = ''SVN-fs-dump-format-version'' \<or> n = ''UUID'' then parse_loop D f r cur st
     else if n = ''Revision-number'' then
       (case flush_rev f cur st of
          (st1, Inl e) \<Rightarrow> (st1, Inl e)
        | (st1, Inr _) \<Rightarrow>
            (case parse_revision D (n @ '': '' @ v) r of
               Inl e \<Rightarrow> (st1, Inl e)
             | Inr (rv, r1) \<Rightarrow> parse_loop D f r1 (Some rv) st1))
     else if n = ''Node-path'' then
       (case parse_node_headers (new_node v) r of
          Inl e \<Rightarrow> (st, Inl e)
        | Inr (nd, r1) \<Rightarrow> parse_loop D f r1 (map_option (push_node nd) cur) st)
     else parse_loop D f r cur st)"
proof -
  have ne: "(n @ '': '' @ v) @ newl \<noteq> []" "n @ '': '' @ v \<noteq> []" by simp_all
  show ?thesis
    unfolding parse_loop.simps [of D f "header n v @ r" cur st] read_header_line [OF assms] prod.case option.case
      header_keys [OF assms(1)] hdr_val_header [OF assms] if_not_P [OF ne(1)] by (simp only: ne simp_thms)
qed

lemma loop_revision:
  assumes "value_ok v"
  shows "parse_loop D f (header ''Revision-number'' v @ r) cur st =
    (case flush_rev f cur st of
       (st1, Inl e) \<Rightarrow> (st1, Inl e)
     | (st1, Inr _) \<Rightarrow>
         (case parse_revision D (''Revision-number'' @ '': '' @ v) r of
            Inl e \<Rightarrow> (st1, Inl e)
          | Inr (rv, r1) \<Rightarrow> parse_loop D f r1 (Some rv) st1))"
proof -
  have "\<not> (''Revision-number'' = ''SVN-fs-dump-format-version'' \<or> ''Revision-number'' = ''UUID'')" by simp
  then show ?thesis unfolding loop_header [OF header_names(8) assms] by (simp only: if_False if_True simp_thms)
qed

lemma loop_node:
  assumes "value_ok v"
  shows "parse_loop D f (header ''Node-path'' v @ r) cur st =
    (case parse_node_headers (new_node v) r of
       Inl e \<Rightarrow> (st, Inl e)
     | Inr (nd, r1) \<Rightarrow> parse_loop D f r1 (map_option (push_node nd) cur) st)"
  unfolding loop_header [OF header_names(7) assms] by simp

lemma loop_skip:
  assumes "value_ok v"
  shows "parse_loop D f (header ''SVN-fs-dump-format-version'' v @ r) cur st = parse_loop D f r cur st"
    and "parse_loop D f (header ''UUID'' v @ r) cur st = parse_loop D f r cur st"
  unfolding loop_header [OF header_names(9) assms] loop_header [OF header_names(10) assms] by simp_all

lemma blank_steps [dump_read]:
  "read_hdr_buf pl cl (blank_line @ r) = Inr ((pl, cl), r)"
  "content_headers ls (blank_line @ r) = Inr (ls, r)"
  "parse_node_headers nd (blank_line @ r) = Inr (nd, r)"
  "parse_loop D f (blank_line @ r) cur st = parse_loop D f r cur st"
  by (simp_all add: read_hdr_buf.simps [of pl cl "blank_line @ r"] content_headers.simps [of ls "blank_line @ r"]
      parse_node_headers.simps [of nd "blank_line @ r"] parse_loop.simps [of D f "blank_line @ r"] dump_read)

lemma loop_end [dump_read]: "parse_loop D f [] cur st = flush_rev f cur st"
  by (simp add: parse_loop.simps [of D f "[]"] read_line_def)

section \<open>Property blocks\<close>

definition single_line :: "string \<Rightarrow> bool" where
  "single_line v \<longleftrightarrow> utf8_valid v \<and> CHR 0x0A \<notin> set v \<and> (v = [] \<or> last v \<noteq> CHR 0x0D)"

lemma single_line_num: "single_line (show_nat n)"
  using value_ok_num [of n] by (auto simp: single_line_def value_ok_def is_space_def)

lemma single_line_Cons: "code c < 128 \<Longrightarrow> c \<noteq> CHR 0x0A \<Longrightarrow> v \<noteq> [] \<Longrightarrow> single_line (c # v) \<longleftrightarrow> single_line v"
  by (auto simp: single_line_def utf8_valid_Cons)

lemma strip_cr_id: "v = [] \<or> last v \<noteq> CHR 0x0D \<Longrightarrow> strip_cr v = v"
  by (auto simp: strip_cr_def ends_with_iff)

lemma str_lines_line: "single_line l \<Longrightarrow> str_lines (l @ newl @ s) = l # str_lines s"
  using split_append [of "CHR 0x0A" l s]
  by (auto simp: str_lines_def Let_def single_line_def strip_cr_id)

lemma str_lines_Nil [simp]: "str_lines [] = []"
  by (simp add: str_lines_def)

lemma utf8_first: "utf8_valid s \<Longrightarrow> char_boundary s 0"
proof (cases s)
  case (Cons c cs)
  assume "utf8_valid s"
  then have "fst (utf8_next s)" using Cons by (simp add: utf8_valid_step)
  then have "utf8_width c \<noteq> 0" by (auto simp: Cons utf8_next_def Let_def split: if_splits)
  then show ?thesis by (auto simp: Cons char_boundary_def utf8_width_def code_def)
qed (simp add: char_boundary_def)

lemma str_upto_all: "utf8_valid s \<Longrightarrow> str_upto s (length s) = Inr s"
  using utf8_first [of s] by (simp add: str_upto_def str_slice_def char_boundary_def [of s "length s"])

lemma props_loop_prop:
  assumes "single_line k" "single_line v" "length k < 2 ^ 64" "length v < 2 ^ 64"
  shows "props_loop (str_lines (build_prop k v @ s)) m = props_loop (str_lines s) (m(k \<mapsto> v))"
proof -
  have K: "single_line (''K '' @ show_nat (length k))" and V: "single_line (''V '' @ show_nat (length v))"
    by (simp_all add: single_line_Cons code_def single_line_num)
  have "build_prop k v @ s = (''K '' @ show_nat (length k)) @ newl @ (k @ newl @ ((''V '' @ show_nat (length v)) @ newl @ (v @ newl @ s)))"
    by (simp add: build_prop_def)
  then have "str_lines (build_prop k v @ s) =
      (''K '' @ show_nat (length k)) # k # (''V '' @ show_nat (length v)) # v # str_lines s"
    by (simp only: str_lines_line [OF K] str_lines_line [OF V] str_lines_line [OF assms(1)] str_lines_line [OF assms(2)])
  moreover have "utf8_valid k" "utf8_valid v" using assms by (simp_all add: single_line_def)
  moreover note parse_show_nat [OF assms(3)] parse_show_nat [OF assms(4)]
  ultimately show ?thesis
    by (simp add: unwrap_or_def str_upto_all)
qed

lemma props_loop_optional:
  assumes "single_line k" "single_line v" "length k < 2 ^ 64" "length v < 2 ^ 64"
  shows "props_loop (str_lines ((if v \<noteq> [] then build_prop k v else []) @ s)) m =
    props_loop (str_lines s) (if v \<noteq> [] then m(k \<mapsto> v) else m)"
  by (cases "v = []") (simp_all add: props_loop_prop [OF assms])

lemma props_loop_end: "props_loop (str_lines (''PROPS-END'' @ newl)) m = Inr m"
  using str_lines_line [of "''PROPS-END''" "[]"]
  by (simp add: single_line_def utf8_valid_Cons code_def)

lemma utf8_build_prop: "utf8_valid k \<Longrightarrow> utf8_valid v \<Longrightarrow> utf8_valid (build_prop k v)"
  unfolding build_prop_def by (intro utf8_valid_append) (simp_all add: utf8_valid_Cons code_def)

definition rev_prop_map :: "string \<Rightarrow> string \<Rightarrow> string \<Rightarrow> string \<rightharpoonup> string" where
  "rev_prop_map a m dt = (\<lambda>k.
     if k = ''svn:author'' \<and> a \<noteq> [] then Some a else if k = ''svn:log'' \<and> m \<noteq> [] then Some m
     else if k = ''svn:date'' \<and> dt \<noteq> [] then Some dt else None)"

lemma length_build_prop: "length v \<le> length (build_prop k v)"
  by (simp add: build_prop_def)

lemma parse_rev_props:
  assumes "single_line a" "single_line m" "single_line dt"
    and "length a < 2 ^ 64" "length m < 2 ^ 64" "length dt < 2 ^ 64"
  shows "parse_props_block (build_rev_props a m dt) = Inr (rev_prop_map a m dt)"
proof -
  have keys: "single_line ''svn:author''" "single_line ''svn:log''" "single_line ''svn:date''"
    by (simp_all add: single_line_def utf8_valid_Cons code_def)
  have len: "length ''svn:author'' < 2 ^ 64" "length ''svn:log'' < 2 ^ 64" "length ''svn:date'' < 2 ^ 64" by simp_all
  define parts where "parts =
    (if a \<noteq> [] then build_prop ''svn:author'' a else []) @ (if m \<noteq> [] then build_prop ''svn:log'' m else []) @
    (if dt \<noteq> [] then build_prop ''svn:date'' dt else []) @ ''PROPS-END'' @ newl"
  have "utf8_valid parts"
    using assms keys unfolding parts_def
    by (intro utf8_valid_append) (simp_all add: single_line_def utf8_build_prop utf8_valid_Cons code_def)
  moreover have "props_loop (str_lines parts) Map.empty = Inr (rev_prop_map a m dt)"
    unfolding parts_def props_loop_optional [OF keys(1) assms(1) len(1) assms(4)]
      props_loop_optional [OF keys(2) assms(2) len(2) assms(5)] props_loop_optional [OF keys(3) assms(3) len(3) assms(6)]
      props_loop_end by (auto simp: rev_prop_map_def)
  ultimately show ?thesis
    unfolding parse_props_block_def build_rev_props_def parts_def [symmetric] map_byte_char by (simp add: utf8_lossy_valid)
qed

section \<open>Records\<close>

lemma parse_revision_block:
  assumes "0 < length props" "length props < 2 ^ 63" "(parse_props_block props :: 'e dump_error + _) = Inr m"
  shows "(parse_revision D tr (header ''Prop-content-length'' (show_nat (length props)) @
      header ''Content-length'' (show_nat (length props)) @ blank_line @ props @ d) :: 'e dump_error + _) =
    Inr (\<lparr>revision_number = hdr_num tr, pv_author = unwrap_or ''unknown'' (m ''svn:author''),
      pv_message = unwrap_or [] (m ''svn:log''),
      pv_timestamp = unwrap_or (clock_at D (length d)) (Option.bind (m ''svn:date'') (parse_rfc3339 D)),
      pv_nodes = []\<rparr>, d)"
proof -
  have n: "length props < 2 ^ 64" using assms(2) by simp
  have "(read_hdr_buf 0 0 (header ''Prop-content-length'' (show_nat (length props)) @
      header ''Content-length'' (show_nat (length props)) @ blank_line @ props @ d) :: 'e dump_error + _) =
    Inr ((length props, length props), props @ d)"
    by (simp only: read_hdr_header header_names value_ok_num hdr_num_header [OF header_names(1) n]
        hdr_num_header [OF header_names(3) n] blank_steps if_True) simp
  moreover have "\<not> 2 ^ 63 \<le> length props" using assms(2) by simp
  ultimately show ?thesis
    using assms(1,3) unfolding parse_revision_def rev_props_def read_block_def Let_def by simp
qed

definition read_revision :: "dump_env \<Rightarrow> nat \<Rightarrow> string \<Rightarrow> string \<Rightarrow> string \<Rightarrow> nat \<Rightarrow> parsed_revision" where
  "read_revision D r a m dt left =
     \<lparr>revision_number = r, pv_author = (if a = [] then ''unknown'' else a), pv_message = m,
      pv_timestamp = unwrap_or (clock_at D left) (if dt = [] then None else parse_rfc3339 D dt), pv_nodes = []\<rparr>"

definition rev_text_ok :: "string \<Rightarrow> string \<Rightarrow> string \<Rightarrow> bool" where
  "rev_text_ok a m dt \<longleftrightarrow> single_line a \<and> single_line m \<and> single_line dt \<and>
     length (build_rev_props a m dt) < 2 ^ 63"

lemma rev_text_lengths:
  assumes "rev_text_ok a m dt"
  shows "length a < 2 ^ 64" "length m < 2 ^ 64" "length dt < 2 ^ 64"
proof -
  have "length a + length m + length dt \<le> length (build_rev_props a m dt)"
    by (auto simp: build_rev_props_def build_prop_def)
  then have *: "length a + length m + length dt < 2 ^ 63" using assms by (simp add: rev_text_ok_def)
  show "length a < 2 ^ 64" "length m < 2 ^ 64" "length dt < 2 ^ 64" using * by simp_all
qed

lemma parse_written_revision:
  assumes "r < 2 ^ 64" "rev_text_ok a m dt"
  shows "(parse_revision D (''Revision-number'' @ '': '' @ show_nat r) :: _ \<Rightarrow> 'e dump_error + _)
      (header ''Prop-content-length'' (show_nat (length (build_rev_props a m dt))) @
       header ''Content-length'' (show_nat (length (build_rev_props a m dt))) @ blank_line @
       build_rev_props a m dt @ blank_line @ d) =
    Inr (read_revision D r a m dt (Suc (length d)), blank_line @ d)"
proof -
  let ?p = "build_rev_props a m dt"
  have p: "0 < length ?p" "length ?p < 2 ^ 63" "(parse_props_block ?p :: 'e dump_error + _) = Inr (rev_prop_map a m dt)"
    using assms(2) parse_rev_props [OF _ _ _ rev_text_lengths [OF assms(2)]]
    by (simp_all add: rev_text_ok_def) (simp add: build_rev_props_def)
  show ?thesis
    unfolding parse_revision_block [OF p] hdr_num_header [OF header_names(8) assms(1)]
    by (simp add: read_revision_def rev_prop_map_def unwrap_or_def blank_line_def)
qed

lemma parse_rev_record:
  assumes "r < 2 ^ 64" "rev_text_ok a m dt"
  shows "parse_loop D (f :: ('s, 'e) consumer) (rev_record r (build_rev_props a m dt) @ d) cur st =
    (case flush_rev f cur st of
       (st1, Inl e) \<Rightarrow> (st1, Inl e)
     | (st1, Inr _) \<Rightarrow> parse_loop D f d (Some (read_revision D r a m dt (Suc (length d)))) st1)"
  unfolding rev_record_def append_assoc loop_revision [OF value_ok_num] parse_written_revision [OF assms]
  by (simp only: sum.case prod.case blank_steps)

lemma node_lengths:
  assumes "length np + length c < 2 ^ 63" "0 < length np"
  shows "node_body nd (length np, length c, length np + length c) (np @ c @ blank_line @ r) =
    Inr (nd\<lparr>pn_content := (if c = [] then pn_content nd else c)\<rparr>, r)"
proof -
  have "\<not> 2 ^ 63 \<le> length np + length c" "(length np + length c) mod 2 ^ 64 = length np + length c"
    using assms(1) by simp_all
  moreover have "take (length np + length c) (np @ c @ blank_line @ r) = np @ c"
    "drop (length np + length c) (np @ c @ blank_line @ r) = blank_line @ r" by simp_all
  ultimately show ?thesis
    using assms(2) unfolding node_body_def node_text_def read_block_def Let_def prod.case
    by (simp del: take_append drop_append add: read_blank) simp
qed

lemma node_pre_headers:
  assumes "value_ok v"
  shows "parse_node_headers nd (header ''Node-kind'' v @ r) = parse_node_headers (nd\<lparr>pn_kind := node_kind_of v\<rparr>) r"
    and "parse_node_headers nd (header ''Node-action'' v @ r) = parse_node_headers (nd\<lparr>pn_action := node_action_of v\<rparr>) r"
  unfolding node_header [OF header_names(5) assms] node_header [OF header_names(6) assms] by simp_all

lemma node_prop_length:
  assumes "k < 2 ^ 64"
  shows "parse_node_headers nd (header ''Prop-content-length'' (show_nat k) @ r) =
    rbind (content_headers (k, 0, 0) r) (\<lambda>(ls, r1). node_body nd ls r1)"
  unfolding node_header [OF header_names(1) value_ok_num] set_length_header [OF header_names(1)]
    hdr_num_header [OF header_names(1) assms] by simp

lemma content_lengths:
  assumes "k < 2 ^ 64"
  shows "content_headers (pl, txl, tcl) (header ''Text-content-length'' (show_nat k) @ r) = content_headers (pl, k, tcl) r"
    and "content_headers (pl, txl, tcl) (header ''Content-length'' (show_nat k) @ r) = content_headers (pl, txl, k) r"
  unfolding content_header [OF header_names(2) value_ok_num] content_header [OF header_names(3) value_ok_num]
    set_length_header [OF header_names(2)] set_length_header [OF header_names(3)]
    hdr_num_header [OF header_names(2) assms] hdr_num_header [OF header_names(3) assms] by simp_all

lemma content_md5:
  assumes "value_ok v"
  shows "content_headers ls (header ''Text-content-md5'' v @ r) = content_headers ls r"
proof -
  obtain pl txl tcl where "ls = (pl, txl, tcl)" by (metis prod_cases3)
  then show ?thesis
    unfolding content_header [OF header_names(4) assms] by (simp only: set_length_header [OF header_names(4)]) simp
qed

lemma value_ok_md5: "value_ok (md5_hex c)"
proof -
  have sp: "code x \<le> 32" if "is_space x \<or> x = CHR 0x0A" for x
    using that by (auto simp: is_space_def code_def)
  have h: "\<not> is_space (hex_char k) \<and> code (hex_char k) < 128 \<and> hex_char k \<noteq> CHR 0x0A" if "k < 16" for k
  proof -
    have "code (hex_char k) = (if k < 10 then 48 + k else 87 + k)"
      using that by (simp add: code_def hex_char_def digit_char_def)
    then show ?thesis using that sp [of "hex_char k"] by (auto split: if_splits)
  qed
  have all: "\<not> is_space x \<and> code x < 128 \<and> x \<noteq> CHR 0x0A" if x: "x \<in> set (md5_hex c)" for x
  proof -
    obtain b :: byte where "x = hex_char (unat b div 16) \<or> x = hex_char (unat b mod 16)"
      using x unfolding md5_hex_def by auto
    moreover have "unat b div 16 < 16" using unat_byte_less [of b] by simp
    ultimately show ?thesis using h [of "unat b div 16"] h [of "unat b mod 16"] by auto
  qed
  have ne: "md5_hex c \<noteq> []" by (metis length_md5_hex list.size(3) zero_neq_numeral)
  have "utf8_valid (md5_hex c)" using all by (intro utf8_valid_ascii) (auto simp: list_all_iff)
  then show ?thesis using ne all [OF hd_in_set [OF ne]] all [OF last_in_set [OF ne]] all by (auto simp: value_ok_def)
qed

text \<open>What the reader makes of a written node.\<close>

definition read_file :: "string \<Rightarrow> string \<Rightarrow> bytes \<Rightarrow> parsed_node" where
  "read_file path action c = \<lparr>pn_path = path, pn_kind = Some NFile, pn_action = node_action_of action, pn_content = c\<rparr>"

definition read_dir :: "string \<Rightarrow> string \<Rightarrow> parsed_node" where
  "read_dir path action = \<lparr>pn_path = path, pn_kind = Some NDir, pn_action = node_action_of action, pn_content = []\<rparr>"

definition read_delete :: "string \<Rightarrow> parsed_node" where
  "read_delete path = \<lparr>pn_path = path, pn_kind = None, pn_action = Some NDelete, pn_content = []\<rparr>"

lemma value_ok_words [simp]:
  "value_ok ''file''" "value_ok ''dir''" "value_ok ''add''" "value_ok ''change''" "value_ok ''delete''"
  by (simp_all add: value_ok_def utf8_valid_Cons code_def is_space_def)

lemma parse_file_record:
  assumes "value_ok path" "value_ok action" "length (build_node_props x) + length c < 2 ^ 63"
  shows "parse_loop D f (file_record path action x c @ d) cur st =
    parse_loop D f d (map_option (push_node (read_file path action c)) cur) st"
proof -
  let ?np = "build_node_props x"
  have n: "length ?np < 2 ^ 64" "length c < 2 ^ 64" "length ?np + length c < 2 ^ 64" "0 < length ?np"
    using assms(3) by (simp_all add: build_node_props_def)
  show ?thesis
    unfolding file_record_def Let_def append_assoc loop_node [OF assms(1)]
      node_pre_headers [OF value_ok_words(1)] node_pre_headers [OF assms(2)] node_prop_length [OF n(1)]
      content_lengths [OF n(2)] content_md5 [OF value_ok_md5] content_lengths [OF n(3)] blank_steps rbind_simps prod.case
      node_lengths [OF assms(3) n(4)] sum.case
    by (simp add: read_file_def new_node_def node_kind_of_def blank_steps)
qed

lemma parse_dir_record:
  assumes "value_ok path" "value_ok action"
  shows "parse_loop D f (dir_record path action @ d) cur st =
    parse_loop D f d (map_option (push_node (read_dir path action)) cur) st"
proof -
  let ?np = "build_empty_props"
  have n: "length ?np < 2 ^ 64" "length ?np + length ([] :: bytes) < 2 ^ 63" "0 < length ?np"
    by (simp_all add: build_empty_props_def)
  note body = node_lengths [OF n(2,3), unfolded list.size add_0_right append_Nil]
  show ?thesis
    unfolding dir_record_def Let_def append_assoc loop_node [OF assms(1)]
      node_pre_headers [OF value_ok_words(2)] node_pre_headers [OF assms(2)] node_prop_length [OF n(1)]
      content_lengths [OF n(1)] blank_steps rbind_simps prod.case body sum.case
    by (simp add: read_dir_def new_node_def node_kind_of_def blank_steps)
qed

lemma parse_delete_record:
  assumes "value_ok path"
  shows "parse_loop D f (delete_record path @ d) cur st =
    parse_loop D f d (map_option (push_node (read_delete path)) cur) st"
  unfolding delete_record_def append_assoc loop_node [OF assms] node_pre_headers [OF value_ok_words(5)] blank_steps
    sum.case prod.case
  by (simp add: read_delete_def new_node_def node_action_of_def)

end
