(* ===== verification/Dump_Handlers.thy ===== *)
theory Dump_Handlers
  imports Dump_Roundtrip Webdav_Server
begin

text \<open>
  The dump and load endpoints of \<open>dsvn-webdav/src/dump_handlers.rs\<close>: the query of a dump request,
  the dump of a range of revisions of a SQLite repository, and the loader, which replays a parsed
  stream as edits and bulk commits. Reading trees updates the cache, so the writer passes the
  repository on; \<open>None\<close> is a walk along deltas that does not end.
\<close>

unbundle bit_operations_syntax

section \<open>Dump requests\<close>

definition DUMPFILE_MIME :: string where
  "DUMPFILE_MIME = ''application/vnd.svn-dumpfile''"

definition is_dump_request :: "string \<Rightarrow> bool" where
  "is_dump_request accept \<longleftrightarrow> contains_sub accept DUMPFILE_MIME \<or> contains_sub accept ''svn-dumpfile''"

definition is_load_request :: "string \<Rightarrow> bool" where
  "is_load_request content_type \<longleftrightarrow> contains_sub content_type DUMPFILE_MIME \<or> contains_sub content_type ''svn-dumpfile''"

record dump_params =
  start_rev :: nat
  end_rev :: nat
  incremental :: bool
  format_version :: nat

definition parse_u32 :: "string \<Rightarrow> nat option" where
  "parse_u32 s = Option.bind (parse_u64 s) (\<lambda>n. if n < 2 ^ 32 then Some n else None)"

definition parse_end :: "nat \<Rightarrow> string \<Rightarrow> nat" where
  "parse_end head_rev e = (if to_lower e = ''head'' then head_rev else unwrap_or head_rev (parse_u64 e))"

definition query_pair :: "nat \<Rightarrow> string \<Rightarrow> dump_params \<Rightarrow> dump_params" where
  "query_pair head_rev pair p =
     (let (key, val) = (case split_once CHR ''='' pair of None \<Rightarrow> (pair, []) | Some kv \<Rightarrow> kv) in
      if key = ''r'' \<or> key = ''revision'' \<or> key = ''rev'' then
        (case split_once CHR '':'' val of
           Some (s, e) \<Rightarrow> p\<lparr>start_rev := unwrap_or 0 (parse_u64 s), end_rev := parse_end head_rev e\<rparr>
         | None \<Rightarrow> p\<lparr>start_rev := unwrap_or 0 (parse_u64 val)\<rparr>)
      else if key = ''incremental'' then p\<lparr>incremental := (val = ''true'' \<or> val = ''1'' \<or> val = [])\<rparr>
      else if key = ''format'' \<or> key = ''dump-format'' then p\<lparr>format_version := unwrap_or 3 (parse_u32 val)\<rparr>
      else if key = ''start'' then p\<lparr>start_rev := unwrap_or 0 (parse_u64 val)\<rparr>
      else if key = ''end'' then p\<lparr>end_rev := parse_end head_rev val\<rparr>
      else p)"

text \<open>The end is limited to the head first, then start and end are swapped if out of order.\<close>

definition from_query :: "string \<Rightarrow> nat \<Rightarrow> dump_params" where
  "from_query query head_rev =
     (let p = fold (query_pair head_rev) (split CHR ''&'' query)
                \<lparr>start_rev = 0, end_rev = head_rev, incremental = False, format_version = 3\<rparr>;
          e = min (end_rev p) head_rev
      in if start_rev p > e then p\<lparr>start_rev := e, end_rev := start_rev p\<rparr> else p\<lparr>end_rev := e\<rparr>)"

section \<open>Writing a dump\<close>

definition upsert_action :: "'c repo_env \<Rightarrow> nat \<Rightarrow> string \<Rightarrow> 'c repo \<Rightarrow> ('c repo \<times> string) option" where
  "upsert_action E r path s =
     (if r > 1 then
        map_option (\<lambda>(s1, t). (s1, case t of Inl _ \<Rightarrow> ''add'' | Inr m \<Rightarrow> if ohas m path then ''change'' else ''add''))
          (get_tree_at_rev E (r - 1) s)
      else Some (s, ''add''))"

fun write_change_to_buf :: "'c repo_env \<Rightarrow> nat \<Rightarrow> tree_change \<Rightarrow> 'c repo \<Rightarrow> ('c repo \<times> bytes) option" where
  "write_change_to_buf E r (Upsert path entry) s =
     Option.bind (upsert_action E r path s) (\<lambda>(s1, action).
       if te_kind entry = KBlob then
         map_option (\<lambda>(s2, res). (s2, case res of
             Inr content \<Rightarrow> file_record path action (te_mode entry AND 0x49 \<noteq> 0) content
           | Inl _ \<Rightarrow> []))
           (get_file E (''/'' @ path) r s1)
       else Some (s1, dir_record path action))"
| "write_change_to_buf E r (Delete path) s = Some (s, delete_record path)"

fun write_changes :: "'c repo_env \<Rightarrow> nat \<Rightarrow> tree_change list \<Rightarrow> 'c repo \<Rightarrow> ('c repo \<times> bytes) option" where
  "write_changes E r [] s = Some (s, [])"
| "write_changes E r (ch # chs) s =
     Option.bind (write_change_to_buf E r ch s) (\<lambda>(s1, b).
       map_option (\<lambda>(s2, bs). (s2, b @ bs)) (write_changes E r chs s1))"

definition rev_props_bytes :: "dump_env \<Rightarrow> commit option \<Rightarrow> bytes" where
  "rev_props_bytes D c =
     (case c of
        None \<Rightarrow> build_empty_props
      | Some cm \<Rightarrow> build_rev_props (author cm) (message cm) (unwrap_or [] (dump_date D (timestamp cm))))"

definition write_revision :: "'c repo_env \<Rightarrow> dump_env \<Rightarrow> nat \<Rightarrow> 'c repo \<Rightarrow> ('c repo \<times> bytes) option" where
  "write_revision E D r s =
     map_option (\<lambda>(s1, b). (s1, rev_record r (rev_props_bytes D (get_commit E s r)) @ b))
       (if r > 0 then
          (case load_delta_tree E s r of
             Inr d \<Rightarrow> write_changes E r (changes d) s
           | Inl _ \<Rightarrow> Some (s, []))
        else Some (s, []))"

fun write_revisions :: "'c repo_env \<Rightarrow> dump_env \<Rightarrow> nat list \<Rightarrow> 'c repo \<Rightarrow> ('c repo \<times> bytes) option" where
  "write_revisions E D [] s = Some (s, [])"
| "write_revisions E D (r # rs) s =
     Option.bind (write_revision E D r s) (\<lambda>(s1, b).
       map_option (\<lambda>(s2, bs). (s2, b @ bs)) (write_revisions E D rs s1))"

definition dump_preamble :: "dump_params \<Rightarrow> string \<Rightarrow> bytes" where
  "dump_preamble p uuid =
     header ''SVN-fs-dump-format-version'' (show_nat (format_version p)) @ blank_line @
     (if incremental p then [] else header ''UUID'' uuid @ blank_line)"

definition generate_dump :: "'c repo_env \<Rightarrow> dump_env \<Rightarrow> dump_params \<Rightarrow> 'c repo \<Rightarrow> ('c repo \<times> bytes) option" where
  "generate_dump E D p s =
     map_option (\<lambda>(s1, b). (s1, dump_preamble p (r_uuid s) @ b))
       (write_revisions E D [start_rev p..<Suc (end_rev p)] s)"

definition handle_dump :: "'c repo_env \<Rightarrow> dump_env \<Rightarrow> string \<Rightarrow> 'c repo \<Rightarrow> ('c repo \<times> response) option" where
  "handle_dump E D query s =
     (let p = from_query query (r_current_rev s) in
      map_option (\<lambda>(s1, data).
          (s1, \<lparr>status = 200,
                resp_headers =
                  [(''Content-Type'', DUMPFILE_MIME), (''Content-Length'', show_nat (length data)),
                   (''Content-Disposition'', ''attachment; filename='' @ dq @ ''repository.dump'' @ dq),
                   (''X-SVN-Dump-Revision-Range'', show_nat (start_rev p) @ '':'' @ show_nat (end_rev p)),
                   (''X-SVN-Dump-Format-Version'', show_nat (format_version p)),
                   (''X-SVN-Dump-Incremental'', if incremental p then ''true'' else ''false'')],
                resp_body = Content data\<rparr>))
        (generate_dump E D p s))"

section \<open>Loading a dump\<close>

record load_stats =
  revisions_loaded :: nat
  nodes_processed :: nat
  files_added :: nat
  dirs_created :: nat
  files_deleted :: nat
  files_modified :: nat
  final_revision :: nat
  elapsed_ms :: nat

definition no_stats :: load_stats where
  "no_stats = \<lparr>revisions_loaded = 0, nodes_processed = 0, files_added = 0, dirs_created = 0,
     files_deleted = 0, files_modified = 0, final_revision = 0, elapsed_ms = 0\<rparr>"

type_synonym 'c loading = "'c repo \<times> load_stats"

text \<open>One node: the flag tells whether it changed the working tree.\<close>

definition load_add :: "'c repo_env \<Rightarrow> parsed_node \<Rightarrow> 'c loading \<Rightarrow> 'c loading \<times> bool" where
  "load_add E nd l =
     (case l of (s, st) \<Rightarrow>
        (case pn_kind nd of
           Some NFile \<Rightarrow>
             ((fst (add_file_sync E (pn_path nd) (pn_content nd) False s), st\<lparr>files_added := files_added st + 1\<rparr>), True)
         | Some NDir \<Rightarrow> ((fst (mkdir_sync E (pn_path nd) s), st\<lparr>dirs_created := dirs_created st + 1\<rparr>), True)
         | None \<Rightarrow>
             if pn_content nd \<noteq> [] then
               ((fst (add_file_sync E (pn_path nd) (pn_content nd) False s), st\<lparr>files_added := files_added st + 1\<rparr>), True)
             else ((s, st), False)))"

definition load_node :: "'c repo_env \<Rightarrow> parsed_node \<Rightarrow> 'c loading \<Rightarrow> 'c loading \<times> bool" where
  "load_node E nd l =
     (case l of (s, st0) \<Rightarrow>
        let st = st0\<lparr>nodes_processed := nodes_processed st0 + 1\<rparr> in
        (case pn_action nd of
           Some NAdd \<Rightarrow> load_add E nd (s, st)
         | Some NReplace \<Rightarrow> load_add E nd (s, st)
         | Some NDelete \<Rightarrow> ((delete_file_sync (pn_path nd) s, st\<lparr>files_deleted := files_deleted st + 1\<rparr>), True)
         | Some NChange \<Rightarrow>
             if pn_content nd \<noteq> [] then
               ((fst (add_file_sync E (pn_path nd) (pn_content nd) False s), st\<lparr>files_modified := files_modified st + 1\<rparr>), True)
             else ((s, st), False)
         | None \<Rightarrow> ((s, st), False)))"

fun load_nodes :: "'c repo_env \<Rightarrow> parsed_node list \<Rightarrow> 'c loading \<times> bool \<Rightarrow> 'c loading \<times> bool" where
  "load_nodes E [] acc = acc"
| "load_nodes E (nd # nds) (l, has_changes) =
     (case load_node E nd l of (l1, changed) \<Rightarrow> load_nodes E nds (l1, has_changes \<or> changed))"

text \<open>The closure passed to \<open>parse_dump_stream\<close>. A failed commit returns with the batch mode still on.\<close>

definition load_revision :: "'c repo_env \<Rightarrow> ('c loading, repo_error) consumer" where
  "load_revision E rv l =
     (case l of (s, st) \<Rightarrow>
        if revision_number rv = 0 \<or> pv_nodes rv = [] then (l, Inr ())
        else
          (case load_nodes E (pv_nodes rv) ((begin_batch s, st), False) of
             ((s1, st1), False) \<Rightarrow> ((end_batch s1, st1\<lparr>revisions_loaded := revisions_loaded st1 + 1\<rparr>), Inr ())
           | ((s1, st1), True) \<Rightarrow>
               (case commit_sync E (pv_author rv) (pv_message rv) (pv_timestamp rv) s1 of
                  (s2, Inl e) \<Rightarrow> ((s2, st1), Inl e)
                | (s2, Inr r) \<Rightarrow>
                    ((end_batch s2, st1\<lparr>final_revision := r, revisions_loaded := revisions_loaded st1 + 1\<rparr>), Inr ()))))"

text \<open>
  The reply: the statistics as JSON, with the elapsed time as the clock gives it. A parser error,
  a rejected commit or a panic of the task answer 500.
\<close>

datatype load_reply = Loaded load_stats | LoadFailed "repo_error dump_error"

definition handle_load :: "'c repo_env \<Rightarrow> dump_env \<Rightarrow> nat \<Rightarrow> bytes \<Rightarrow> 'c repo \<Rightarrow> 'c repo \<times> load_reply" where
  "handle_load E D elapsed body s =
     (case parse_dump_stream D (load_revision E) body (s, no_stats) of
        ((s1, st), Inr _) \<Rightarrow> (s1, Loaded (st\<lparr>elapsed_ms := elapsed\<rparr>))
      | ((s1, st), Inl e) \<Rightarrow> (s1, LoadFailed e))"

end
