(* ===== verification/Dump_Properties.thy ===== *)
theory Dump_Properties
  imports Dump_Handlers
begin

text \<open>
  What a dump holds and what loading it does. \<open>dumped_revision\<close> is the specification: number,
  author, message and date of the commit, and one node per change of the revision's delta, with
  the content the file has at that revision.
\<close>

section \<open>The specification of a dump\<close>

definition change_action :: "'c repo_env \<Rightarrow> 'c repo \<Rightarrow> nat \<Rightarrow> string \<Rightarrow> string" where
  "change_action E s r path = (if r > 1 \<and> ohas (tree_of E s (r - 1)) path then ''change'' else ''add'')"

fun dumped_nodes :: "'c repo_env \<Rightarrow> 'c repo \<Rightarrow> nat \<Rightarrow> tree_change \<Rightarrow> parsed_node list" where
  "dumped_nodes E s r (Upsert path entry) =
     (if te_kind entry = KBlob then
        (case file_of E s r path of None \<Rightarrow> [] | Some c \<Rightarrow> [read_file path (change_action E s r path) c])
      else [read_dir path (change_action E s r path)])"
| "dumped_nodes E s r (Delete path) = [read_delete path]"

definition dumped_revision :: "'c repo_env \<Rightarrow> 'c repo \<Rightarrow> nat \<Rightarrow> parsed_revision" where
  "dumped_revision E s r =
     (case get_commit E s r of
        None \<Rightarrow> \<lparr>revision_number = r, pv_author = ''unknown'', pv_message = [], pv_timestamp = 0, pv_nodes = []\<rparr>
      | Some c \<Rightarrow>
          \<lparr>revision_number = r, pv_author = (if author c = [] then ''unknown'' else author c), pv_message = message c,
           pv_timestamp = timestamp c, pv_nodes = concat (map (dumped_nodes E s r) (rev_changes E s r))\<rparr>)"

text \<open>
  What the format can carry: the commit exists, author and message are single lines, \<open>chrono\<close>
  reads back the date it wrote, paths are header values and files fit in memory.
\<close>

definition dump_change_ok :: "'c repo_env \<Rightarrow> 'c repo \<Rightarrow> nat \<Rightarrow> tree_change \<Rightarrow> bool" where
  "dump_change_ok E s r ch \<longleftrightarrow>
     value_ok (change_path ch) \<and> hd (change_path ch) \<noteq> CHR ''/'' \<and>
     (case file_of E s r (change_path ch) of None \<Rightarrow> True | Some c \<Rightarrow> length c < 2 ^ 62)"

definition dump_rev_ok :: "'c repo_env \<Rightarrow> dump_env \<Rightarrow> 'c repo \<Rightarrow> nat \<Rightarrow> bool" where
  "dump_rev_ok E D s r \<longleftrightarrow>
     (case get_commit E s r of
        None \<Rightarrow> False
      | Some c \<Rightarrow>
          (case dump_date D (timestamp c) of
             None \<Rightarrow> False
           | Some dt \<Rightarrow> dt \<noteq> [] \<and> parse_rfc3339 D dt = Some (timestamp c) \<and> rev_text_ok (author c) (message c) dt)) \<and>
     list_all (dump_change_ok E s r) (rev_changes E s r)"

text \<open>Feeding a list of revisions to a consumer, up to its first error.\<close>

fun feed :: "('r \<Rightarrow> 's \<Rightarrow> 's \<times> ('e + unit)) \<Rightarrow> 'r list \<Rightarrow> 's \<Rightarrow> 's \<times> ('e dump_error + unit)" where
  "feed f [] st = (st, Inr ())"
| "feed f (rv # rvs) st =
     (case f rv st of (st1, Inl e) \<Rightarrow> (st1, Inl (Callback e)) | (st1, Inr _) \<Rightarrow> feed f rvs st1)"

definition push_nodes :: "parsed_node list \<Rightarrow> parsed_revision \<Rightarrow> parsed_revision" where
  "push_nodes nds rv = rv\<lparr>pv_nodes := pv_nodes rv @ nds\<rparr>"

lemma push_nodes_simps:
  "push_nodes [] rv = rv" "push_nodes [nd] rv = push_node nd rv"
  "push_nodes b (push_nodes a rv) = push_nodes (a @ b) rv"
  by (simp_all add: push_nodes_def push_node_def)

section \<open>Reading leaves the specification alone\<close>

lemma read_ok_spec:
  assumes "read_ok E s s'"
  shows "tree_of E s' = tree_of E s" "r_current_rev s' = r_current_rev s" "file_of E s' = file_of E s"
    "get_commit E s' = get_commit E s" "rev_changes E s' = rev_changes E s" "load_delta_tree E s' = load_delta_tree E s"
proof -
  have oc: "only_cache s s'" using assms by (simp add: read_ok_def)
  note d = only_cacheD [OF oc]
  show t: "tree_of E s' = tree_of E s" by (rule only_cache_tree_of [OF oc])
  show "r_current_rev s' = r_current_rev s" by (rule d)
  show "file_of E s' = file_of E s" by (intro ext) (simp add: file_of_def t d split: option.split)
  show "get_commit E s' = get_commit E s" by (simp add: get_commit_def load_commit_def d fun_eq_iff)
  show "rev_changes E s' = rev_changes E s" by (simp add: rev_changes_def delta_at_def d fun_eq_iff)
  show "load_delta_tree E s' = load_delta_tree E s" by (simp add: load_delta_tree_def d fun_eq_iff)
qed

lemma read_ok_nodes:
  assumes "read_ok E s s'"
  shows "dumped_nodes E s' = dumped_nodes E s" "dump_change_ok E s' = dump_change_ok E s"
    "dumped_revision E s' = dumped_revision E s" "dump_rev_ok E D s' = dump_rev_ok E D s"
proof -
  note spec = read_ok_spec [OF assms]
  have "dumped_nodes E s' r ch = dumped_nodes E s r ch" for r ch
  proof -
    have "change_action E s' = change_action E s" by (simp add: change_action_def spec fun_eq_iff)
    then show ?thesis by (cases ch) (simp_all add: spec split: option.split)
  qed
  then show n: "dumped_nodes E s' = dumped_nodes E s" by (simp add: fun_eq_iff)
  show c: "dump_change_ok E s' = dump_change_ok E s" by (simp add: dump_change_ok_def spec fun_eq_iff)
  show "dumped_revision E s' = dumped_revision E s" by (intro ext) (simp add: dumped_revision_def spec n split: option.split)
  show "dump_rev_ok E D s' = dump_rev_ok E D s" by (simp add: dump_rev_ok_def spec c fun_eq_iff)
qed

section \<open>The writer meets the specification\<close>

lemma upsert_action_ok:
  assumes "lru_ok E" "history_inv E s" "r \<le> r_current_rev s"
  shows "\<exists>s'. upsert_action E r path s = Some (s', change_action E s r path) \<and> read_ok E s s'"
proof (cases "r > 1")
  case True
  have "r - 1 \<le> r_current_rev s" using assms(3) by simp
  from get_tree_at_rev_ok [OF assms(1,2) this] True show ?thesis
    by (auto simp: upsert_action_def change_action_def read_ok_def)
next
  case False
  with assms(2) show ?thesis by (simp add: upsert_action_def change_action_def read_ok_def)
qed

lemma change_action_ok: "value_ok (change_action E s r path)"
  by (simp add: change_action_def)

lemma rev_changes_load:
  assumes "history_inv E s" "0 < r" "r \<le> r_current_rev s"
  obtains d where "load_delta_tree E s r = Inr d" "changes d = rev_changes E s r"
proof -
  obtain d where d: "delta_at E s r = Some d" using history_invD(1) [OF assms] by blast
  then have "load_delta_tree E s r = Inr d"
    by (auto simp: load_delta_tree_def delta_at_def Option.bind_eq_Some_conv)
  with d assms(2) that show ?thesis by (simp add: rev_changes_def)
qed

lemma dumped_revision_eq:
  assumes "get_commit E s r = Some c" "parse_rfc3339 D dt = Some (timestamp c)" "dt \<noteq> []"
  shows "push_nodes (concat (map (dumped_nodes E s r) (rev_changes E s r))) (read_revision D r (author c) (message c) dt n) =
    dumped_revision E s r"
  using assms by (simp add: dumped_revision_def read_revision_def push_nodes_def unwrap_or_def)

section \<open>Readers of dumps\<close>

text \<open>
  The interface of a parser of dumps: \<open>loop\<close> reads the bytes that are left with the current revision
  and the state of the consumer \<open>f\<close>; \<open>view\<close> is how the parser represents a revision. The laws say
  what the parser makes of each record the server writes.
\<close>

locale dump_reader =
  fixes D :: dump_env
    and view :: "parsed_revision \<Rightarrow> 'rv"
    and f :: "'rv \<Rightarrow> 's \<Rightarrow> 's \<times> ('e + unit)"
    and loop :: "bytes \<Rightarrow> 'rv option \<Rightarrow> 's \<Rightarrow> 's \<times> ('e dump_error + unit)"
  assumes reads_end: "loop [] cur st = flush_rev f cur st"
    and reads_blank: "loop (blank_line @ d) cur st = loop d cur st"
    and reads_version: "loop (header ''SVN-fs-dump-format-version'' (show_nat n) @ d) cur st = loop d cur st"
    and reads_uuid: "value_ok u \<Longrightarrow> loop (header ''UUID'' u @ d) cur st = loop d cur st"
    and reads_revision: "r < 2 ^ 64 \<Longrightarrow> rev_text_ok a m dt \<Longrightarrow>
      loop (rev_record r (build_rev_props a m dt) @ d) cur st =
        (case flush_rev f cur st of
           (st1, Inl e) \<Rightarrow> (st1, Inl e)
         | (st1, Inr _) \<Rightarrow> loop d (Some (view (read_revision D r a m dt (Suc (length d))))) st1)"
    and reads_file: "value_ok path \<Longrightarrow> value_ok action \<Longrightarrow> length (build_node_props x) + length c < 2 ^ 63 \<Longrightarrow>
      loop (file_record path action x c @ d) (map_option view rv) st =
        loop d (map_option view (map_option (push_node (read_file path action c)) rv)) st"
    and reads_dir: "value_ok path \<Longrightarrow> value_ok action \<Longrightarrow>
      loop (dir_record path action @ d) (map_option view rv) st =
        loop d (map_option view (map_option (push_node (read_dir path action)) rv)) st"
    and reads_delete: "value_ok path \<Longrightarrow>
      loop (delete_record path @ d) (map_option view rv) st =
        loop d (map_option view (map_option (push_node (read_delete path)) rv)) st"
begin

lemma write_change_ok:
  assumes "lru_ok E" "history_inv E s" "r \<le> r_current_rev s" "dump_change_ok E s r ch"
  shows "\<exists>s' b. write_change_to_buf E r ch s = Some (s', b) \<and> read_ok E s s' \<and>
    (\<forall>d cur st. loop (b @ d) (map_option view cur) st = loop d (map_option view (map_option (push_nodes (dumped_nodes E s r ch)) cur)) st)"
proof (cases ch)
  case (Delete path)
  with assms(4) have "value_ok path" by (simp add: dump_change_ok_def)
  with Delete assms(2) show ?thesis
    by (simp add: reads_delete push_nodes_simps read_ok_def cong: map_option_cong)
next
  case (Upsert path entry)
  let ?act = "change_action E s r path"
  have p: "value_ok path" "hd path \<noteq> CHR ''/''" "\<And>c. file_of E s r path = Some c \<Longrightarrow> length c < 2 ^ 62"
    using assms(4) Upsert by (auto simp: dump_change_ok_def)
  obtain s1 where a: "upsert_action E r path s = Some (s1, ?act)" and r1: "read_ok E s s1"
    using upsert_action_ok [OF assms(1-3)] by blast
  show ?thesis
  proof (cases "te_kind entry = KBlob")
    case False
    with a r1 Upsert p(1) show ?thesis
      by (simp add: reads_dir change_action_ok push_nodes_simps cong: map_option_cong)
  next
    case True
    have h1: "history_inv E s1" "r \<le> r_current_rev s1"
      using r1 read_ok_spec(2) [OF r1] assms(3) by (simp_all add: read_ok_def)
    obtain s2 res where g: "get_file E (''/'' @ path) r s1 = Some (s2, res)" and r2: "read_ok E s1 s2"
      and res: "result_ok res = (if r \<le> r_current_rev s1 then file_of E s1 r (trim_start_matches CHR ''/'' (''/'' @ path)) else None)"
      by (rule get_file_ok [OF assms(1) h1(1)])
    have "trim_start_matches CHR ''/'' (''/'' @ path) = path" using p(2) by (simp add: trim_start_matches_id)
    with res h1(2) read_ok_spec(3) [OF r1] have f: "result_ok res = file_of E s r path" by simp
    note r = read_ok_trans [OF r1 r2]
    show ?thesis
    proof (cases res)
      case (Inl e)
      with f have "file_of E s r path = None" by simp
      with a g True Upsert r Inl show ?thesis by (simp add: push_nodes_simps option.map_ident cong: map_option_cong)
    next
      case (Inr c)
      with f have fc: "file_of E s r path = Some c" by simp
      have np: "length (build_node_props x) \<le> 64" for x by (simp add: build_node_props_def build_prop_def show_nat.simps)
      have "length (build_node_props x) + length c < 2 ^ 63" for x
        using p(3) [OF fc] np [of x] by simp
      with a g True Upsert r Inr fc p(1) show ?thesis
        by (simp add: reads_file change_action_ok push_nodes_simps cong: map_option_cong)
    qed
  qed
qed

lemma write_changes_ok:
  assumes "lru_ok E" "history_inv E s" "r \<le> r_current_rev s" "list_all (dump_change_ok E s r) chs"
  shows "\<exists>s' b. write_changes E r chs s = Some (s', b) \<and> read_ok E s s' \<and>
    (\<forall>d cur st. loop (b @ d) (map_option view cur) st =
       loop d (map_option view (map_option (push_nodes (concat (map (dumped_nodes E s r) chs))) cur)) st)"
  using assms(2-4)
proof (induction chs arbitrary: s)
  case Nil
  then show ?case by (simp add: push_nodes_simps option.map_ident read_ok_def cong: map_option_cong)
next
  case (Cons ch chs)
  obtain s1 b1 where 1: "write_change_to_buf E r ch s = Some (s1, b1)" "read_ok E s s1"
    "\<And>d cur st. loop (b1 @ d) (map_option view cur) st = loop d (map_option view (map_option (push_nodes (dumped_nodes E s r ch)) cur)) st"
    using write_change_ok [OF assms(1) Cons.prems(1,2), of ch] Cons.prems(3) by auto
  have pre: "history_inv E s1" "r \<le> r_current_rev s1" "list_all (dump_change_ok E s1 r) chs"
    using 1(2) Cons.prems read_ok_spec(2) [OF 1(2)] read_ok_nodes(2) [OF 1(2)] by (simp_all add: read_ok_def)
  obtain s2 b2 where 2: "write_changes E r chs s1 = Some (s2, b2)" "read_ok E s1 s2"
    "\<And>d cur st. loop (b2 @ d) (map_option view cur) st =
       loop d (map_option view (map_option (push_nodes (concat (map (dumped_nodes E s r) chs))) cur)) st"
    using Cons.IH [OF pre] read_ok_nodes(1) [OF 1(2)] by auto
  have "loop ((b1 @ b2) @ d) (map_option view cur) st =
      loop d (map_option view (map_option (push_nodes (concat (map (dumped_nodes E s r) (ch # chs)))) cur)) st" for d cur st
    unfolding append_assoc 1(3) 2(3) by (simp add: option.map_comp comp_def push_nodes_simps)
  then show ?case using 1(1) 2(1) read_ok_trans [OF 1(2) 2(2)] by simp
qed

lemma write_revision_ok:
  assumes "lru_ok E" "history_inv E s" "r \<le> r_current_rev s" "r < 2 ^ 64" "dump_rev_ok E D s r"
  shows "\<exists>s' b. write_revision E D r s = Some (s', b) \<and> read_ok E s s' \<and>
    (\<forall>d cur st. loop (b @ d) cur st =
       (case flush_rev f cur st of
          (st1, Inl e) \<Rightarrow> (st1, Inl e)
        | (st1, Inr _) \<Rightarrow> loop d (Some (view (dumped_revision E s r))) st1))"
proof -
  obtain c dt where c: "get_commit E s r = Some c" "dump_date D (timestamp c) = Some dt" "dt \<noteq> []"
    "parse_rfc3339 D dt = Some (timestamp c)" "rev_text_ok (author c) (message c) dt"
    and chs: "list_all (dump_change_ok E s r) (rev_changes E s r)"
    using assms(5) by (auto simp: dump_rev_ok_def split: option.splits)
  obtain s' b where w: "write_changes E r (rev_changes E s r) s = Some (s', b)" "read_ok E s s'"
    "\<And>d cur st. loop (b @ d) (map_option view cur) st =
       loop d (map_option view (map_option (push_nodes (concat (map (dumped_nodes E s r) (rev_changes E s r)))) cur)) st"
    using write_changes_ok [OF assms(1-3) chs] by auto
  have "(if r > 0 then case load_delta_tree E s r of Inr d \<Rightarrow> write_changes E r (changes d) s | Inl _ \<Rightarrow> Some (s, [])
         else Some (s, [])) = Some (s', b)"
  proof (cases "r = 0")
    case True
    with w(1) show ?thesis by (simp add: rev_changes_def)
  next
    case False
    with rev_changes_load [OF assms(2) _ assms(3)] w(1) show ?thesis by (metis neq0_conv sum.simps(6))
  qed
  then have wr: "write_revision E D r s = Some (s', rev_record r (build_rev_props (author c) (message c) dt) @ b)"
    by (simp add: write_revision_def rev_props_bytes_def c unwrap_or_def)
  have nodes: "loop (b @ d) (Some (view (read_revision D r (author c) (message c) dt n))) st =
      loop d (Some (view (dumped_revision E s r))) st" for n d st
    using w(3) [of d "Some (read_revision D r (author c) (message c) dt n)" st]
    unfolding option.map dumped_revision_eq [OF c(1,4,3)] .
  have "loop ((rev_record r (build_rev_props (author c) (message c) dt) @ b) @ d) cur st =
       (case flush_rev f cur st of
          (st1, Inl e) \<Rightarrow> (st1, Inl e)
        | (st1, Inr _) \<Rightarrow> loop d (Some (view (dumped_revision E s r))) st1)" for d cur st
    unfolding append_assoc reads_revision [OF assms(4) c(5)] nodes ..
  with wr w(2) show ?thesis by blast
qed

lemma write_revisions_ok:
  assumes "lru_ok E" "history_inv E s" "\<forall>r \<in> set rs. r \<le> r_current_rev s \<and> r < 2 ^ 64" "list_all (dump_rev_ok E D s) rs"
  shows "\<exists>s' b. write_revisions E D rs s = Some (s', b) \<and> read_ok E s s' \<and>
    (\<forall>cur st. loop b cur st =
       feed f ((case cur of None \<Rightarrow> [] | Some rv \<Rightarrow> [rv]) @ map (\<lambda>k. view (dumped_revision E s k)) rs) st)"
  using assms(2-4)
proof (induction rs arbitrary: s)
  case Nil
  have "flush_rev f cur st = feed f (case cur of None \<Rightarrow> [] | Some rv \<Rightarrow> [rv]) st" for cur st
    by (cases cur) (auto simp: flush_rev_def split: prod.splits sum.splits)
  with Nil show ?case by (simp add: reads_end read_ok_def)
next
  case (Cons r rs)
  obtain s1 b1 where 1: "write_revision E D r s = Some (s1, b1)" "read_ok E s s1"
    "\<And>d cur st. loop (b1 @ d) cur st =
       (case flush_rev f cur st of
          (st1, Inl e) \<Rightarrow> (st1, Inl e)
        | (st1, Inr _) \<Rightarrow> loop d (Some (view (dumped_revision E s r))) st1)"
    using write_revision_ok [OF assms(1) Cons.prems(1), of r] Cons.prems(2,3) by auto
  have pre: "history_inv E s1" "\<forall>r \<in> set rs. r \<le> r_current_rev s1 \<and> r < 2 ^ 64" "list_all (dump_rev_ok E D s1) rs"
    using 1(2) Cons.prems read_ok_spec(2) [OF 1(2)] read_ok_nodes(4) [OF 1(2)] by (simp_all add: read_ok_def)
  obtain s2 b2 where 2: "write_revisions E D rs s1 = Some (s2, b2)" "read_ok E s1 s2"
    "\<And>cur st. loop b2 cur st =
       feed f ((case cur of None \<Rightarrow> [] | Some rv \<Rightarrow> [rv]) @ map (\<lambda>k. view (dumped_revision E s k)) rs) st"
    using Cons.IH [OF pre] read_ok_nodes(3) [OF 1(2)] by (auto simp: comp_def)
  have "loop (b1 @ b2) cur st =
      feed f ((case cur of None \<Rightarrow> [] | Some rv \<Rightarrow> [rv]) @ map (\<lambda>k. view (dumped_revision E s k)) (r # rs)) st" for cur st
    unfolding 1(3) 2(3) by (cases cur) (auto simp: flush_rev_def split: prod.splits sum.splits)
  then show ?case using 1(1) 2(1) read_ok_trans [OF 1(2) 2(2)] by simp
qed

lemma generate_dump_reads:
  assumes "reachable E s" "end_rev p \<le> r_current_rev s" "value_ok (r_uuid s)"
    and "list_all (dump_rev_ok E D s) [start_rev p..<Suc (end_rev p)]"
  shows "\<exists>s' data. generate_dump E D p s = Some (s', data) \<and> read_ok E s s' \<and>
    (\<forall>st. loop data None st = feed f (map (\<lambda>k. view (dumped_revision E s k)) [start_rev p..<Suc (end_rev p)]) st)"
proof -
  have inv: "repo_inv E s" and head: "r_current_rev s < 2 ^ 64"
    using reachable_life [OF assms(1)] by (simp_all add: life_inv_def head_saved_def)
  have E: "lru_ok E" "history_inv E s" using inv by (simp_all add: repo_inv_def env_ok_def)
  have "\<forall>r \<in> set [start_rev p..<Suc (end_rev p)]. r \<le> r_current_rev s \<and> r < 2 ^ 64"
    using assms(2) head by auto
  from write_revisions_ok [OF E this assms(4)] obtain s' b where
    w: "write_revisions E D [start_rev p..<Suc (end_rev p)] s = Some (s', b)" "read_ok E s s'"
    "\<And>cur st. loop b cur st =
       feed f ((case cur of None \<Rightarrow> [] | Some rv \<Rightarrow> [rv]) @ map (\<lambda>k. view (dumped_revision E s k)) [start_rev p..<Suc (end_rev p)]) st"
    by auto
  have "loop (dump_preamble p (r_uuid s) @ b) None st = loop b None st" for st
    unfolding dump_preamble_def append_assoc reads_version reads_blank by (simp add: reads_uuid [OF assms(3)] reads_blank)
  then have "loop (dump_preamble p (r_uuid s) @ b) None st =
      feed f (map (\<lambda>k. view (dumped_revision E s k)) [start_rev p..<Suc (end_rev p)]) st" for st
    by (simp only: w(3) option.case append_Nil)
  moreover have "generate_dump E D p s = Some (s', dump_preamble p (r_uuid s) @ b)"
    unfolding generate_dump_def w(1) by simp
  ultimately show ?thesis using w(2) by blast
qed

end

interpretation server_reader: dump_reader D "\<lambda>rv. rv" f "parse_loop D f" for D f
  by unfold_locales
    (simp_all add: loop_end blank_steps loop_skip parse_rev_record parse_file_record parse_dir_record parse_delete_record option.map_ident)

lemma generate_dump_ok:
  assumes "reachable E s" "end_rev p \<le> r_current_rev s" "value_ok (r_uuid s)"
    and "list_all (dump_rev_ok E D s) [start_rev p..<Suc (end_rev p)]"
  shows "\<exists>s' data. generate_dump E D p s = Some (s', data) \<and> read_ok E s s' \<and>
    (\<forall>st. parse_dump_stream D f data st = feed f (map (dumped_revision E s) [start_rev p..<Suc (end_rev p)]) st)"
  using server_reader.generate_dump_reads [OF assms, of f] by (simp add: parse_dump_stream_def comp_def del: upt_Suc)

end
