(* ===== verification/Dump_Load.thy ===== *)
theory Dump_Load
  imports Dump_Properties Sample_Environment
begin

text \<open>
  Loading the dump of one repository into another. \<open>load_steps\<close> is the replay the loader performs,
  as a run of edits and bulk commits; \<open>mirrors_tree\<close> compares trees of two repositories by what a
  client sees of them, the kind of each path and the contents of the files. Modes may differ: the
  format carries the executable flag, but the loader drops it.
\<close>

section \<open>The replay\<close>

fun change_edit :: "'c repo_env \<Rightarrow> 'c repo \<Rightarrow> nat \<Rightarrow> tree_change \<Rightarrow> edit" where
  "change_edit E s r (Upsert path entry) =
     (if te_kind entry = KBlob then AddFile path (unwrap_or [] (file_of E s r path)) False else MkDir path)"
| "change_edit E s r (Delete path) = DeleteFile path"

definition rev_steps :: "'c repo_env \<Rightarrow> 'c repo \<Rightarrow> nat \<Rightarrow> (edit + string \<times> string \<times> int) list" where
  "rev_steps E s r =
     map Inl (map (change_edit E s r) (rev_changes E s r)) @
     [Inr (pv_author (dumped_revision E s r), pv_message (dumped_revision E s r), pv_timestamp (dumped_revision E s r))]"

definition load_steps :: "'c repo_env \<Rightarrow> 'c repo \<Rightarrow> nat \<Rightarrow> (edit + string \<times> string \<times> int) list" where
  "load_steps E s n = concat (map (rev_steps E s) [1..<Suc n])"

text \<open>An edit is safe for the tables, and a content does not collide with a stored object.\<close>

definition load_ok :: "'c repo_env \<Rightarrow> edit \<Rightarrow> 'c repo \<Rightarrow> bool" where
  "load_ok E e t \<longleftrightarrow> edit_safe E e t \<and> (case e of AddFile p c x \<Rightarrow> slot_ok E t c | _ \<Rightarrow> True)"

text \<open>
  What the loader honours: a file that is changed must not become empty, and a directory must not
  have existed before, since both are skipped.
\<close>

fun change_loadable :: "'c repo_env \<Rightarrow> 'c repo \<Rightarrow> nat \<Rightarrow> tree_change \<Rightarrow> bool" where
  "change_loadable E s r (Upsert path entry) =
     (map_of (tree_of E s r) path = Some entry \<and>
      (if te_kind entry = KBlob then
         (case file_of E s r path of None \<Rightarrow> False | Some c \<Rightarrow> change_action E s r path = ''add'' \<or> c \<noteq> [])
       else change_action E s r path = ''add''))"
| "change_loadable E s r (Delete path) = True"

definition rev_loadable :: "'c repo_env \<Rightarrow> 'c repo \<Rightarrow> nat \<Rightarrow> bool" where
  "rev_loadable E s r \<longleftrightarrow> rev_changes E s r \<noteq> [] \<and> list_all (change_loadable E s r) (rev_changes E s r)"

section \<open>The loader performs the replay\<close>

definition same_progress :: "load_stats \<Rightarrow> load_stats \<Rightarrow> bool" where
  "same_progress st st' \<longleftrightarrow> revisions_loaded st' = revisions_loaded st \<and> final_revision st' = final_revision st"

lemma load_node_edit:
  assumes "change_loadable E s r ch"
  shows "\<exists>nd. dumped_nodes E s r ch = [nd] \<and>
    (\<forall>t st. \<exists>st'. load_node E nd (t, st) = ((apply_edit E (change_edit E s r ch) t, st'), True) \<and> same_progress st st')"
proof (cases ch)
  case (Delete path)
  then show ?thesis
    by (simp add: read_delete_def load_node_def Let_def sync_edits same_progress_def)
next
  case (Upsert path entry)
  show ?thesis
  proof (cases "te_kind entry = KBlob")
    case True
    then obtain c where c: "file_of E s r path = Some c" "change_action E s r path = ''add'' \<or> c \<noteq> []"
      using assms Upsert by (auto split: option.splits)
    have "change_action E s r path = ''add'' \<or> change_action E s r path = ''change''" by (simp add: change_action_def)
    with c True Upsert show ?thesis
      by (auto simp: read_file_def node_action_of_def load_node_def load_add_def Let_def sync_edits same_progress_def unwrap_or_def)
  next
    case False
    with assms Upsert show ?thesis
      by (simp add: read_dir_def node_action_of_def load_node_def load_add_def Let_def sync_edits same_progress_def)
  qed
qed

lemma load_nodes_edits:
  assumes "list_all (change_loadable E s r) chs"
  shows "\<exists>st'. load_nodes E (concat (map (dumped_nodes E s r) chs)) ((t, st), b) =
      ((fold (apply_edit E) (map (change_edit E s r) chs) t, st'), b \<or> chs \<noteq> []) \<and> same_progress st st'"
  using assms
proof (induction chs arbitrary: t st b)
  case Nil
  then show ?case by (simp add: same_progress_def)
next
  case (Cons ch chs)
  from load_node_edit [of E s r ch] Cons.prems obtain nd where nd: "dumped_nodes E s r ch = [nd]"
    "\<And>t st. \<exists>st'. load_node E nd (t, st) = ((apply_edit E (change_edit E s r ch) t, st'), True) \<and> same_progress st st'"
    by auto
  from nd(2) [of t st] obtain st1 where st1: "load_node E nd (t, st) = ((apply_edit E (change_edit E s r ch) t, st1), True)"
    "same_progress st st1" by blast
  from Cons.IH [of "apply_edit E (change_edit E s r ch) t" st1 True] Cons.prems obtain st2 where
    "load_nodes E (concat (map (dumped_nodes E s r) chs)) ((apply_edit E (change_edit E s r ch) t, st1), True) =
      ((fold (apply_edit E) (map (change_edit E s r) chs) (apply_edit E (change_edit E s r ch) t), st2), True)"
    "same_progress st1 st2" by auto
  with nd(1) st1 show ?case by (auto simp: same_progress_def)
qed

text \<open>The batch flag is only carried along.\<close>

lemma apply_edit_batch: "apply_edit E e (t\<lparr>r_batch_mode := b\<rparr>) = (apply_edit E e t)\<lparr>r_batch_mode := b\<rparr>"
  by (cases e) (simp_all add: add_file_def mkdir_def delete_file_def store_object_def conn_tree_insert_def
      conn_tree_remove_def Let_def)

lemma fold_edit_batch: "fold (apply_edit E) es (t\<lparr>r_batch_mode := b\<rparr>) = (fold (apply_edit E) es t)\<lparr>r_batch_mode := b\<rparr>"
  by (induction es arbitrary: t) (simp_all add: apply_edit_batch)

lemma store_object_batch: "store_object i d (t\<lparr>r_batch_mode := b\<rparr>) = (store_object i d t)\<lparr>r_batch_mode := b\<rparr>"
  by (simp add: store_object_def)

lemma record_commit_batch:
  "record_commit E cr tid a m ts (t\<lparr>r_batch_mode := b\<rparr>) = (record_commit E cr tid a m ts t)\<lparr>r_batch_mode := b\<rparr>"
  by (simp add: record_commit_def Let_def store_object_batch store_commit_def parents_of_def load_commit_def cong: if_cong)

lemma write_batch:
  "store_delta_tree E r d (t\<lparr>r_batch_mode := b\<rparr>) = (store_delta_tree E r d t)\<lparr>r_batch_mode := b\<rparr>"
  "store_tree_snapshot E r tr (t\<lparr>r_batch_mode := b\<rparr>) = (store_tree_snapshot E r tr t)\<lparr>r_batch_mode := b\<rparr>"
  "save_head r (t\<lparr>r_batch_mode := b\<rparr>) = (save_head r t)\<lparr>r_batch_mode := b\<rparr>"
  "conn_build_tree (t\<lparr>r_batch_mode := b\<rparr>) = conn_build_tree t"
  by (simp_all add: store_delta_tree_def store_tree_snapshot_def save_head_def conn_build_tree_def)

lemma collect_batch:
  "conn_collect_pending t = (t1, x) \<Longrightarrow> conn_collect_pending (t\<lparr>r_batch_mode := b\<rparr>) = (t1\<lparr>r_batch_mode := b\<rparr>, x)"
  by (auto simp: conn_collect_pending_def split: sum.splits)

lemma commit_sync_batch:
  "commit_sync E a m ts (t\<lparr>r_batch_mode := b\<rparr>) = map_prod (\<lambda>t. t\<lparr>r_batch_mode := b\<rparr>) (\<lambda>x. x) (commit_sync E a m ts t)"
proof -
  obtain t1 x where c: "conn_collect_pending t = (t1, x)" by (cases "conn_collect_pending t")
  note c' = collect_batch [OF c, of b]
  show ?thesis
  proof (cases x)
    case (Inl e)
    then show ?thesis by (simp add: commit_sync_def c c' Let_def)
  next
    case (Inr y)
    obtain chs n where y: "y = (chs, n)" by (cases y)
    let ?nr = "r_current_rev t + 1"
    show ?thesis
    proof (cases "run_pre_commit (hooks E) ?nr a m (hook_date E ts) (hook_files chs)")
      case Inl
      then show ?thesis by (simp add: commit_sync_def c c' Let_def \<open>x = Inr y\<close> y)
    next
      case pre: (Inr u)
      show ?thesis
        by (cases "?nr mod SNAPSHOT_INTERVAL = 0"; cases "run_post_commit (hooks E) ?nr a m (hook_date E ts)")
          (use pre in \<open>simp_all add: commit_sync_def c c' Let_def \<open>x = Inr y\<close> y write_batch store_object_batch record_commit_batch\<close>)
    qed
  qed
qed

lemma run_edits:
  "run_steps f ok c (map Inl es @ rest) t = Some t' \<Longrightarrow> run_steps f ok c rest (fold f es t) = Some t'"
  by (induction es arbitrary: t) (auto split: if_splits)

lemma load_revision_steps:
  assumes "0 < r" "get_commit E s r \<noteq> None" "rev_loadable E s r"
    and "run_steps (apply_edit E) ok (commit_sync_ok E) (rev_steps E s r) t = Some t'"
  shows "\<exists>st'. load_revision E (dumped_revision E s r) (t\<lparr>r_batch_mode := b\<rparr>, st) =
      ((t'\<lparr>r_batch_mode := False\<rparr>, st'), Inr ()) \<and> revisions_loaded st' = Suc (revisions_loaded st)"
proof -
  let ?rv = "dumped_revision E s r" and ?chs = "rev_changes E s r"
  let ?u = "fold (apply_edit E) (map (change_edit E s r) ?chs) t"
  obtain c where c: "get_commit E s r = Some c" using assms(2) by auto
  have nodes: "pv_nodes ?rv = concat (map (dumped_nodes E s r) ?chs)" "revision_number ?rv = r"
    by (simp_all add: dumped_revision_def c)
  have l: "list_all (change_loadable E s r) ?chs" "?chs \<noteq> []" using assms(3) by (simp_all add: rev_loadable_def)
  have ne: "pv_nodes ?rv \<noteq> []"
    using l load_node_edit [of E s r "hd ?chs"] unfolding nodes by (cases ?chs) auto
  from load_nodes_edits [OF l(1), of "begin_batch (t\<lparr>r_batch_mode := b\<rparr>)" st False] obtain st1 where
    st1: "load_nodes E (pv_nodes ?rv) ((begin_batch (t\<lparr>r_batch_mode := b\<rparr>), st), False) = ((?u\<lparr>r_batch_mode := True\<rparr>, st1), True)"
    "same_progress st st1"
    using l(2) by (auto simp: nodes begin_batch_def fold_edit_batch)
  have "commit_sync_ok E (pv_author ?rv, pv_message ?rv, pv_timestamp ?rv) ?u = Some t'"
    using run_edits [OF assms(4) [unfolded rev_steps_def]] by (simp split: option.splits)
  then obtain n where "commit_sync E (pv_author ?rv) (pv_message ?rv) (pv_timestamp ?rv) ?u = (t', Inr n)"
    by (auto simp: commit_sync_ok_def split: prod.splits sum.splits)
  then have "commit_sync E (pv_author ?rv) (pv_message ?rv) (pv_timestamp ?rv) (?u\<lparr>r_batch_mode := True\<rparr>) =
      (t'\<lparr>r_batch_mode := True\<rparr>, Inr n)" by (simp add: commit_sync_batch)
  with st1 ne assms(1) show ?thesis
    by (simp add: load_revision_def nodes(2) end_batch_def same_progress_def)
qed

lemma load_feed:
  assumes "\<forall>r \<in> set rs. 0 < r \<and> get_commit E s r \<noteq> None \<and> rev_loadable E s r"
    and "run_steps (apply_edit E) ok (commit_sync_ok E) (concat (map (rev_steps E s) rs)) t = Some t'"
  shows "\<exists>b' st'. feed (load_revision E) (map (dumped_revision E s) rs) (t\<lparr>r_batch_mode := b\<rparr>, st) =
      ((t'\<lparr>r_batch_mode := b'\<rparr>, st'), Inr ()) \<and> revisions_loaded st' = revisions_loaded st + length rs"
  using assms
proof (induction rs arbitrary: t b st)
  case Nil
  then show ?case by (intro exI [of _ b] exI [of _ st]) simp
next
  case (Cons r rs)
  from Cons.prems(2) obtain t1 where t1: "run_steps (apply_edit E) ok (commit_sync_ok E) (rev_steps E s r) t = Some t1"
    "run_steps (apply_edit E) ok (commit_sync_ok E) (concat (map (rev_steps E s) rs)) t1 = Some t'"
    by (auto simp: run_steps_append Option.bind_eq_Some_conv)
  obtain st1 where st1: "load_revision E (dumped_revision E s r) (t\<lparr>r_batch_mode := b\<rparr>, st) =
      ((t1\<lparr>r_batch_mode := False\<rparr>, st1), Inr ())" "revisions_loaded st1 = Suc (revisions_loaded st)"
    using load_revision_steps [OF _ _ _ t1(1), of b st] Cons.prems(1) by auto
  obtain b' st' where "feed (load_revision E) (map (dumped_revision E s) rs) (t1\<lparr>r_batch_mode := False\<rparr>, st1) =
      ((t'\<lparr>r_batch_mode := b'\<rparr>, st'), Inr ())" "revisions_loaded st' = revisions_loaded st1 + length rs"
    using Cons.IH [OF _ t1(2), of False st1] Cons.prems(1) by (metis list.set_intros(2))
  with st1 show ?case by (intro exI [of _ b'] exI [of _ st']) simp
qed

section \<open>The replay reproduces the contents\<close>

text \<open>What a client sees of an entry: a directory (\<open>Some None\<close>), a file and its content, or nothing readable.\<close>

definition node_view :: "'c repo_env \<Rightarrow> 'c repo \<Rightarrow> tree_entry \<Rightarrow> bytes option option" where
  "node_view E s e =
     (if te_kind e = KBlob
      then map_option Some (Option.bind (map_of (r_objects s) (te_id e)) (\<lambda>bs. map_option fst (de_blob E bs)))
      else Some None)"

definition mirrors_tree :: "'c repo_env \<Rightarrow> 'c repo \<Rightarrow> tree_map \<Rightarrow> 'c repo \<Rightarrow> tree_map \<Rightarrow> bool" where
  "mirrors_tree E s m t m' \<longleftrightarrow>
     (\<forall>q. case map_of m q of
        None \<Rightarrow> map_of m' q = None
      | Some e \<Rightarrow> (\<exists>e' v. map_of m' q = Some e' \<and> node_view E s e = Some v \<and> node_view E t e' = Some v))"

lemma node_view_kept: "objects_kept t t' \<Longrightarrow> node_view E t e = Some v \<Longrightarrow> node_view E t' e = Some v"
  by (auto simp: node_view_def objects_kept_def Option.bind_eq_Some_conv split: if_splits) 

lemma mirrors_kept: "mirrors_tree E s m t m' \<Longrightarrow> objects_kept t t' \<Longrightarrow> mirrors_tree E s m t' m'"
  unfolding mirrors_tree_def by (fastforce split: option.splits dest: node_view_kept)

lemma mirrors_file:
  assumes "mirrors_tree E s (tree_of E s r) t (tree_of E t r)"
  shows "file_of E t r q = file_of E s r q" "ohas (tree_of E t r) q = ohas (tree_of E s r) q"
proof -
  have q: "case map_of (tree_of E s r) q of None \<Rightarrow> map_of (tree_of E t r) q = None
      | Some e \<Rightarrow> (\<exists>e' v. map_of (tree_of E t r) q = Some e' \<and> node_view E s e = Some v \<and> node_view E t e' = Some v)"
    using assms by (simp add: mirrors_tree_def)
  then show "ohas (tree_of E t r) q = ohas (tree_of E s r) q" by (auto simp: ohas_iff split: option.splits)
  show "file_of E t r q = file_of E s r q"
  proof (cases "map_of (tree_of E s r) q")
    case None
    with q show ?thesis by (simp add: file_of_def)
  next
    case (Some e)
    with q obtain e' v where "map_of (tree_of E t r) q = Some e'" "node_view E s e = Some v" "node_view E t e' = Some v" by auto
    with Some show ?thesis
      by (cases "te_kind e = KBlob"; cases "te_kind e' = KBlob") (auto simp: file_of_def node_view_def)
  qed
qed

lemma mirrors_insert:
  assumes "mirrors_tree E s m t m'" "node_view E s e = Some v" "node_view E t e' = Some v"
    and "map_of m2 = (map_of m)(p \<mapsto> e)" "map_of m2' = (map_of m')(p \<mapsto> e')"
  shows "mirrors_tree E s m2 t m2'"
  using assms(1-3) unfolding mirrors_tree_def assms(4,5) by (auto cong: option.case_cong)

lemma mirrors_delete:
  assumes "mirrors_tree E s m t m'" "map_of m2' = (\<lambda>k. if k = p \<or> below p k then None else map_of m' k)"
  shows "mirrors_tree E s (apply_change (Delete p) m) t m2'"
  using assms(1) unfolding mirrors_tree_def assms(2) by (auto simp: omap_simps)

lemma edit_mirrors:
  assumes inv: "repo_inv E t" and ok: "load_ok E (change_edit E s r ch) t" and ld: "change_loadable E s r ch"
    and path: "change_path ch \<noteq> []" "hd (change_path ch) \<noteq> CHR ''/''" and mt: "mirrors_tree E s m t (work t)"
  shows "mirrors_tree E s (apply_change ch m) (apply_edit E (change_edit E s r ch) t)
           (work (apply_edit E (change_edit E s r ch) t))"
proof -
  let ?t = "apply_edit E (change_edit E s r ch) t"
  note mt' = mirrors_kept [OF mt objects_kept_edit [of t E "change_edit E s r ch"]]
  have id: "trim_start_matches CHR ''/'' (change_path ch) = change_path ch"
    using path by (intro trim_start_matches_id) simp
  show ?thesis
  proof (cases ch)
    case (Delete p)
    with ok have "delete_safe t (trim_start_matches CHR ''/'' p)" by (simp add: load_ok_def)
    from delete_file_work [OF inv this] mirrors_delete [OF mt'] Delete id show ?thesis by simp
  next
    case (Upsert p e)
    show ?thesis
    proof (cases "te_kind e = KBlob")
      case False
      then have "node_view E s e = Some None"
        "node_view E ?t (tree_entry_new p (tree_obj_id E tree_new) KTree (file_mode True)) = Some None"
        by (simp_all add: node_view_def tree_entry_new_def)
      from mirrors_insert [OF mt' this] mkdir_work [OF inv, of p] Upsert False id show ?thesis by (simp add: omap_simps)
    next
      case True
      then obtain c where c: "file_of E s r p = Some c" and e: "map_of (tree_of E s r) p = Some e"
        using ld Upsert by (auto split: option.splits)
      have ed: "change_edit E s r ch = AddFile p c False" using Upsert True c by (simp add: unwrap_or_def)
      have slot: "slot_ok E t c" using ok by (simp add: load_ok_def ed)
      have "externals_ok E" using inv by (simp add: repo_inv_def env_ok_def)
      from add_file_object [OF this slot, of p False] have
        "node_view E ?t (tree_entry_new p (from_data E c) KBlob (file_mode False)) = Some (Some c)"
        by (auto simp: ed node_view_def tree_entry_new_def)
      moreover have "node_view E s e = Some (Some c)" using c e True by (simp add: file_of_def node_view_def)
      ultimately show ?thesis
        using mirrors_insert [OF mt', of e "Some c"] add_file_work [OF inv, of p c False] Upsert id
        unfolding ed by (simp add: omap_simps)
    qed
  qed
qed

definition path_ok :: "tree_change \<Rightarrow> bool" where
  "path_ok ch \<longleftrightarrow> change_path ch \<noteq> [] \<and> hd (change_path ch) \<noteq> CHR ''/''"

lemma edits_mirror:
  assumes "repo_inv E t" "list_all (change_loadable E s r) chs" "list_all path_ok chs" "mirrors_tree E s m t (work t)"
    and "run_steps (apply_edit E) (load_ok E) cm (map Inl (map (change_edit E s r) chs) @ rest) t = Some t'"
  defines "u \<equiv> fold (apply_edit E) (map (change_edit E s r) chs) t"
  shows "repo_inv E u \<and> r_current_rev u = r_current_rev t \<and> tree_of E u = tree_of E t \<and> objects_kept t u \<and>
    mirrors_tree E s (apply_changes chs m) u (work u)"
  using assms(1-5) unfolding u_def
proof (induction chs arbitrary: t m)
  case Nil
  then show ?case by (simp add: objects_kept_def apply_changes_def)
next
  case (Cons ch chs)
  let ?e = "change_edit E s r ch"
  have ok: "load_ok E ?e t" and run: "run_steps (apply_edit E) (load_ok E) cm
      (map Inl (map (change_edit E s r) chs) @ rest) (apply_edit E ?e t) = Some t'"
    using Cons.prems(5) by (simp_all split: if_splits)
  have i: "repo_inv E (apply_edit E ?e t)" using edit_repo_inv [OF Cons.prems(1), of ?e] ok by (simp add: load_ok_def)
  have mt: "mirrors_tree E s (apply_change ch m) (apply_edit E ?e t) (work (apply_edit E ?e t))"
    using Cons.prems(2,3) by (intro edit_mirrors [OF Cons.prems(1) ok _ _ _ Cons.prems(4)]) (simp_all add: path_ok_def)
  have "list_all (change_loadable E s r) chs" "list_all path_ok chs" using Cons.prems(2,3) by simp_all
  from Cons.IH [OF i this mt run] show ?case
    using objects_kept_trans [OF objects_kept_edit [of t E ?e]] by (simp add: edit_head_tree apply_changes_def)
qed

lemma rev_mirror:
  assumes inv: "repo_inv E t" and hist: "history_inv E s" and r: "0 < r" "r \<le> r_current_rev s" "r_current_rev t = r - 1"
    and ok: "rev_loadable E s r" "list_all path_ok (rev_changes E s r)"
    and mt: "mirrors_tree E s (tree_of E s (r - 1)) t (work t)"
    and run: "run_steps (apply_edit E) (load_ok E) (commit_sync_ok E) (rev_steps E s r) t = Some t'"
  shows "repo_inv E t' \<and> r_current_rev t' = r \<and> objects_kept t t' \<and> (\<forall>k < r. tree_of E t' k = tree_of E t k) \<and>
    mirrors_tree E s (tree_of E s r) t' (work t') \<and> tree_of E t' r = work t'"
proof -
  let ?u = "fold (apply_edit E) (map (change_edit E s r) (rev_changes E s r)) t"
  let ?rv = "dumped_revision E s r"
  obtain d where d: "delta_at E s r = Some d" using history_invD(1) [OF hist r(1,2)] by blast
  have tree: "tree_of E s r = apply_changes (rev_changes E s r) (tree_of E s (r - 1))"
    using tree_of_step [OF r(1) d] d r(1) by (simp add: rev_changes_def)
  have ld: "list_all (change_loadable E s r) (rev_changes E s r)" using ok(1) by (simp add: rev_loadable_def)
  from edits_mirror [OF inv ld ok(2) mt run [unfolded rev_steps_def]] have
    u: "repo_inv E ?u" "r_current_rev ?u = r - 1" "tree_of E ?u = tree_of E t" "objects_kept t ?u"
      "mirrors_tree E s (tree_of E s r) ?u (work ?u)"
    by (simp_all add: tree r(3))
  have c: "commit_sync_ok E (pv_author ?rv, pv_message ?rv, pv_timestamp ?rv) ?u = Some t'"
    using run_edits [OF run [unfolded rev_steps_def]] by (simp split: option.splits)
  have kept: "objects_kept ?u t'" using commit_sync_okE [OF u(1) c] objects_kept_commit by metis
  note w = sqs.cmt_working [OF u(1) c]
  have "tree_of E t' r = work t'" using sqs.cmt_new [OF u(1) c] u(2) r(1) by (simp add: w)
  moreover have "\<forall>k < r. tree_of E t' k = tree_of E t k" using sqs.cmt_old [OF u(1) c] u(2,3) r(1) by simp
  moreover have "r_current_rev t' = r" using sqs.cmt_head [OF u(1) c] u(2) r(1) by simp
  moreover have "mirrors_tree E s (tree_of E s r) t' (work t')" unfolding w by (rule mirrors_kept [OF u(5) kept])
  ultimately show ?thesis using sqs.cmt_inv [OF u(1) c] objects_kept_trans [OF u(4) kept] by blast
qed

lemma replay_mirrors:
  assumes "repo_inv E t" "r_current_rev t = 0" "work t = []" "history_inv E s" "n \<le> r_current_rev s"
    and "\<forall>r. 0 < r \<and> r \<le> n \<longrightarrow> rev_loadable E s r \<and> list_all path_ok (rev_changes E s r)"
    and "run_steps (apply_edit E) (load_ok E) (commit_sync_ok E) (load_steps E s n) t = Some t'"
  shows "repo_inv E t' \<and> r_current_rev t' = n \<and> mirrors_tree E s (tree_of E s n) t' (work t') \<and>
    (\<forall>r \<le> n. mirrors_tree E s (tree_of E s r) t' (tree_of E t' r))"
  using assms(5-7)
proof (induction n arbitrary: t')
  case 0
  then have "t' = t" by (simp add: load_steps_def)
  with assms(1-3) show ?case by (simp add: mirrors_tree_def)
next
  case (Suc n)
  have split: "load_steps E s (Suc n) = load_steps E s n @ rev_steps E s (Suc n)" by (simp add: load_steps_def)
  from Suc.prems(3) obtain t1 where t1: "run_steps (apply_edit E) (load_ok E) (commit_sync_ok E) (load_steps E s n) t = Some t1"
    "run_steps (apply_edit E) (load_ok E) (commit_sync_ok E) (rev_steps E s (Suc n)) t1 = Some t'"
    unfolding split run_steps_append by (auto simp: Option.bind_eq_Some_conv)
  have IH: "repo_inv E t1" "r_current_rev t1 = n" "mirrors_tree E s (tree_of E s n) t1 (work t1)"
    "\<forall>r \<le> n. mirrors_tree E s (tree_of E s r) t1 (tree_of E t1 r)"
    using Suc.IH [OF _ _ t1(1)] Suc.prems(1,2) by simp_all
  have rv: "rev_loadable E s (Suc n)" "list_all path_ok (rev_changes E s (Suc n))" using Suc.prems(2) by simp_all
  from rev_mirror [OF IH(1) assms(4) _ Suc.prems(1) _ rv _ t1(2)] IH(2,3) have
    s: "repo_inv E t'" "r_current_rev t' = Suc n" "objects_kept t1 t'" "\<forall>k < Suc n. tree_of E t' k = tree_of E t1 k"
      "mirrors_tree E s (tree_of E s (Suc n)) t' (work t')" "tree_of E t' (Suc n) = work t'"
    by simp_all
  have "mirrors_tree E s (tree_of E s r) t' (tree_of E t' r)" if "r \<le> Suc n" for r
  proof (cases "r = Suc n")
    case True
    with s(5,6) show ?thesis by simp
  next
    case False
    then have "r \<le> n" "r < Suc n" using that by simp_all
    with IH(4) s(4) mirrors_kept [OF _ s(3)] show ?thesis by metis
  qed
  with s show ?case by blast
qed

section \<open>Properties\<close>



section \<open>Witnesses\<close>

text \<open>Decimal timestamps in the place of \<open>chrono\<close>'s dates.\<close>

definition sample_dates :: dump_env where
  "sample_dates = \<lparr>dump_date = (\<lambda>ts. Some (show_int ts)), parse_rfc3339 = (\<lambda>d. map_option int (parse_u64 d)), clock_at = (\<lambda>_. 0)\<rparr>"

definition full_dump :: dump_params where
  "full_dump = \<lparr>start_rev = 0, end_rev = 1, incremental = False, format_version = 3\<rparr>"

lemma sample_commits_known:
  "\<exists>c. get_commit sample sample_one 0 = Some c \<and> author c = ''system'' \<and> message c = ''Initial commit'' \<and> timestamp c = 0"
  "\<exists>c. get_commit sample sample_one 1 = Some c \<and> author c = ''ann'' \<and> message c = ''first'' \<and> timestamp c = 0"
proof -
  have ext: "externals_ok sample" using sample_ok by (simp add: env_ok_def)
  obtain chs a m ts where ca: "commits_as sample chs a m ts sample_edited sample_one"
    using commit_okE [OF sample_edited_facts(1) commit_okI [OF sample_one_commit]] .
  have "get_commit sample sample_one 0 = get_commit sample sample_edited 0"
    using commits_as_old_commit [OF ca] by simp
  moreover have "get_commit sample sample_edited 0 = get_commit sample sample_repo 0"
    using same_history_edit [of sample_repo sample] by (simp only: sample_edited_def get_commit_def load_commit_def same_history_def)
  moreover have "\<exists>tid. map_of (r_commits sample_repo) 0 = Some (ser_commit sample (commit_new tid [] ''system'' ''Initial commit'' 0 0))"
    by (auto simp: sample_repo_def initialize_def repo_open_def migrate_root_tree_def migrate_sled_def blank_def Let_def omap_simps)
  ultimately show "\<exists>c. get_commit sample sample_one 0 = Some c \<and> author c = ''system'' \<and> message c = ''Initial commit'' \<and> timestamp c = 0"
    using externals_okD(5) [OF ext] by (auto simp: get_commit_def load_commit_def commit_new_def)
  from repo_inv_tables [OF sample_edited_facts(1)]
  show "\<exists>c. get_commit sample sample_one 1 = Some c \<and> author c = ''ann'' \<and> message c = ''first'' \<and> timestamp c = 0"
  proof (cases rule: commit_result [where E = sample and a = "''ann''" and m = "''first''" and ts = 0])
    case (rejected h chs)
    then show ?thesis using sample_one_commit by simp
  next
    case (committed chs s')
    then have "commits_as sample chs ''ann'' ''first'' 0 sample_edited sample_one" using sample_one_commit by simp
    from commits_as_commit [OF ext this] sample_edited_facts(2) show ?thesis by (metis One_nat_def)
  qed
qed

lemma sample_zero: "show_int 0 = ''0''" "parse_u64 ''0'' = Some 0"
  using parse_show_nat [of 0] show_int_0 by (simp_all add: show_int_def)

lemma sample_dump_ok: "list_all (dump_rev_ok sample sample_dates sample_one) [0..<Suc 1]"
proof -
  have t: "rev_text_ok ''system'' ''Initial commit'' ''0''" "rev_text_ok ''ann'' ''first'' ''0''"
    by (simp_all add: rev_text_ok_def single_line_def utf8_valid_Cons code_def build_rev_props_def build_prop_def show_nat.simps)
  have "dump_change_ok sample sample_one 1 sample_change"
    using sample_file by (simp add: dump_change_ok_def sample_change_def value_ok_def utf8_valid_Cons code_def is_space_def)
  moreover have "rev_changes sample sample_one 0 = []" by (simp add: rev_changes_def)
  ultimately show ?thesis
    using sample_commits_known t sample_rev_changes by (auto simp: dump_rev_ok_def sample_dates_def sample_zero)
qed

lemma sample_loadable: "list_all (rev_loadable sample sample_one) [1..<Suc 1]"
  using sample_rev_changes sample_file sample_one_facts(5) sample_one_work
  by (simp add: rev_loadable_def sample_change_def change_action_def tree_entry_new_def)

lemma sample_replay: "\<exists>u. run_steps (apply_edit sample) (load_ok sample) (commit_sync_ok sample) (load_steps sample sample_one 1) sample_repo = Some u"
proof -
  let ?e = "AddFile ''src/a'' [104, 105] False"
  have steps: "\<exists>c. load_steps sample sample_one 1 = [Inl ?e, Inr c]"
    using sample_rev_changes sample_file
    by (simp add: load_steps_def rev_steps_def sample_change_def tree_entry_new_def unwrap_or_def)
  have ok: "load_ok sample ?e sample_repo"
    using sample_edit_safe [of "''src/a''"] sample_slot [of "[104, 105]"] by (simp add: load_ok_def slot_ok_def)
  have inv: "repo_inv sample (apply_edit sample ?e sample_repo)"
    by (rule edit_repo_inv [OF sample_repo_facts(2) sample_edit_safe])
  have "\<exists>u. commit_sync_ok sample (a, m, ts) (apply_edit sample ?e sample_repo) = Some u" for a m ts
    using repo_inv_tables [OF inv]
    by (cases rule: commit_sync_result [where E = sample and a = a and m = m and ts = ts])
      (auto simp: run_pre_commit_def commit_sync_ok_def)
  with steps ok show ?thesis by (auto split: option.splits)
qed

lemma sample_uuid: "value_ok (r_uuid sample_one)"
  by (simp add: sample_uuids value_ok_def utf8_valid_Cons code_def is_space_def)



end
