(* ===== verification/Sqlite_Growth.thy ===== *)
theory Sqlite_Growth
  imports Sqlite_Behaviour
begin

text \<open>
  A repository only grows. \<open>grows s t\<close> says that \<open>t\<close> has at least the revisions of \<open>s\<close>, with the
  same delta and commit files, and at least its objects, byte for byte. Every operation of the
  SQLite repository grows it, whatever its arguments and the state of the working tree: this needs
  no invariant, so it also covers input that comes from a foreign server.
\<close>

definition grows :: "'c repo \<Rightarrow> 'c repo \<Rightarrow> bool" where
  "grows s t \<longleftrightarrow> r_current_rev s \<le> r_current_rev t \<and> objects_kept s t \<and>
     (\<forall>r \<le> r_current_rev s. map_of (r_deltas t) r = map_of (r_deltas s) r \<and> map_of (r_commits t) r = map_of (r_commits s) r)"

lemma grows_refl [simp]: "grows s s"
  by (simp add: grows_def objects_kept_def)

lemma grows_trans: "grows s t \<Longrightarrow> grows t u \<Longrightarrow> grows s u"
  using objects_kept_trans [of s t u] order_trans [of "r_current_rev s" "r_current_rev t" "r_current_rev u"]
  by (simp add: grows_def)

lemma grows_frame:
  "r_current_rev t = r_current_rev s \<Longrightarrow> r_deltas t = r_deltas s \<Longrightarrow> r_commits t = r_commits s \<Longrightarrow> objects_kept s t \<Longrightarrow> grows s t"
  by (simp add: grows_def)

lemma grows_fold: "(\<And>x s. x \<in> set xs \<Longrightarrow> grows s (f x s)) \<Longrightarrow> grows s (fold f xs s)"
  by (induction xs arbitrary: s) (auto intro: grows_trans)

lemma objects_kept_store: "objects_kept s (store_object i d s)"
  by (simp add: objects_kept_def store_object_def ohas_def omap_simps)

lemma grows_ops [simp]:
  "grows s (store_object i d s)" "grows s (conn_tree_insert p i k m s)" "grows s (conn_tree_remove p s)"
  "grows s (begin_batch s)" "grows s (end_batch s)" "grows s (save_head r s)" "grows s (store_tree_snapshot E r t s)"
  "grows s (s\<lparr>r_pending := x\<rparr>)" "grows s (s\<lparr>r_tree_entries := y\<rparr>)"
  using objects_kept_store [of s i d]
  by (simp_all add: grows_def objects_kept_def conn_tree_insert_def conn_tree_remove_def begin_batch_def end_batch_def save_head_def
      store_tree_snapshot_def store_object_def)

lemma grows_edit [simp]: "grows s (apply_edit E e s)"
  using same_history_edit [of s E e] objects_kept_edit [of s E e] by (simp add: same_history_def grows_frame)

lemma grows_sync_edits [simp]:
  "grows s (fst (add_file_sync E p c x s))" "grows s (fst (mkdir_sync E p s))" "grows s (delete_file_sync p s)"
  using grows_edit [of s E "AddFile p c x"] grows_edit [of s E "MkDir p"] grows_edit [of s E "DeleteFile p"]
  by (simp_all add: sync_edits)

lemma grows_populate: "grows s (fst (conn_populate t s))"
  by (simp add: conn_populate_def split: prod.split)

lemma grows_only_cache: "only_cache s t \<Longrightarrow> grows s t"
  by (intro grows_frame) (auto simp: only_cacheD objects_kept_def)

lemma grows_next:
  assumes "cr = r_current_rev s"
  shows "grows s ((save_head (cr + 1) (store_delta_tree E (cr + 1) d (record_commit E cr i a m ts s)))\<lparr>r_current_rev := cr + 1\<rparr>)"
  using assms
  by (simp add: grows_def objects_kept_def save_head_def store_delta_tree_def record_commit_def store_commit_def Let_def
      store_object_def ohas_def omap_simps)

lemma grows_collect: "grows s (fst (conn_collect_pending s))" "r_current_rev (fst (conn_collect_pending s)) = r_current_rev s"
  by (simp_all add: conn_collect_pending_def split: sum.split)

lemma grows_commit_sync: "grows s (fst (commit_sync E a m ts s))"
proof -
  obtain s1 res where c: "conn_collect_pending s = (s1, res)" by (cases "conn_collect_pending s")
  have s1: "grows s s1" "r_current_rev s1 = r_current_rev s" using grows_collect [of s] c by simp_all
  show ?thesis
  proof (cases res)
    case (Inl e)
    with c s1 show ?thesis by (simp add: commit_sync_def)
  next
    case (Inr x)
    obtain chs n where x: "x = (chs, n)" by (cases x)
    let ?nr = "r_current_rev s + 1" let ?snap = "?nr mod SNAPSHOT_INTERVAL = 0" and ?root = "conn_build_tree s1"
    let ?d = "delta_tree_new (if ?nr > 1 then ?nr - 1 else 0) chs n"
    let ?tid = "if ?snap then tree_obj_id E ?root else delta_id E ?d"
    let ?s2 = "if ?snap then store_tree_snapshot E ?nr ?root (store_object ?tid (tree_to_bytes E ?root) s1) else s1"
    let ?s5 = "(save_head ?nr (store_delta_tree E ?nr ?d (record_commit E (r_current_rev s) ?tid a m ts ?s2)))\<lparr>r_current_rev := ?nr\<rparr>"
    have "r_current_rev ?s2 = r_current_rev s" using s1(2) by (simp add: store_tree_snapshot_def store_object_def)
    then have "grows ?s2 ?s5" by (intro grows_next) simp
    moreover have "grows s1 ?s2" by (auto intro: grows_trans grows_ops)
    ultimately have g: "grows s ?s5" using s1(1) by (blast intro: grows_trans)
    have "fst (commit_sync E a m ts s) = s1 \<or> fst (commit_sync E a m ts s) = ?s5"
      by (simp add: commit_sync_def c Inr x Let_def split: sum.split)
    with g s1(1) show ?thesis by fastforce
  qed
qed

text \<open>A revision that was there stays readable with the same tree and the same file contents.\<close>

lemma grows_tree: "grows s t \<Longrightarrow> r \<le> r_current_rev s \<Longrightarrow> tree_of E t r = tree_of E s r"
  unfolding tree_of_def by (rule hist_cong) (simp add: grows_def)

lemma grows_file:
  assumes "grows s t" and "r \<le> r_current_rev s" and "file_of E s r q = Some c"
  shows "file_of E t r q = Some c"
  using assms grows_tree [OF assms(1,2), of E]
  by (auto simp: file_of_def grows_def objects_kept_def Option.bind_eq_Some_conv split: option.splits if_splits)

section \<open>Opening\<close>

lemma reopen_grows:
  assumes "life_inv E s"
  shows "\<exists>s' res. initialize E now (repo_open E u s) = Some (s', res) \<and> grows s s'"
proof -
  have h: "env_ok E" "lru_ok E" "history_inv E s" "head_saved s"
    using assms by (simp_all add: life_inv_def repo_inv_def env_ok_def)
  let ?o = "repo_open E u s" and ?r = "r_current_rev s"
  note o = repo_open_saved [OF h(4), of E u]
  have go: "grows s ?o" by (rule grows_frame) (simp_all add: o objects_kept_def)
  have p: "parse_head (show_nat ?r) = ?r" using h(4) parse_head_show by (simp add: head_saved_def)
  have same: "?o\<lparr>r_current_rev := ?r\<rparr> = ?o" using o(1) by simp
  obtain s2 where g: "get_tree_at_rev E ?r ?o = Some (s2, Inr (tree_of E ?o ?r))" "only_cache ?o s2"
    using get_tree_at_rev_ok [OF h(2) repo_open_history(1) [OF h(2,4,3), of u], of ?r] o(1) by auto
  have g2: "grows s s2" using go grows_only_cache [OF g(2)] by (rule grows_trans)
  show ?thesis
  proof (cases "conn_count ?o = 0")
    case True
    obtain s3 res where s3: "conn_populate (map_to_tree (tree_of E ?o ?r)) s2 = (s3, res)"
      by (cases "conn_populate (map_to_tree (tree_of E ?o ?r)) s2")
    then have "grows s s3" using grows_trans [OF g2 grows_populate [of s2 "map_to_tree (tree_of E ?o ?r)"]] by simp
    with True g(1) s3 p same o(9) show ?thesis by (simp add: initialize_def Let_def)
  next
    case False
    with go p same o(9) show ?thesis by (simp add: initialize_def Let_def)
  qed
qed

end
