(* ===== verification/Sync_Endpoints.thy ===== *)
theory Sync_Endpoints
  imports Webdav_Server Replication Sync_State
begin

text \<open>
  The synchronisation endpoints of the server, \<open>dsvn-webdav/src/sync_handlers.rs\<close>: the query
  parser, the revision list, the batch of raw objects, the revisions with their objects, and the
  configuration. A repository directory is a \<open>site\<close>: the repository, the synchronisation files,
  the revision properties, one JSON file per revision, and the file \<open>hooks/pre-revprop-change\<close>. The JSON codec (crate \<open>serde_json\<close>), the
  order in which a hash map is walked and the text of an error are parameters.
\<close>

section \<open>State\<close>

record 'c site =
  st_repo :: "'c repo"
  st_dir :: sync_dir
  st_revprops :: "(nat, string) omap"
  st_revprop_hook :: "string option"

record endpoint_info =
  ei_uuid :: string
  ei_head_rev :: nat
  ei_protocol_version :: nat
  ei_capabilities :: "string list"

record revision_summary =
  rs_rev :: nat
  rs_author :: string
  rs_message :: string
  rs_timestamp :: int
  rs_change_count :: nat

record net_env =
  sync_files :: sync_json
  json_props :: "(string, string) omap \<Rightarrow> string"
  parse_props :: "string \<Rightarrow> (string, string) omap option"
  props_order :: "(string, string) omap \<Rightarrow> (string \<times> string) list"
  json_info :: "endpoint_info \<Rightarrow> bytes"
  parse_info :: "bytes \<Rightarrow> endpoint_info option"
  json_revs :: "revision_summary list \<Rightarrow> bytes"
  parse_revs :: "bytes \<Rightarrow> revision_summary list option"
  json_data :: "revision_data list \<Rightarrow> bytes"
  parse_data :: "bytes \<Rightarrow> revision_data list option"
  json_config :: "sync_config \<Rightarrow> bytes"
  parse_config :: "bytes \<Rightarrow> sync_config option"
  json_failure :: "string \<Rightarrow> bytes"
  json_saved :: "bool \<Rightarrow> string \<Rightarrow> bytes"
  error_text :: "repo_error \<Rightarrow> string"
  json_problem :: "bytes \<Rightarrow> string"

text \<open>Decoding undoes encoding, and walking a hash map visits each entry once.\<close>

definition net_ok :: "net_env \<Rightarrow> bool" where
  "net_ok N \<longleftrightarrow> sync_json_ok (sync_files N) \<and>
     (\<forall>m. omap_ok m \<longrightarrow> parse_props N (json_props N m) = Some m) \<and>
     (\<forall>txt m. parse_props N txt = Some m \<longrightarrow> omap_ok m) \<and>
     (\<forall>m. omap_ok m \<longrightarrow> set (props_order N m) = set m \<and> distinct (map fst (props_order N m))) \<and>
     (\<forall>x. parse_info N (json_info N x) = Some x) \<and> (\<forall>x. parse_revs N (json_revs N x) = Some x) \<and>
     (\<forall>x. parse_data N (json_data N x) = Some x) \<and> (\<forall>x. parse_config N (json_config N x) = Some x)"

definition SYNC_PROTOCOL_VERSION :: nat where
  "SYNC_PROTOCOL_VERSION = 1"

definition MAX_OBJECTS_PER_REQUEST :: nat where
  "MAX_OBJECTS_PER_REQUEST = 1000"

definition MAX_DELTA_RANGE :: nat where
  "MAX_DELTA_RANGE = 500"

section \<open>Queries\<close>

definition hex_val :: "byte \<Rightarrow> byte" where
  "hex_val b =
     (if 0x30 \<le> b \<and> b \<le> 0x39 then b - 0x30
      else if 0x61 \<le> b \<and> b \<le> 0x66 then b - 0x61 + 10
      else if 0x41 \<le> b \<and> b \<le> 0x46 then b - 0x41 + 10
      else 0)"

text \<open>\<open>String::push(b as char)\<close>: a byte above 127 becomes a character of two UTF-8 bytes.\<close>

definition push_char :: "byte \<Rightarrow> string" where
  "push_char b = (if b < 0x80 then [byte_char b] else [byte_char (0xC0 + drop_bit 6 b), byte_char (0x80 + take_bit 6 b)])"

definition pct_byte :: "byte \<Rightarrow> byte \<Rightarrow> byte" where
  "pct_byte hi lo = or (push_bit 4 (hex_val hi)) (hex_val lo)"

fun urldecode_bytes :: "bytes \<Rightarrow> string" where
  "urldecode_bytes [] = []"
| "urldecode_bytes (b # bs) =
     (if b = char_byte CHR ''%'' then
        (case bs of
           [] \<Rightarrow> push_char (pct_byte 0x30 0x30)
         | [hi] \<Rightarrow> push_char (pct_byte hi 0x30)
         | hi # lo # rest \<Rightarrow> push_char (pct_byte hi lo) @ urldecode_bytes rest)
      else if b = char_byte CHR ''+'' then CHR '' '' # urldecode_bytes bs
      else push_char b @ urldecode_bytes bs)"

definition urldecode :: "string \<Rightarrow> string" where
  "urldecode s = urldecode_bytes (map char_byte s)"

definition parse_query :: "string \<Rightarrow> string \<rightharpoonup> string" where
  "parse_query query =
     fold (\<lambda>pair m.
         if pair = [] then m
         else (case split_once CHR ''='' pair of None \<Rightarrow> m | Some (k, v) \<Rightarrow> m(urldecode k \<mapsto> urldecode v)))
       (split CHR ''&'' query) Map.empty"

definition parse_query_multi :: "string \<Rightarrow> string \<Rightarrow> string list" where
  "parse_query_multi query key =
     List.map_filter (\<lambda>pair.
         if pair = [] then None
         else (case split_once CHR ''='' pair of
                 None \<Rightarrow> None
               | Some (k, v) \<Rightarrow> if urldecode k = key then Some (urldecode v) else None))
       (split CHR ''&'' query)"

section \<open>Responses\<close>

definition json_reply :: "nat \<Rightarrow> bytes \<Rightarrow> response" where
  "json_reply code body =
     \<lparr>status = code, resp_headers = [(''Content-Type'', ''application/json'')], resp_body = Content body\<rparr>"

definition json_ok :: "bytes \<Rightarrow> response" where
  "json_ok body = json_reply 200 body"

definition json_error :: "net_env \<Rightarrow> nat \<Rightarrow> string \<Rightarrow> response" where
  "json_error N code msg = json_reply code (json_failure N msg)"

section \<open>Handlers\<close>

definition handle_info :: "net_env \<Rightarrow> 'c site \<Rightarrow> response" where
  "handle_info N S = json_ok (json_info N
     \<lparr>ei_uuid = r_uuid (st_repo S), ei_head_rev = r_current_rev (st_repo S),
      ei_protocol_version = SYNC_PROTOCOL_VERSION,
      ei_capabilities = [''incremental-sync'', ''delta-transfer'', ''batch-objects'', ''on-demand-fetch'']\<rparr>)"

text \<open>The head as \<open>refs/head\<close> has it, 0 when the file is missing or is not a number.\<close>

definition read_head_rev :: "'c repo \<Rightarrow> nat" where
  "read_head_rev s = (case r_head_file s of None \<Rightarrow> 0 | Some txt \<Rightarrow> parse_head txt)"

definition query_rev :: "string \<Rightarrow> nat \<Rightarrow> (string \<rightharpoonup> string) \<Rightarrow> nat" where
  "query_rev key d params = unwrap_or d (Option.bind (params key) parse_u64)"

definition rev_summary :: "'c repo_env \<Rightarrow> 'c repo \<Rightarrow> nat \<Rightarrow> revision_summary option" where
  "rev_summary E s r =
     (case load_commit E s r of
        Inl _ \<Rightarrow> None
      | Inr c \<Rightarrow> Some \<lparr>rs_rev = r, rs_author = author c, rs_message = message c, rs_timestamp = timestamp c,
          rs_change_count = (case load_delta_tree E s r of Inl _ \<Rightarrow> 0 | Inr d \<Rightarrow> length (changes d))\<rparr>)"

definition handle_revs :: "'c repo_env \<Rightarrow> net_env \<Rightarrow> string \<Rightarrow> 'c site \<Rightarrow> response" where
  "handle_revs E N query S =
     (let params = parse_query query;
          f = query_rev ''from'' 1 params;
          t = query_rev ''to'' (read_head_rev (st_repo S)) params
      in if f > t then json_error N 400 ''from must be <= to''
         else json_ok (json_revs N (List.map_filter (rev_summary E (st_repo S)) [f..<Suc t])))"

text \<open>A batch of objects: identifier, 32-bit big-endian length and bytes, or the length 0xFFFFFFFF alone.\<close>

definition be_bytes :: "nat \<Rightarrow> nat \<Rightarrow> bytes" where
  "be_bytes n x = rev (le_bytes n x)"

definition be_nat :: "bytes \<Rightarrow> nat" where
  "be_nat bs = le_nat (rev bs)"

definition object_record :: "'c repo \<Rightarrow> object_id \<Rightarrow> bytes" where
  "object_record s i =
     as_bytes i @
     (case load_object s i of
        Inr data \<Rightarrow> be_bytes 4 (as_u32 (length data)) @ data
      | Inl _ \<Rightarrow> be_bytes 4 0xFFFFFFFF)"

fun parse_ids :: "'c repo_env \<Rightarrow> string list \<Rightarrow> string + object_id list" where
  "parse_ids E [] = Inr []"
| "parse_ids E (h # hs) =
     (case from_hex E h of
        Inl _ \<Rightarrow> Inl h
      | Inr i \<Rightarrow> rbind (parse_ids E hs) (\<lambda>is. Inr (i # is)))"

definition handle_objects :: "'c repo_env \<Rightarrow> net_env \<Rightarrow> string \<Rightarrow> 'c site \<Rightarrow> response" where
  "handle_objects E N query S =
     (let ids = parse_query_multi query ''id'' in
      if ids = [] then json_error N 400 ''No object ids specified (use ?id=HEX&id=HEX)''
      else if length ids > MAX_OBJECTS_PER_REQUEST then
        json_error N 400 (''Too many objects requested ('' @ show_nat (length ids) @ '', max '' @
          show_nat MAX_OBJECTS_PER_REQUEST @ '')'')
      else
        (case parse_ids E ids of
           Inl h \<Rightarrow> json_error N 400 (''Invalid object id: '' @ h)
         | Inr parsed \<Rightarrow>
             \<lparr>status = 200,
              resp_headers = [(''Content-Type'', ''application/octet-stream''), (''X-Object-Count'', show_nat (length parsed))],
              resp_body = Content (concat (map (object_record (st_repo S)) parsed))\<rparr>))"

text \<open>The blobs of the files a revision writes, in the order of its changes; unreadable ones are left out.\<close>

definition blob_at :: "'c repo_env \<Rightarrow> 'c repo \<Rightarrow> object_id \<Rightarrow> bytes option" where
  "blob_at E s i =
     (case load_object s i of Inl _ \<Rightarrow> None | Inr raw \<Rightarrow> map_option blob_data (blob_deserialize E raw))"

definition change_blob :: "'c repo_env \<Rightarrow> 'c repo \<Rightarrow> tree_change \<Rightarrow> (object_id \<times> bytes) option" where
  "change_blob E s ch =
     (case ch of
        Upsert _ e \<Rightarrow> if te_kind e = KBlob then map_option (Pair (te_id e)) (blob_at E s (te_id e)) else None
      | Delete _ \<Rightarrow> None)"

definition revision_of :: "'c repo_env \<Rightarrow> 'c repo \<Rightarrow> nat \<Rightarrow> commit \<Rightarrow> delta_tree \<Rightarrow> (string \<times> string) list \<Rightarrow> revision_data" where
  "revision_of E s r c d props =
     (let objs = List.map_filter (change_blob E s) (changes d) in
      \<lparr>rd_revision = r, rd_author = author c, rd_message = message c, rd_timestamp = timestamp c,
       rd_delta_tree = d, rd_objects = objs, rd_properties = props,
       rd_content_hash = compute_content_hash E objs, rd_empty_commit = (changes d = [])\<rparr>)"

definition no_delta :: "nat \<Rightarrow> delta_tree" where
  "no_delta r = delta_tree_new (if r > 0 then r - 1 else 0) [] 0"

text \<open>The server's view of a revision: a missing or damaged delta or property file counts as empty.\<close>

definition build_revision_data :: "'c repo_env \<Rightarrow> net_env \<Rightarrow> 'c site \<Rightarrow> nat \<Rightarrow> repo_error + revision_data" where
  "build_revision_data E N S r =
     rbind (load_commit E (st_repo S) r) (\<lambda>c.
       let d = (case load_delta_tree E (st_repo S) r of Inl _ \<Rightarrow> no_delta r | Inr d \<Rightarrow> d);
           props = (case map_of (st_revprops S) r of
                      None \<Rightarrow> []
                    | Some txt \<Rightarrow> unwrap_or [] (map_option (props_order N) (parse_props N txt)))
       in Inr (revision_of E (st_repo S) r c d props))"

fun build_revisions :: "'c repo_env \<Rightarrow> net_env \<Rightarrow> 'c site \<Rightarrow> nat list \<Rightarrow> (nat \<times> repo_error) + revision_data list" where
  "build_revisions E N S [] = Inr []"
| "build_revisions E N S (r # rs) =
     (case build_revision_data E N S r of
        Inl e \<Rightarrow> Inl (r, e)
      | Inr rd \<Rightarrow> rbind (build_revisions E N S rs) (\<lambda>rds. Inr (rd # rds)))"

text \<open>\<open>to - from + 1\<close> on 64 bits.\<close>

definition range_len :: "nat \<Rightarrow> nat \<Rightarrow> nat" where
  "range_len f t = (t - f + 1) mod 2 ^ 64"

definition handle_delta :: "'c repo_env \<Rightarrow> net_env \<Rightarrow> string \<Rightarrow> 'c site \<Rightarrow> response" where
  "handle_delta E N query S =
     (let params = parse_query query;
          f = query_rev ''from'' 1 params;
          t = query_rev ''to'' f params
      in if f > t then json_error N 400 ''from must be <= to''
         else if range_len f t > MAX_DELTA_RANGE then
           json_error N 400 (''Range too large ('' @ show_nat (range_len f t) @ '' revisions, max '' @
             show_nat MAX_DELTA_RANGE @ '')'')
         else
           (case build_revisions E N S [f..<Suc t] of
              Inl (r, e) \<Rightarrow>
                json_error N 404 (''Failed to build revision data for r'' @ show_nat r @ '': '' @ error_text N e)
            | Inr rds \<Rightarrow> json_ok (json_data N rds)))"

definition handle_get_config :: "net_env \<Rightarrow> 'c site \<Rightarrow> response" where
  "handle_get_config N S =
     (case config_load (sync_files N) (st_dir S) of
        Inr c \<Rightarrow> json_ok (json_config N c)
      | Inl _ \<Rightarrow> json_error N 500 ''Failed to load sync config: Failed to parse sync config JSON'')"

definition handle_set_config :: "net_env \<Rightarrow> bytes \<Rightarrow> 'c site \<Rightarrow> 'c site \<times> response" where
  "handle_set_config N body S =
     (case parse_config N body of
        None \<Rightarrow> (S, json_error N 400 (''Invalid JSON body: '' @ json_problem N body))
      | Some c \<Rightarrow>
          (S\<lparr>st_dir := config_save (sync_files N) c (st_dir S)\<rparr>,
           json_ok (json_saved N True ''Sync configuration updated'')))"

definition handle_sync_request :: "'c repo_env \<Rightarrow> net_env \<Rightarrow> string \<Rightarrow> string \<Rightarrow> bytes \<Rightarrow> string \<Rightarrow> 'c site \<Rightarrow> 'c site \<times> response" where
  "handle_sync_request E N path meth body query S =
     (let off = (case config_load (sync_files N) (st_dir S) of Inr c \<Rightarrow> \<not> sc_enabled c | Inl _ \<Rightarrow> False) in
      if off then (S, json_error N 403 ''Sync endpoints are disabled'')
      else if meth = ''GET'' \<and> path = ''/info'' then (S, handle_info N S)
      else if meth = ''GET'' \<and> path = ''/revs'' then (S, handle_revs E N query S)
      else if meth = ''GET'' \<and> path = ''/objects'' then (S, handle_objects E N query S)
      else if meth = ''GET'' \<and> path = ''/delta'' then (S, handle_delta E N query S)
      else if meth = ''GET'' \<and> path = ''/config'' then (S, handle_get_config N S)
      else if meth = ''POST'' \<and> path = ''/config'' then handle_set_config N body S
      else (S, json_error N 404 (''Unknown sync endpoint: '' @ meth @ '' /sync'' @ path)))"

section \<open>Queries of the client\<close>

text \<open>Text of printable characters other than percent, plus, ampersand and equals decodes to itself.\<close>

definition query_plain :: "char \<Rightarrow> bool" where
  "query_plain c \<longleftrightarrow> (of_char c :: nat) < 128 \<and> c \<notin> {CHR ''%'', CHR ''+'', CHR ''&'', CHR ''=''}"

lemma urldecode_plain: "list_all query_plain s \<Longrightarrow> urldecode s = s"
proof (induction s)
  case (Cons c s)
  have "char_byte c < 0x80 \<longleftrightarrow> (of_char c :: nat) < 128"
    by (simp add: word_less_nat_alt)
  with Cons show ?case by (auto simp: urldecode_def query_plain_def push_char_def)
qed (simp add: urldecode_def)

lemma show_nat_plain: "list_all query_plain (show_nat n)"
proof -
  have "query_plain c" if "digit_val c \<noteq> None" for c
    using that by (auto simp: digit_val_def query_plain_def split: if_splits)
  then show ?thesis using show_nat_digits by (auto simp: list_all_iff)
qed

lemma plain_no_sep: "list_all query_plain s \<Longrightarrow> CHR ''&'' \<notin> set s \<and> CHR ''='' \<notin> set s"
  by (auto simp: list_all_iff query_plain_def)

definition range_query :: "nat \<Rightarrow> nat \<Rightarrow> string" where
  "range_query f t = ''from='' @ show_nat f @ ''&to='' @ show_nat t"

lemma range_query_parse:
  "parse_query (range_query f t) ''from'' = Some (show_nat f)" "parse_query (range_query f t) ''to'' = Some (show_nat t)"
proof -
  note no = plain_no_sep [OF show_nat_plain]
  have q: "range_query f t = (''from='' @ show_nat f) @ CHR ''&'' # (''to='' @ show_nat t)" by (simp add: range_query_def)
  have "split CHR ''&'' (range_query f t) = [''from='' @ show_nat f, ''to='' @ show_nat t]"
    unfolding q using no [of f] no [of t] by (subst split_append) (simp_all add: split_id)
  moreover have "split_once CHR ''='' (''from='' @ show_nat f) = Some (''from'', show_nat f)"
    "split_once CHR ''='' (''to='' @ show_nat t) = Some (''to'', show_nat t)"
    using split_once_append [of "CHR ''=''" "''from''"] split_once_append [of "CHR ''=''" "''to''"] by simp_all
  moreover have "urldecode ''from'' = ''from''" "urldecode ''to'' = ''to''"
    by (rule urldecode_plain, simp add: query_plain_def)+
  ultimately show "parse_query (range_query f t) ''from'' = Some (show_nat f)" "parse_query (range_query f t) ''to'' = Some (show_nat t)"
    by (simp_all add: parse_query_def urldecode_plain [OF show_nat_plain])
qed

lemma range_query_revs:
  assumes "f < 2 ^ 64" and "t < 2 ^ 64"
  shows "query_rev ''from'' d (parse_query (range_query f t)) = f" "query_rev ''to'' e (parse_query (range_query f t)) = t"
  using parse_show_nat [OF assms(1)] parse_show_nat [OF assms(2)] by (simp_all add: query_rev_def range_query_parse)

section \<open>Batches of objects\<close>

lemma length_be_bytes [simp]: "length (be_bytes n x) = n"
  by (simp add: be_bytes_def)

lemma be_nat_be_bytes: "x < 256 ^ n \<Longrightarrow> be_nat (be_bytes n x) = x"
  by (simp add: be_nat_def be_bytes_def le_nat_le_bytes_id)

end
