(* ===== verification/Sync_Client.thy ===== *)
theory Sync_Client
  imports Sync_Endpoints
begin

text \<open>
  The synchronisation tool, \<open>dsvnsync-cli/src\<close>: extracting and replaying revisions and the local
  synchronisation (\<open>protocol.rs\<close>), the bulk transfer and the comparison of two repositories
  (\<open>transfer.rs\<close>), and the HTTP client with its pull and repair (\<open>remote.rs\<close>). The connection is a
  parameter: the response to a path and a query, \<open>None\<close> when there is none. The clock is a
  parameter too. An error leaves the destination as it was when the error occurred.
\<close>

datatype sync_fail =
    SyncFile sync_error
  | AlreadySynced string
  | NotInitialised
  | NoCommit nat
  | BadRecord
  | BadProps
  | HashMismatch nat
  | RepoFail repo_error
  | ConnectFailed
  | HttpStatus nat
  | BadBody
  | TruncatedObject

type_synonym http = "string \<Rightarrow> string \<Rightarrow> response option"

section \<open>The HTTP client\<close>

fun payload_bytes :: "payload \<Rightarrow> bytes" where
  "payload_bytes (Content b) = b"
| "payload_bytes (Text s) = map char_byte s"

definition fetch :: "http \<Rightarrow> string \<Rightarrow> string \<Rightarrow> sync_fail + bytes" where
  "fetch http path query =
     (case http path query of
        None \<Rightarrow> Inl ConnectFailed
      | Some r \<Rightarrow> if 200 \<le> status r \<and> status r < 300 then Inr (payload_bytes (resp_body r)) else Inl (HttpStatus (status r)))"

definition get_info :: "net_env \<Rightarrow> http \<Rightarrow> sync_fail + endpoint_info" where
  "get_info N http = rbind (fetch http ''/info'' []) (\<lambda>b. ok_or BadBody (parse_info N b))"

definition get_revisions :: "net_env \<Rightarrow> http \<Rightarrow> nat \<Rightarrow> nat \<Rightarrow> sync_fail + revision_summary list" where
  "get_revisions N http f t = rbind (fetch http ''/revs'' (range_query f t)) (\<lambda>b. ok_or BadBody (parse_revs N b))"

definition get_delta :: "net_env \<Rightarrow> http \<Rightarrow> nat \<Rightarrow> nat \<Rightarrow> sync_fail + revision_data list" where
  "get_delta N http f t = rbind (fetch http ''/delta'' (range_query f t)) (\<lambda>b. ok_or BadBody (parse_data N b))"

definition get_config :: "net_env \<Rightarrow> http \<Rightarrow> sync_fail + sync_config" where
  "get_config N http = rbind (fetch http ''/config'' []) (\<lambda>b. ok_or BadBody (parse_config N b))"

fun ids_query :: "'c repo_env \<Rightarrow> object_id list \<Rightarrow> string" where
  "ids_query E [] = []"
| "ids_query E [i] = ''id='' @ to_hex E i"
| "ids_query E (i # is) = ''id='' @ to_hex E i @ ''&'' @ ids_query E is"

function parse_objects :: "bytes \<Rightarrow> sync_fail + (object_id \<times> bytes option) list" where
  "parse_objects d =
     (if length d < 36 then Inr []
      else
        let oid = ObjectId (take 32 d);
            len = be_nat (take 4 (drop 32 d));
            rest = drop 36 d
        in if len = 0xFFFFFFFF then rbind (parse_objects rest) (\<lambda>xs. Inr ((oid, None) # xs))
           else if len > length rest then Inl TruncatedObject
           else rbind (parse_objects (drop len rest)) (\<lambda>xs. Inr ((oid, Some (take len rest)) # xs)))"
  by pat_completeness auto
termination by (relation "measure length") auto

declare parse_objects.simps [simp del]

definition get_objects :: "'c repo_env \<Rightarrow> http \<Rightarrow> object_id list \<Rightarrow> sync_fail + (object_id \<times> bytes option) list" where
  "get_objects E http is =
     (if is = [] then Inr [] else rbind (fetch http ''/objects'' (ids_query E is)) parse_objects)"

section \<open>Extracting a revision\<close>

definition extract_revision_data :: "'c repo_env \<Rightarrow> net_env \<Rightarrow> 'c site \<Rightarrow> nat \<Rightarrow> sync_fail + revision_data" where
  "extract_revision_data E N S r =
     rbind (ok_or (NoCommit r) (map_of (r_commits (st_repo S)) r)) (\<lambda>bs.
       rbind (ok_or BadRecord (de_commit E bs)) (\<lambda>c.
         rbind (case map_of (r_deltas (st_repo S)) r of
                  None \<Rightarrow> Inr (no_delta r)
                | Some ds \<Rightarrow> ok_or BadRecord (de_delta E ds)) (\<lambda>d.
           rbind (case map_of (st_revprops S) r of
                    None \<Rightarrow> Inr []
                  | Some txt \<Rightarrow> ok_or BadProps (map_option (props_order N) (parse_props N txt))) (\<lambda>props.
             Inr (revision_of E (st_repo S) r c d props)))))"

section \<open>Replaying a revision\<close>

text \<open>The objects of a revision are written as blobs without the executable flag, unless a file is there.\<close>

definition store_blob :: "'c repo_env \<Rightarrow> object_id \<times> bytes \<Rightarrow> 'c repo \<Rightarrow> 'c repo" where
  "store_blob E x s = store_object (fst x) (blob_to_bytes E (blob_new (snd x) False)) s"

text \<open>\<open>fill\<close>: a file whose object was not sent is made empty; without it, it is skipped. 493 is 0o755.\<close>

fun replay_change :: "'c repo_env \<Rightarrow> bool \<Rightarrow> (object_id \<times> bytes) list \<Rightarrow> tree_change \<Rightarrow> 'c repo \<Rightarrow> 'c repo" where
  "replay_change E fill objs (Upsert path e) s =
     (if te_kind e = KBlob then
        (case map_of objs (te_id e) of
           Some data \<Rightarrow> fst (add_file_sync E path data (te_mode e = 493) s)
         | None \<Rightarrow> if fill then fst (add_file_sync E path [] (te_mode e = 493) s) else s)
      else fst (mkdir_sync E path s))"
| "replay_change E fill objs (Delete path) s = delete_file_sync path s"

definition replay_changes :: "'c repo_env \<Rightarrow> bool \<Rightarrow> revision_data \<Rightarrow> 'c repo \<Rightarrow> 'c repo" where
  "replay_changes E fill rd s = fold (replay_change E fill (rd_objects rd)) (changes (rd_delta_tree rd)) s"

definition save_revprops :: "net_env \<Rightarrow> nat \<Rightarrow> (string \<times> string) list \<Rightarrow> 'c site \<Rightarrow> 'c site" where
  "save_revprops N r props S =
     (if props = [] then S
      else S\<lparr>st_revprops := oput r (json_props N (fold (\<lambda>(k, v) m. oput k v m) props [])) (st_revprops S)\<rparr>)"

definition apply_revision_data ::
    "'c repo_env \<Rightarrow> net_env \<Rightarrow> revision_data \<Rightarrow> bool \<Rightarrow> 'c site \<Rightarrow> 'c site \<times> (sync_fail + nat option)" where
  "apply_revision_data E N rd allow_empty S =
     (if rd_empty_commit rd \<and> \<not> allow_empty then (S, Inr None)
      else if \<not> verify_content_hash E rd then (S, Inl (HashMismatch (rd_revision rd)))
      else
        (case commit_sync E (rd_author rd) (rd_message rd) (rd_timestamp rd)
                (replay_changes E True rd (fold (store_blob E) (rd_objects rd) (st_repo S))) of
           (s1, Inl e) \<Rightarrow> (S\<lparr>st_repo := s1\<rparr>, Inl (RepoFail e))
         | (s1, Inr r) \<Rightarrow> (save_revprops N r (rd_properties rd) (S\<lparr>st_repo := s1\<rparr>), Inr (Some r))))"

section \<open>Local synchronisation\<close>

record sync_counts =
  sy_revisions :: nat
  sy_objects :: nat
  sy_bytes :: nat

record sync_result =
  sn_from_rev :: nat
  sn_to_rev :: nat
  sn_counts :: sync_counts
  sn_duration_ms :: nat
  sn_up_to_date :: bool

definition no_counts :: sync_counts where
  "no_counts = \<lparr>sy_revisions = 0, sy_objects = 0, sy_bytes = 0\<rparr>"

definition local_init :: "net_env \<Rightarrow> string \<Rightarrow> 'c site \<Rightarrow> 'c site \<Rightarrow> 'c site \<times> (sync_fail + sync_state)" where
  "local_init N src_root src dst =
     (case state_load (sync_files N) (st_dir dst) of
        Inl e \<Rightarrow> (dst, Inl (SyncFile e))
      | Inr (Some old) \<Rightarrow> (dst, Inl (AlreadySynced (source_url old)))
      | Inr None \<Rightarrow>
          let url = ''file://'' @ src_root;
              state = (state_new (r_uuid (st_repo src)) url)\<lparr>source_head_rev := read_head_rev (st_repo src)\<rparr>;
              dst1 = dst\<lparr>st_dir := state_save (sync_files N) state (st_dir dst)\<rparr>;
              props = (case map_of (st_revprops dst1) 0 of None \<Rightarrow> [] | Some txt \<Rightarrow> unwrap_or [] (parse_props N txt));
              props1 = oput ''svn:sync-from-uuid'' (r_uuid (st_repo src)) (oput ''svn:sync-from-url'' url props)
          in (dst1\<lparr>st_revprops := oput 0 (json_props N props1) (st_revprops dst1)\<rparr>, Inr state))"

text \<open>
  One revision of the loop of \<open>LocalSync::sync\<close>: empty revisions are copied when the destination's
  configuration says so or cannot be read; a checkpoint is saved every 100 revisions.
\<close>

definition copies_empty :: "net_env \<Rightarrow> sync_dir \<Rightarrow> bool" where
  "copies_empty N d \<longleftrightarrow> (case config_load (sync_files N) d of Inr c \<Rightarrow> sc_allow_empty c | Inl _ \<Rightarrow> True)"

definition sync_apply :: "'c repo_env \<Rightarrow> net_env \<Rightarrow> nat \<Rightarrow> revision_data \<Rightarrow> 'c site \<times> sync_state \<times> sync_counts \<Rightarrow>
    ('c site \<times> sync_state \<times> sync_counts) \<times> (sync_fail + unit)" where
  "sync_apply E N r rd x =
     (case x of (dst, state, n) \<Rightarrow>
        let n1 = n\<lparr>sy_bytes := sy_bytes n + sum_list (map (length \<circ> snd) (rd_objects rd)),
                   sy_objects := sy_objects n + length (rd_objects rd)\<rparr>
        in (case apply_revision_data E N rd (copies_empty N (st_dir dst)) dst of
              (dst1, Inl e) \<Rightarrow> ((dst1, state, n1), Inl e)
            | (dst1, Inr _) \<Rightarrow>
                let n2 = n1\<lparr>sy_revisions := sy_revisions n1 + 1\<rparr> in
                if sy_revisions n2 mod 100 = 0 then
                  (case set_checkpoint (sync_files N) r (state, st_dir dst1) of
                     (state1, d) \<Rightarrow> ((dst1\<lparr>st_dir := d\<rparr>, state1, n2), Inr ()))
                else ((dst1, state, n2), Inr ())))"

fun sync_loop :: "'c repo_env \<Rightarrow> net_env \<Rightarrow> 'c site \<Rightarrow> nat list \<Rightarrow> 'c site \<times> sync_state \<times> sync_counts \<Rightarrow>
    ('c site \<times> sync_state \<times> sync_counts) \<times> (sync_fail + unit)" where
  "sync_loop E N src [] x = (x, Inr ())"
| "sync_loop E N src (r # rs) x =
     (case extract_revision_data E N src r of
        Inl e \<Rightarrow> (x, Inl e)
      | Inr rd \<Rightarrow>
          (case sync_apply E N r rd x of
             (y, Inl e) \<Rightarrow> (y, Inl e)
           | (y, Inr _) \<Rightarrow> sync_loop E N src rs y))"

definition map_repo :: "('c repo \<Rightarrow> 'c repo) \<Rightarrow> 'c site \<Rightarrow> 'c site" where
  "map_repo f S = S\<lparr>st_repo := f (st_repo S)\<rparr>"

text \<open>What follows the loop of a synchronisation: the log entry and the completed state.\<close>

definition finish_sync :: "net_env \<Rightarrow> int \<Rightarrow> log_entry \<Rightarrow> sync_state \<Rightarrow> 'c site \<Rightarrow> 'c site" where
  "finish_sync N now entry state dst =
     dst\<lparr>st_dir := snd (complete_sync (sync_files N) now (to_rev entry) (state, log_append (sync_files N) entry (st_dir dst)))\<rparr>"

definition local_sync :: "'c repo_env \<Rightarrow> net_env \<Rightarrow> int \<Rightarrow> nat \<Rightarrow> 'c site \<Rightarrow> 'c site \<Rightarrow> 'c site \<times> (sync_fail + sync_result)" where
  "local_sync E N now elapsed src dst =
     (case state_load (sync_files N) (st_dir dst) of
        Inl e \<Rightarrow> (dst, Inl (SyncFile e))
      | Inr None \<Rightarrow> (dst, Inl NotInitialised)
      | Inr (Some state) \<Rightarrow>
          (case verify_source state (r_uuid (st_repo src)) of
             Inl e \<Rightarrow> (dst, Inl (SyncFile e))
           | Inr _ \<Rightarrow>
               let source_head = read_head_rev (st_repo src);
                   f = effective_start_rev state + 1
               in if f > source_head then
                    (dst, Inr \<lparr>sn_from_rev = 0, sn_to_rev = 0, sn_counts = no_counts, sn_duration_ms = elapsed, sn_up_to_date = True\<rparr>)
                  else
                    (case begin_sync (sync_files N) (state\<lparr>source_head_rev := source_head\<rparr>, st_dir dst) of
                       (state1, d) \<Rightarrow>
                         (case sync_loop E N src [f..<Suc source_head]
                                 (map_repo begin_batch (dst\<lparr>st_dir := d\<rparr>), state1, no_counts) of
                            ((dst1, state2, n), Inl e) \<Rightarrow> (dst1, Inl e)
                          | ((dst1, state2, n), Inr _) \<Rightarrow>
                              (finish_sync N now
                                 \<lparr>from_rev = f, to_rev = source_head, le_timestamp = now, objects_transferred = sy_objects n,
                                  bytes_transferred = sy_bytes n, duration_ms = elapsed, le_success = True, le_error = None\<rparr>
                                 state2 (map_repo end_batch dst1),
                               Inr \<lparr>sn_from_rev = f, sn_to_rev = source_head, sn_counts = n, sn_duration_ms = elapsed,
                                    sn_up_to_date = False\<rparr>)))))"

definition local_info :: "net_env \<Rightarrow> 'c site \<Rightarrow> sync_fail + (sync_state option \<times> nat \<times> log_entry option)" where
  "local_info N dst =
     (case state_load (sync_files N) (st_dir dst) of
        Inl e \<Rightarrow> Inl (SyncFile e)
      | Inr state \<Rightarrow> Inr (state, read_head_rev (st_repo dst), log_latest (sync_files N) (st_dir dst)))"

section \<open>Bulk transfer\<close>

record transfer_stats =
  tf_revisions :: nat
  tf_transferred :: nat
  tf_skipped :: nat
  tf_raw :: nat
  tf_compressed :: nat
  tf_duration :: nat

definition find_missing_objects :: "'c repo \<Rightarrow> object_id list \<Rightarrow> object_id list" where
  "find_missing_objects s is = filter (\<lambda>i. \<not> ohas (r_objects s) i) is"

definition transfer_object :: "'c repo_env \<Rightarrow> ('z) zstd_scheme \<Rightarrow> object_id \<times> bytes \<Rightarrow> 'c repo \<times> transfer_stats \<Rightarrow> 'c repo \<times> transfer_stats" where
  "transfer_object E Z x y =
     (case y of (s, st) \<Rightarrow>
        if ohas (r_objects s) (fst x) then (s, st\<lparr>tf_skipped := tf_skipped st + 1\<rparr>)
        else (store_blob E x s,
              st\<lparr>tf_compressed := tf_compressed st + length (zstd_encode Z (snd x)), tf_transferred := tf_transferred st + 1\<rparr>))"

definition transfer_rev :: "'c repo_env \<Rightarrow> ('z) zstd_scheme \<Rightarrow> revision_data \<Rightarrow> 'c repo \<times> transfer_stats \<Rightarrow>
    ('c repo \<times> transfer_stats) \<times> (sync_fail + unit)" where
  "transfer_rev E Z rd y =
     (case y of (s, st) \<Rightarrow>
        (case fold (transfer_object E Z) (rd_objects rd)
                (s, st\<lparr>tf_raw := tf_raw st + sum_list (map (length \<circ> snd) (rd_objects rd))\<rparr>) of
           (s1, st1) \<Rightarrow>
             (case commit_sync E (rd_author rd) (rd_message rd) (rd_timestamp rd) (replay_changes E False rd s1) of
                (s2, Inl e) \<Rightarrow> ((s2, st1), Inl (RepoFail e))
              | (s2, Inr _) \<Rightarrow> ((s2, st1\<lparr>tf_revisions := tf_revisions st1 + 1\<rparr>), Inr ()))))"

fun transfer_loop :: "'c repo_env \<Rightarrow> net_env \<Rightarrow> ('z) zstd_scheme \<Rightarrow> 'c site \<Rightarrow> nat list \<Rightarrow> 'c repo \<times> transfer_stats \<Rightarrow>
    ('c repo \<times> transfer_stats) \<times> (sync_fail + unit)" where
  "transfer_loop E N Z src [] y = (y, Inr ())"
| "transfer_loop E N Z src (r # rs) y =
     (case extract_revision_data E N src r of
        Inl e \<Rightarrow> (y, Inl e)
      | Inr rd \<Rightarrow>
          (case transfer_rev E Z rd y of
             (z, Inl e) \<Rightarrow> (z, Inl e)
           | (z, Inr _) \<Rightarrow> transfer_loop E N Z src rs z))"

definition transfer_revisions :: "'c repo_env \<Rightarrow> net_env \<Rightarrow> ('z) zstd_scheme \<Rightarrow> nat \<Rightarrow> 'c site \<Rightarrow> 'c site \<Rightarrow> nat \<Rightarrow> nat \<Rightarrow>
    'c site \<times> (sync_fail + transfer_stats)" where
  "transfer_revisions E N Z elapsed src dst f t =
     (case transfer_loop E N Z src [f..<Suc t] (begin_batch (st_repo dst),
             \<lparr>tf_revisions = 0, tf_transferred = 0, tf_skipped = 0, tf_raw = 0, tf_compressed = 0, tf_duration = 0\<rparr>) of
        ((s, st), Inl e) \<Rightarrow> (dst\<lparr>st_repo := s\<rparr>, Inl e)
      | ((s, st), Inr _) \<Rightarrow>
          (dst\<lparr>st_repo := end_batch s\<rparr>,
           Inr (st\<lparr>tf_duration := elapsed, tf_compressed := (if tf_compressed st = 0 \<and> tf_raw st > 0 then tf_raw st else tf_compressed st)\<rparr>)))"

section \<open>Comparing two repositories\<close>

text \<open>The paths are listed in order here; the code lists them in the order of its hash maps.\<close>

record verify_result =
  vr_revision :: nat
  vr_source_entries :: nat
  vr_dest_entries :: nat
  vr_mismatches :: "string list"
  vr_missing :: "string list"
  vr_extra :: "string list"
  vr_ok :: bool

definition compare_trees :: "nat \<Rightarrow> tree_map \<Rightarrow> tree_map \<Rightarrow> verify_result" where
  "compare_trees r a b =
     (let mis = map fst (filter (\<lambda>(p, e). case map_of b p of Some e' \<Rightarrow> te_id e \<noteq> te_id e' | None \<Rightarrow> False) a);
          missing = filter (\<lambda>p. \<not> ohas b p) (okeys a);
          extra = filter (\<lambda>p. \<not> ohas a p) (okeys b)
      in \<lparr>vr_revision = r, vr_source_entries = length a, vr_dest_entries = length b, vr_mismatches = mis,
          vr_missing = missing, vr_extra = extra, vr_ok = (mis = [] \<and> missing = [] \<and> extra = [])\<rparr>)"

definition verify_sync :: "'c repo_env \<Rightarrow> nat \<Rightarrow> 'c repo \<Rightarrow> 'c repo \<Rightarrow> (('c repo \<times> 'c repo) \<times> (repo_error + verify_result)) option" where
  "verify_sync E r src dst =
     Option.bind (get_tree_at_rev E r src) (\<lambda>(src1, x).
       case x of
         Inl e \<Rightarrow> Some ((src1, dst), Inl e)
       | Inr a \<Rightarrow>
           map_option (\<lambda>(dst1, y). ((src1, dst1), rbind y (\<lambda>b. Inr (compare_trees r a b)))) (get_tree_at_rev E r dst))"

section \<open>Pulling\<close>

record pull_counts =
  pc_revisions :: nat
  pc_objects :: nat
  pc_cached :: nat
  pc_bytes :: nat

record pull_result =
  pl_from_rev :: nat
  pl_to_rev :: nat
  pl_counts :: pull_counts
  pl_duration_ms :: nat
  pl_up_to_date :: bool

definition no_pulls :: pull_counts where
  "no_pulls = \<lparr>pc_revisions = 0, pc_objects = 0, pc_cached = 0, pc_bytes = 0\<rparr>"

definition remote_init :: "net_env \<Rightarrow> http \<Rightarrow> string \<Rightarrow> 'c site \<Rightarrow> 'c site \<times> (sync_fail + sync_state)" where
  "remote_init N http base dst =
     (case state_load (sync_files N) (st_dir dst) of
        Inl e \<Rightarrow> (dst, Inl (SyncFile e))
      | Inr (Some old) \<Rightarrow> (dst, Inl (AlreadySynced (source_url old)))
      | Inr None \<Rightarrow>
          (case get_info N http of
             Inl e \<Rightarrow> (dst, Inl e)
           | Inr info \<Rightarrow>
               let state = (state_new (ei_uuid info) base)\<lparr>source_head_rev := ei_head_rev info, protocol_version := ei_protocol_version info\<rparr>
               in (dst\<lparr>st_dir := state_save (sync_files N) state (st_dir dst)\<rparr>, Inr state)))"

definition pull_object :: "'c repo_env \<Rightarrow> object_id \<times> bytes \<Rightarrow> 'c repo \<times> pull_counts \<Rightarrow> 'c repo \<times> pull_counts" where
  "pull_object E x y =
     (case y of (s, n) \<Rightarrow>
        if ohas (r_objects s) (fst x) then (s, n\<lparr>pc_cached := pc_cached n + 1\<rparr>)
        else (store_blob E x s, n\<lparr>pc_bytes := pc_bytes n + length (snd x), pc_objects := pc_objects n + 1\<rparr>))"

definition pull_rev :: "'c repo_env \<Rightarrow> net_env \<Rightarrow> revision_data \<Rightarrow> 'c site \<times> pull_counts \<Rightarrow> ('c site \<times> pull_counts) \<times> (sync_fail + unit)" where
  "pull_rev E N rd y =
     (case y of (dst, n) \<Rightarrow>
        if \<not> verify_content_hash E rd then ((map_repo end_batch dst, n), Inl (HashMismatch (rd_revision rd)))
        else
          (case fold (pull_object E) (rd_objects rd) (st_repo dst, n) of
             (s1, n1) \<Rightarrow>
               (case commit_sync E (rd_author rd) (rd_message rd) (rd_timestamp rd) (replay_changes E False rd s1) of
                  (s2, Inl e) \<Rightarrow> ((dst\<lparr>st_repo := s2\<rparr>, n1), Inl (RepoFail e))
                | (s2, Inr _) \<Rightarrow>
                    ((save_revprops N (rd_revision rd) (rd_properties rd) (dst\<lparr>st_repo := s2\<rparr>),
                      n1\<lparr>pc_revisions := pc_revisions n1 + 1\<rparr>), Inr ()))))"

fun pull_revs :: "'c repo_env \<Rightarrow> net_env \<Rightarrow> revision_data list \<Rightarrow> 'c site \<times> pull_counts \<Rightarrow> ('c site \<times> pull_counts) \<times> (sync_fail + unit)" where
  "pull_revs E N [] y = (y, Inr ())"
| "pull_revs E N (rd # rds) y =
     (case pull_rev E N rd y of
        (z, Inl e) \<Rightarrow> (z, Inl e)
      | (z, Inr _) \<Rightarrow> pull_revs E N rds z)"

text \<open>The batches of up to 100 revisions; an empty list of revisions ends the loop.\<close>

function pull_loop :: "'c repo_env \<Rightarrow> net_env \<Rightarrow> http \<Rightarrow> nat \<Rightarrow> nat \<Rightarrow> 'c site \<times> sync_state \<times> pull_counts \<Rightarrow>
    ('c site \<times> sync_state \<times> pull_counts) \<times> (sync_fail + unit)" where
  "pull_loop E N http source_head current x =
     (if current > source_head then (x, Inr ())
      else
        let batch_end = min (current + 100 - 1) source_head in
        case x of (dst, state, n) \<Rightarrow>
          (case get_revisions N http current batch_end of
             Inl e \<Rightarrow> (x, Inl e)
           | Inr revs \<Rightarrow>
               if revs = [] then (x, Inr ())
               else
                 (case get_delta N http current batch_end of
                    Inl e \<Rightarrow> (x, Inl e)
                  | Inr rds \<Rightarrow>
                      (case pull_revs E N rds (dst, n) of
                         ((dst1, n1), Inl e) \<Rightarrow> ((dst1, state, n1), Inl e)
                       | ((dst1, n1), Inr _) \<Rightarrow>
                           (case set_checkpoint (sync_files N) batch_end (state, st_dir dst1) of
                              (state1, d) \<Rightarrow>
                                pull_loop E N http source_head (batch_end + 1) (dst1\<lparr>st_dir := d\<rparr>, state1, n1))))))"
  by pat_completeness auto
termination
  by (relation "measure (\<lambda>(E, N, http, source_head, current, x). Suc source_head - current)") auto

declare pull_loop.simps [simp del]

definition pull_opened :: "'c repo_env \<Rightarrow> net_env \<Rightarrow> http \<Rightarrow> int \<Rightarrow> nat \<Rightarrow> 'c site \<Rightarrow> 'c site \<times> (sync_fail + pull_result)" where
  "pull_opened E N http now elapsed dst =
     (case state_load (sync_files N) (st_dir dst) of
        Inl e \<Rightarrow> (dst, Inl (SyncFile e))
      | Inr None \<Rightarrow> (dst, Inl NotInitialised)
      | Inr (Some state) \<Rightarrow>
          (case get_info N http of
             Inl e \<Rightarrow> (dst, Inl e)
           | Inr info \<Rightarrow>
               (case verify_source state (ei_uuid info) of
                  Inl e \<Rightarrow> (dst, Inl (SyncFile e))
                | Inr _ \<Rightarrow>
                    let source_head = ei_head_rev info;
                        f = effective_start_rev state + 1
                    in if f > source_head then
                         (dst, Inr \<lparr>pl_from_rev = 0, pl_to_rev = 0, pl_counts = no_pulls, pl_duration_ms = elapsed, pl_up_to_date = True\<rparr>)
                       else
                         (case begin_sync (sync_files N) (state\<lparr>source_head_rev := source_head\<rparr>, st_dir dst) of
                            (state1, d) \<Rightarrow>
                              (case pull_loop E N http source_head f (map_repo begin_batch (dst\<lparr>st_dir := d\<rparr>), state1, no_pulls) of
                                 ((dst1, state2, n), Inl e) \<Rightarrow> (dst1, Inl e)
                               | ((dst1, state2, n), Inr _) \<Rightarrow>
                                   (finish_sync N now
                                      \<lparr>from_rev = f, to_rev = source_head, le_timestamp = now, objects_transferred = pc_objects n,
                                       bytes_transferred = pc_bytes n, duration_ms = elapsed, le_success = True, le_error = None\<rparr>
                                      state2 (map_repo end_batch dst1),
                                    Inr \<lparr>pl_from_rev = f, pl_to_rev = source_head, pl_counts = n, pl_duration_ms = elapsed,
                                         pl_up_to_date = False\<rparr>))))))"

text \<open>\<open>pull\<close> opens the destination first; \<open>None\<close> is a walk along deltas that does not end.\<close>

definition pull :: "'c repo_env \<Rightarrow> net_env \<Rightarrow> http \<Rightarrow> int \<Rightarrow> nat \<Rightarrow> string \<Rightarrow> 'c site \<Rightarrow> ('c site \<times> (sync_fail + pull_result)) option" where
  "pull E N http now elapsed fresh_uuid dst =
     map_option (\<lambda>(s, res).
         case res of
           Inl e \<Rightarrow> (dst\<lparr>st_repo := s\<rparr>, Inl (RepoFail e))
         | Inr _ \<Rightarrow> pull_opened E N http now elapsed (dst\<lparr>st_repo := s\<rparr>))
       (initialize E now (repo_open E fresh_uuid (st_repo dst)))"

section \<open>Repair\<close>

record repair_result =
  rp_fetched :: nat
  rp_bytes :: nat
  rp_present :: nat

text \<open>The fetched bytes, which are serialized objects already, are wrapped as blobs once more.\<close>

definition repair_object :: "'c repo_env \<Rightarrow> object_id \<times> bytes option \<Rightarrow> 'c repo \<times> repair_result \<Rightarrow> 'c repo \<times> repair_result" where
  "repair_object E x y =
     (case (x, y) of
        ((i, None), _) \<Rightarrow> y
      | ((i, Some data), (s, n)) \<Rightarrow>
          (s\<lparr>r_objects := oput i (blob_to_bytes E (blob_new data False)) (r_objects s)\<rparr>,
           n\<lparr>rp_fetched := rp_fetched n + 1, rp_bytes := rp_bytes n + length data\<rparr>))"

definition fetch_objects_and_repair :: "'c repo_env \<Rightarrow> http \<Rightarrow> object_id list \<Rightarrow> 'c repo \<Rightarrow> 'c repo \<times> (sync_fail + repair_result)" where
  "fetch_objects_and_repair E http is s =
     (let wanted = filter (\<lambda>i. \<not> ohas (r_objects s) i) is;
          none = \<lparr>rp_fetched = 0, rp_bytes = 0, rp_present = length is - length wanted\<rparr>
      in if is = [] \<or> wanted = [] then (s, Inr none)
         else
           (case get_objects E http wanted of
              Inl e \<Rightarrow> (s, Inl e)
            | Inr found \<Rightarrow> (case fold (repair_object E) found (s, none) of (s1, n) \<Rightarrow> (s1, Inr n))))"

definition verify_sync_with_repair :: "'c repo_env \<Rightarrow> http \<Rightarrow> nat \<Rightarrow> bool \<Rightarrow> 'c repo \<Rightarrow> 'c repo \<Rightarrow>
    (('c repo \<times> 'c repo) \<times> (sync_fail + (verify_result \<times> repair_result option))) option" where
  "verify_sync_with_repair E http r repair src dst =
     Option.bind (get_tree_at_rev E r src) (\<lambda>(src1, x).
       case x of
         Inl e \<Rightarrow> Some ((src1, dst), Inl (RepoFail e))
       | Inr a \<Rightarrow>
           map_option (\<lambda>(dst1, y).
               case y of
                 Inl e \<Rightarrow> ((src1, dst1), Inl (RepoFail e))
               | Inr b \<Rightarrow>
                   let v = compare_trees r a b in
                   if repair \<and> vr_missing v \<noteq> [] then
                     (case fetch_objects_and_repair E http (List.map_filter (\<lambda>p. map_option te_id (map_of a p)) (vr_missing v)) dst1 of
                        (dst2, Inl e) \<Rightarrow> ((src1, dst2), Inl e)
                      | (dst2, Inr n) \<Rightarrow> ((src1, dst2), Inr (v, Some n)))
                   else ((src1, dst1), Inr (v, None)))
             (get_tree_at_rev E r dst))"

end
