(* ===== verification/Sqlite_Changes.thy ===== *)
theory Sqlite_Changes
  imports Sqlite_Behaviour
begin

text \<open>
  The shape of what a repository records. Only \<open>add_file\<close>, \<open>mkdir\<close> and \<open>delete_file\<close> write the
  table of pending changes and only commits write deltas, so in every reachable state a delta lists
  its paths in strictly increasing order, and each entry is a file with one of the two file modes
  or the empty directory object, and every revision has its commit. Tools that replay deltas (synchronisation, dumps) rest on this.
\<close>

section \<open>Well-typed changes\<close>

definition plain_entry :: "'c repo_env \<Rightarrow> string \<Rightarrow> tree_entry \<Rightarrow> bool" where
  "plain_entry E p e \<longleftrightarrow> te_name e = p \<and> oid_ok (te_id e) \<and>
     (te_kind e = KBlob \<and> (te_mode e = 420 \<or> te_mode e = 493) \<or>
      te_kind e = KTree \<and> te_mode e = 493 \<and> te_id e = tree_obj_id E tree_new)"

definition plain_path :: "string \<Rightarrow> bool" where
  "plain_path p \<longleftrightarrow> trim_start_matches CHR ''/'' p = p"

definition plain_effect :: "'c repo_env \<Rightarrow> string \<Rightarrow> tree_entry option \<Rightarrow> bool" where
  "plain_effect E p x \<longleftrightarrow> plain_path p \<and> (case x of None \<Rightarrow> True | Some e \<Rightarrow> plain_entry E p e)"

definition plain_change :: "'c repo_env \<Rightarrow> tree_change \<Rightarrow> bool" where
  "plain_change E ch \<longleftrightarrow> plain_effect E (change_path ch) (snd (change_effect ch))"

lemma plain_change_simps [simp]:
  "plain_change E (Upsert p e) \<longleftrightarrow> plain_path p \<and> plain_entry E p e"
  "plain_change E (Delete p) \<longleftrightarrow> plain_path p"
  by (simp_all add: plain_change_def plain_effect_def)

definition delta_plain :: "'c repo_env \<Rightarrow> tree_change list \<Rightarrow> bool" where
  "delta_plain E chs \<longleftrightarrow> sorted_wrt (<) (map change_path chs) \<and> list_all (plain_change E) chs"

definition changes_inv :: "'c repo_env \<Rightarrow> 'c repo \<Rightarrow> bool" where
  "changes_inv E s \<longleftrightarrow> (\<forall>p x. pend_of s p = Some x \<longrightarrow> plain_effect E p x) \<and> (\<forall>r. delta_plain E (rev_changes E s r)) \<and>
     (\<forall>r \<le> r_current_rev s. get_commit E s r \<noteq> None)"

section \<open>The invariant is kept\<close>

lemma rev_changes_cong: "r_deltas s' = r_deltas s \<Longrightarrow> rev_changes E s' = rev_changes E s"
  by (simp add: rev_changes_def delta_at_def fun_eq_iff)

lemma plain_path_trim [simp]: "plain_path (trim_start_matches CHR ''/'' p)"
  by (simp add: plain_path_def)

lemma changes_inv_cong:
  assumes "r_deltas s' = r_deltas s" and "r_commits s' = r_commits s" and "r_current_rev s' = r_current_rev s"
    and "pend_of s' = pend_of s \<or> pend_of s' = Map.empty" and "changes_inv E s"
  shows "changes_inv E s'"
  using rev_changes_cong [OF assms(1), of E] assms(2-) by (auto simp: changes_inv_def get_commit_def load_commit_def)

lemma edit_pend:
  assumes "env_ok E"
  shows "\<exists>p x. plain_effect E p x \<and> pend_of (apply_edit E e s) = (pend_of s)(p \<mapsto> x)"
proof -
  have o: "oid_ok (from_data E d)" "oid_ok (tree_obj_id E tree_new)" for d
    using externals_ok_env [OF assms] by (simp_all add: tree_obj_id_def)
  show ?thesis
  proof (cases e)
    case (AddFile p d x)
    have "plain_effect E (trim_start_matches CHR ''/'' p)
        (Some (tree_entry_new (trim_start_matches CHR ''/'' p) (from_data E d) KBlob (file_mode x)))"
      by (simp add: plain_effect_def plain_entry_def tree_entry_new_def file_mode_def o)
    moreover have "pend_of (apply_edit E e s) = (pend_of s)(trim_start_matches CHR ''/'' p \<mapsto>
        Some (tree_entry_new (trim_start_matches CHR ''/'' p) (from_data E d) KBlob (file_mode x)))"
      by (simp add: AddFile add_file_def Let_def pend_insert o)
    ultimately show ?thesis by blast
  next
    case (MkDir p)
    have "plain_effect E (trim_start_matches CHR ''/'' p)
        (Some (tree_entry_new (trim_start_matches CHR ''/'' p) (tree_obj_id E tree_new) KTree (file_mode True)))"
      by (simp add: plain_effect_def plain_entry_def tree_entry_new_def file_mode_def o)
    moreover have "pend_of (apply_edit E e s) = (pend_of s)(trim_start_matches CHR ''/'' p \<mapsto>
        Some (tree_entry_new (trim_start_matches CHR ''/'' p) (tree_obj_id E tree_new) KTree (file_mode True)))"
      by (simp add: MkDir mkdir_def Let_def pend_insert o)
    ultimately show ?thesis by blast
  next
    case (DeleteFile p)
    have "plain_effect E (trim_start_matches CHR ''/'' p) None" by (simp add: plain_effect_def)
    then show ?thesis
      unfolding DeleteFile apply_edit.simps delete_file_def pend_remove by blast
  qed
qed

lemma edit_changes_inv:
  assumes "env_ok E" and "changes_inv E s"
  shows "changes_inv E (apply_edit E e s)"
proof -
  obtain p x where px: "plain_effect E p x" "pend_of (apply_edit E e s) = (pend_of s)(p \<mapsto> x)"
    using edit_pend [OF assms(1)] by blast
  have h: "r_deltas (apply_edit E e s) = r_deltas s" "r_commits (apply_edit E e s) = r_commits s"
    "r_current_rev (apply_edit E e s) = r_current_rev s"
    using same_history_edit [of s E e] by (simp_all add: same_history_def)
  from rev_changes_cong [OF h(1), of E] px assms(2) h(2,3) show ?thesis
    by (auto simp: changes_inv_def get_commit_def load_commit_def)
qed

lemma effects_member:
  assumes "sorted_wrt (<) (map change_path chs)" and "ch \<in> set chs"
  shows "effects chs (change_path ch) = Some (snd (change_effect ch))"
  using assms
proof (induction chs)
  case (Cons c chs)
  then show ?case by (auto simp: effects_Cons)
qed simp

lemma commits_as_changes_inv:
  assumes "externals_ok E" and "changes_inv E s" and "commits_as E chs a m ts s s'"
    and "sorted_wrt (<) (map change_path chs)" and "effects chs = pend_of s"
  shows "changes_inv E s'"
proof -
  have "plain_change E ch" if "ch \<in> set chs" for ch
    using assms(2) effects_member [OF assms(4) that] assms(5) by (simp add: changes_inv_def plain_change_def)
  then have chs: "delta_plain E chs" using assms(4) by (simp add: delta_plain_def list_all_iff)
  have "rev_changes E s' r = (if r = Suc (r_current_rev s) then chs else rev_changes E s r)" for r
    using commits_as_delta [OF assms(1,3)] by (simp add: rev_changes_def delta_tree_new_def)
  moreover have "pend_of s' = Map.empty" using assms(3) by (intro pend_Nil) (simp add: commits_as_def Let_def)
  moreover have "get_commit E s' r \<noteq> None" if "r \<le> r_current_rev s'" for r
    using that commits_as_rev [OF assms(3)] commits_as_commit [OF assms(1,3)] commits_as_old_commit [OF assms(3), of r] assms(2)
    by (cases "r = Suc (r_current_rev s)") (auto simp: changes_inv_def)
  ultimately show ?thesis using chs assms(2) by (simp add: changes_inv_def)
qed

lemma commit_changes_inv:
  assumes "repo_inv E s" and "changes_inv E s"
  shows "commit_ok E c s = Some s' \<Longrightarrow> changes_inv E s'" and "commit_sync_ok E c s = Some s' \<Longrightarrow> changes_inv E s'"
  using commits_as_changes_inv [OF repo_inv_history(3) [OF assms(1)] assms(2)]
    commit_okE [OF assms(1)] commit_sync_okE [OF assms(1)] by metis+

lemma reopen_changes_inv:
  assumes "life_inv E s" and "changes_inv E s"
  shows "r_tree_entries s \<noteq> [] \<Longrightarrow> initialize E now (repo_open E u s) = Some (s', Inr ()) \<Longrightarrow> changes_inv E s'"
    and "initialize E now (repo_open E u (lose_tables s)) = Some (s', Inr ()) \<Longrightarrow> changes_inv E s'"
proof -
  have l: "repo_inv E s" "head_saved s" using assms(1) by (simp_all add: life_inv_def)
  {
    assume "r_tree_entries s \<noteq> []" "initialize E now (repo_open E u s) = Some (s', Inr ())"
    with reopen_rows [OF l, of now u] have "r_deltas s' = r_deltas s" "r_pending s' = r_pending s" "r_commits s' = r_commits s"
      "r_current_rev s' = r_current_rev s"
      by (metis option.inject prod.inject)+
    then show "changes_inv E s'" using assms(2) by (auto simp: pend_of_def fun_eq_iff intro: changes_inv_cong)
  next
    note f = lose_tables_facts [OF assms(1)]
    have e: "r_tree_entries (lose_tables s) = []" "r_pending (lose_tables s) = []" by (simp_all add: lose_tables_def)
    assume "initialize E now (repo_open E u (lose_tables s)) = Some (s', Inr ())"
    with reopen_empty [OF f(1-4) e, of now u] have "r_deltas s' = r_deltas (lose_tables s)" "r_pending s' = []"
      "r_commits s' = r_commits (lose_tables s)" "r_current_rev s' = r_current_rev (lose_tables s)"
      by (metis option.inject prod.inject)+
    then show "changes_inv E s'"
      using assms(2) pend_Nil [of s'] by (intro changes_inv_cong [of s' s]) (simp_all add: lose_tables_def)
  }
qed

lemma reachable_changes: "reachable E s \<Longrightarrow> changes_inv E s"
proof (induction rule: reachable.induct)
  case (created now u c s)
  from initialize_blank [OF created(1), of now u c] obtain t where
    t: "initialize E now (repo_open E u (blank c)) = Some (t, Inr ())" "repo_inv E t" "r_current_rev t = 0" "r_pending t = []"
    "get_commit E t 0 \<noteq> None"
    by blast
  have "rev_changes E t r = []" for r
    using history_invD(1) [OF repo_inv_history(2) [OF t(2)], of r] t(3)
    using repo_inv_history(2) [OF t(2)] by (cases "r = 0") (simp_all add: rev_changes_def delta_at_def history_inv_def)
  with t created(2) pend_Nil [of t] show ?case by (simp add: changes_inv_def delta_plain_def)
next
  case (edited s e)
  then show ?case using reachable_life [of E s] by (intro edit_changes_inv) (simp_all add: life_inv_def repo_inv_def)
next
  case (committed s a m ts s' r)
  then show ?case using commit_changes_inv(1) [OF _ _ commit_okI] reachable_life [of E s] unfolding life_inv_def by blast
next
  case (committed_sync s a m ts s' r)
  then show ?case using commit_changes_inv(2) [OF _ _ commit_sync_okI] reachable_life [of E s] unfolding life_inv_def by blast
next
  case (read s p r s' res)
  then have "read_ok E s s'"
    using reachable_life [of E s] get_file_ok [of E s p r] by (force simp: life_inv_def repo_inv_def env_ok_def)
  then have "r_deltas s' = r_deltas s" "r_pending s' = r_pending s" "r_commits s' = r_commits s" "r_current_rev s' = r_current_rev s"
    by (auto simp: read_ok_def dest: only_cacheD)
  then show ?case using read.IH by (auto simp: pend_of_def fun_eq_iff intro: changes_inv_cong)
next
  case (batch_on s)
  then show ?case by (auto simp: begin_batch_def intro: changes_inv_cong)
next
  case (batch_off s)
  then show ?case by (auto simp: end_batch_def intro: changes_inv_cong)
next
  case (reopened s now u s')
  then show ?case using reopen_changes_inv(1) [OF reachable_life] by blast
next
  case (recovered s now u s')
  then show ?case using reopen_changes_inv(2) [OF reachable_life] by blast
qed

section \<open>What a revision wrote is in its tree\<close>

lemma apply_changes_frame:
  assumes "\<forall>ch \<in> set chs. p < change_path ch"
  shows "map_of (apply_changes chs m) p = map_of m p"
  using assms
proof (induction chs arbitrary: m)
  case (Cons ch chs)
  from Cons.prems have "\<not> below (change_path ch) p" "change_path ch \<noteq> p" using below_less [of "change_path ch" p] by auto
  then have "map_of (apply_change ch m) p = map_of m p" by (cases ch) (auto simp: omap_simps)
  with Cons.IH [of "apply_change ch m"] Cons.prems show ?case by (simp add: apply_changes_def)
qed (simp add: apply_changes_def)

lemma apply_changes_upsert:
  assumes "sorted_wrt (<) (map change_path chs)" and "Upsert p e \<in> set chs"
  shows "map_of (apply_changes chs m) p = Some e"
  using assms
proof (induction chs arbitrary: m)
  case (Cons ch chs)
  show ?case
  proof (cases "Upsert p e \<in> set chs")
    case True
    with Cons.IH [of "apply_change ch m"] Cons.prems(1) show ?thesis by (simp add: apply_changes_def)
  next
    case False
    with Cons.prems have "ch = Upsert p e" "\<forall>c \<in> set chs. p < change_path c" by auto
    with apply_changes_frame [of chs p "apply_change ch m"] show ?thesis by (simp add: apply_changes_def omap_simps)
  qed
qed simp

lemma tree_of_changes:
  assumes "history_inv E s" and "0 < r" and "r \<le> r_current_rev s"
  shows "tree_of E s r = apply_changes (rev_changes E s r) (tree_of E s (r - 1))"
proof -
  obtain d where "delta_at E s r = Some d" using history_invD(1) [OF assms] by blast
  with tree_of_step [OF assms(2) this] assms(2) show ?thesis by (simp add: rev_changes_def)
qed

end
