(* ===== verification/Sync_Replay.thy ===== *)
theory Sync_Replay
  imports Sync_Client Sqlite_Changes
begin

text \<open>
  Replaying the delta of one repository in another. The changes of a revision come in path order,
  so each of them is a safe edit at a destination without pending changes; only the \<open>LIKE\<close> pattern
  of a deletion can hit too much, which \<open>changes_like\<close> rules out. The entries get the same
  identifiers and modes, so the trees become equal, not only similar.
\<close>

section \<open>What can be replayed\<close>

text \<open>A deletion's \<open>LIKE\<close> pattern selects only paths below it.\<close>

fun like_ok :: "tree_map \<Rightarrow> tree_change \<Rightarrow> bool" where
  "like_ok m (Upsert p e) = True"
| "like_ok m (Delete p) = list_all (\<lambda>k. sql_like (p @ ''/%'') k \<longrightarrow> below p k) (okeys m)"

fun changes_like :: "tree_map \<Rightarrow> tree_change list \<Rightarrow> bool" where
  "changes_like m [] = True"
| "changes_like m (ch # chs) = (like_ok m ch \<and> changes_like (apply_change ch m) chs)"

text \<open>The object of a file is among the objects sent and has the hash its name says.\<close>

fun sent :: "'c repo_env \<Rightarrow> (object_id \<times> bytes) list \<Rightarrow> tree_change \<Rightarrow> bool" where
  "sent E objs (Upsert p e) =
     (te_kind e = KBlob \<longrightarrow> (case map_of objs (te_id e) of None \<Rightarrow> False | Some d \<Rightarrow> from_data E d = te_id e))"
| "sent E objs (Delete p) = True"

fun replay_edit :: "(object_id \<times> bytes) list \<Rightarrow> tree_change \<Rightarrow> edit" where
  "replay_edit objs (Upsert p e) =
     (if te_kind e = KBlob then AddFile p (unwrap_or [] (map_of objs (te_id e))) (te_mode e = 493) else MkDir p)"
| "replay_edit objs (Delete p) = DeleteFile p"

lemma replay_change_edit: "sent E objs ch \<Longrightarrow> replay_change E fill objs ch s = apply_edit E (replay_edit objs ch) s"
  by (cases ch) (auto simp: sync_edits split: option.splits)

lemma replay_changes_edits:
  assumes "list_all (sent E objs) chs"
  shows "fold (replay_change E fill objs) chs s = fold (apply_edit E) (map (replay_edit objs) chs) s"
  using assms by (induction chs arbitrary: s) (simp_all add: replay_change_edit)

section \<open>Edits at the destination\<close>

lemma work_keys: "tables_ok s \<Longrightarrow> k \<in> set (okeys (r_tree_entries s)) \<longleftrightarrow> k \<in> set (okeys (work s))"
  by (simp add: set_okeys dom_def map_of_work)

lemma replay_edit_safe:
  assumes "tables_ok t" and "plain_change E ch" and "like_ok (work t) ch"
    and "\<And>k. pend_of t k \<noteq> None \<Longrightarrow> k < change_path ch"
  shows "edit_safe E (replay_edit objs ch) t"
proof (cases ch)
  case (Upsert p e)
  then have "pend_of t p = None" using assms(4) [of p] by (cases "pend_of t p") simp_all
  moreover have "trim_start_matches CHR ''/'' p = p" using assms(2) Upsert by (simp add: plain_path_def)
  ultimately show ?thesis using Upsert by (simp add: add_safe_def)
next
  case (Delete p)
  have "False" if "k \<in> set (okeys (r_pending t))" "below p k" for k
  proof -
    have "pend_of t k \<noteq> None" using that(1) by (simp add: pend_of_def set_okeys dom_def)
    from assms(4) [OF this] below_less [OF that(2)] Delete show False by simp
  qed
  moreover have "trim_start_matches CHR ''/'' p = p" using assms(2) Delete by (simp add: plain_path_def)
  ultimately show ?thesis
    using assms(3) Delete by (auto simp: delete_safe_def work_keys [OF assms(1)] list_all_iff)
qed

lemma replay_edit_work:
  assumes "repo_inv E t" and "plain_change E ch" and "sent E objs ch" and "edit_safe E (replay_edit objs ch) t"
  shows "work (apply_edit E (replay_edit objs ch) t) = apply_change ch (work t)"
proof (rule omap_eqI)
  have inv: "repo_inv E (apply_edit E (replay_edit objs ch) t)" by (rule edit_repo_inv [OF assms(1,4)])
  show "omap_ok (work (apply_edit E (replay_edit objs ch) t))" by (rule work_ok [OF repo_inv_tables [OF inv]])
  show "omap_ok (apply_change ch (work t))" by (simp add: work_ok [OF repo_inv_tables [OF assms(1)]])
  show "map_of (work (apply_edit E (replay_edit objs ch) t)) = map_of (apply_change ch (work t))"
  proof (cases ch)
    case (Delete p)
    with assms(2) have p: "trim_start_matches CHR ''/'' p = p" by (simp add: plain_path_def)
    with assms(4) Delete have "delete_safe t (trim_start_matches CHR ''/'' p)" by simp
    from delete_file_work [OF assms(1) this] Delete p show ?thesis by (auto simp: omap_simps fun_eq_iff)
  next
    case (Upsert p e)
    with assms(2) have p: "trim_start_matches CHR ''/'' p = p" and e: "plain_entry E p e" by (simp_all add: plain_path_def)
    show ?thesis
    proof (cases "te_kind e = KBlob")
      case True
      then obtain d where d: "map_of objs (te_id e) = Some d" "from_data E d = te_id e"
        using assms(3) Upsert by (auto split: option.splits)
      have "tree_entry_new p (from_data E d) KBlob (file_mode (te_mode e = 493)) = e"
        using e True d(2) by (auto simp: plain_entry_def tree_entry_new_def file_mode_def)
      with add_file_work [OF assms(1), of p d "te_mode e = 493"] Upsert True d p show ?thesis by (simp add: omap_simps fun_eq_iff)
    next
      case False
      then have "tree_entry_new p (tree_obj_id E tree_new) KTree (file_mode True) = e"
        using e by (simp add: plain_entry_def tree_entry_new_def file_mode_def)
      with mkdir_work [OF assms(1), of p] Upsert False p show ?thesis by (simp add: omap_simps fun_eq_iff)
    qed
  qed
qed

lemma replay_edit_pend:
  assumes "env_ok E" and "plain_change E ch" and "pend_of (apply_edit E (replay_edit objs ch) t) k \<noteq> None"
  shows "pend_of t k \<noteq> None \<or> k = change_path ch"
proof -
  have o: "oid_ok (from_data E d)" "oid_ok (tree_obj_id E tree_new)" for d
    using externals_ok_env [OF assms(1)] by (simp_all add: tree_obj_id_def)
  show ?thesis
    using assms(2,3) by (cases ch) (auto simp: plain_path_def add_file_def mkdir_def delete_file_def Let_def pend_insert
        pend_remove o split: if_splits)
qed

lemma replay_edits:
  assumes "repo_inv E t" and "delta_plain E chs" and "list_all (sent E objs) chs" and "changes_like (work t) chs"
    and "\<And>k ch. pend_of t k \<noteq> None \<Longrightarrow> ch \<in> set chs \<Longrightarrow> k < change_path ch"
  defines "u \<equiv> fold (apply_edit E) (map (replay_edit objs) chs) t"
  shows "repo_inv E u \<and> work u = apply_changes chs (work t) \<and> r_current_rev u = r_current_rev t \<and> tree_of E u = tree_of E t"
  using assms(1-5) unfolding u_def
proof (induction chs arbitrary: t)
  case Nil
  then show ?case by (simp add: apply_changes_def)
next
  case (Cons ch chs)
  let ?e = "replay_edit objs ch"
  have pl: "plain_change E ch" "delta_plain E chs" "\<forall>c \<in> set chs. change_path ch < change_path c"
    using Cons.prems(2) by (auto simp: delta_plain_def)
  have env: "env_ok E" using Cons.prems(1) by (simp add: repo_inv_def)
  have safe: "edit_safe E ?e t"
    using Cons.prems(4) Cons.prems(5) [of _ ch] by (intro replay_edit_safe [OF repo_inv_tables [OF Cons.prems(1)] pl(1)]) simp_all
  have snt: "sent E objs ch" using Cons.prems(3) by simp
  note w = replay_edit_work [OF Cons.prems(1) pl(1) snt safe]
  have pend: "k < change_path c" if "pend_of (apply_edit E ?e t) k \<noteq> None" "c \<in> set chs" for k c
    using replay_edit_pend [OF env pl(1) that(1)] Cons.prems(5) [of k c] pl(3) that(2) by auto
  have "list_all (sent E objs) chs" "changes_like (work (apply_edit E ?e t)) chs" using Cons.prems(3,4) w by simp_all
  from Cons.IH [OF edit_repo_inv [OF Cons.prems(1) safe] pl(2) this pend] w show ?case
    by (simp add: apply_changes_def edit_head_tree)
qed

section \<open>Objects at the destination\<close>

text \<open>
  The slot of an identifier at the destination is free or holds the content it has at the source;
  \<open>ids_apart\<close> says that no commit and no tree has the identifier of a file.
\<close>

definition slot_free :: "'c repo_env \<Rightarrow> 'c repo \<Rightarrow> 'c repo \<Rightarrow> object_id \<Rightarrow> bool" where
  "slot_free E s t i \<longleftrightarrow> map_of (r_objects t) i = None \<or> blob_at E t i = blob_at E s i"

definition ids_apart :: "'c repo_env \<Rightarrow> object_id \<Rightarrow> bool" where
  "ids_apart E i \<longleftrightarrow> (\<forall>c. commit_id E c \<noteq> i) \<and> (\<forall>tr. tree_obj_id E tr \<noteq> i)"

lemma blob_at_eq: "blob_at E s i = Option.bind (map_of (r_objects s) i) (\<lambda>bs. map_option fst (de_blob E bs))"
  by (cases "map_of (r_objects s) i") (auto simp: blob_at_def load_object_def blob_deserialize_def option.map_comp comp_def case_prod_unfold)

lemma blob_at_cong: "map_of (r_objects t') i = map_of (r_objects t) i \<Longrightarrow> blob_at E t' i = blob_at E t i"
  by (simp add: blob_at_eq)

lemma blob_at_kept: "objects_kept t t' \<Longrightarrow> blob_at E t i = Some d \<Longrightarrow> blob_at E t' i = Some d"
  by (auto simp: blob_at_eq objects_kept_def Option.bind_eq_Some_conv)

lemma slot_free_cong: "map_of (r_objects t') i = map_of (r_objects t) i \<Longrightarrow> slot_free E s t' i = slot_free E s t i"
  by (simp add: slot_free_def blob_at_eq)

lemma store_object_lookup:
  "map_of (r_objects (store_object j bs t)) i =
     (if i = j \<and> map_of (r_objects t) i = None then Some bs else map_of (r_objects t) i)"
  by (auto simp: store_object_def ohas_iff omap_simps)

lemma store_object_slot:
  assumes "slot_free E s t i" and "i = j \<Longrightarrow> map_option fst (de_blob E bs) = blob_at E s i"
  shows "slot_free E s (store_object j bs t) i"
proof (cases "i = j \<and> map_of (r_objects t) i = None")
  case True
  then have "map_of (r_objects (store_object j bs t)) i = Some bs" by (auto simp: store_object_lookup)
  then have "blob_at E (store_object j bs t) i = map_option fst (de_blob E bs)" by (simp add: blob_at_eq)
  with True assms(2) show ?thesis by (simp add: slot_free_def)
next
  case False
  then have "map_of (r_objects (store_object j bs t)) i = map_of (r_objects t) i" by (auto simp: store_object_lookup)
  from slot_free_cong [OF this, of E s] assms(1) show ?thesis by simp
qed

lemma store_blob_slot:
  assumes "externals_ok E" and "slot_free E s t i" and "blob_at E s (fst x) = Some (snd x)"
  shows "slot_free E s (store_blob E x t) i"
  unfolding store_blob_def using assms
  by (intro store_object_slot) (simp_all add: blob_to_bytes_def externals_okD(3))

lemma store_blobs:
  assumes "externals_ok E" and "\<forall>x \<in> set objs. blob_at E s (fst x) = Some (snd x)" and "slot_free E s t i"
  shows "slot_free E s (fold (store_blob E) objs t) i \<and>
    (i \<in> fst ` set objs \<longrightarrow> map_of (r_objects (fold (store_blob E) objs t)) i \<noteq> None)"
proof -
  have "slot_free E s (fold (store_blob E) objs t) i"
    using assms(2,3) by (induction objs arbitrary: t) (simp_all add: store_blob_slot [OF assms(1)])
  moreover have "map_of (r_objects (fold (store_blob E) objs t)) i \<noteq> None"
    if "i \<in> fst ` set objs \<or> map_of (r_objects t) i \<noteq> None" for t
    using that by (induction objs arbitrary: t) (auto simp: store_blob_def store_object_lookup)
  ultimately show ?thesis by blast
qed

lemma store_blobs_frame [simp]:
  "same_history t (fold (store_blob E) objs t)" "work (fold (store_blob E) objs t) = work t"
  "pend_of (fold (store_blob E) objs t) = pend_of t" "tables_ok (fold (store_blob E) objs t) = tables_ok t"
  "r_current_rev (fold (store_blob E) objs t) = r_current_rev t"
proof -
  have "same_history u (fold (store_blob E) objs t) = same_history u t" for u
    by (induction objs arbitrary: t) (simp_all add: store_blob_def)
  then show "same_history t (fold (store_blob E) objs t)" by simp
  show "work (fold (store_blob E) objs t) = work t" "pend_of (fold (store_blob E) objs t) = pend_of t"
    "tables_ok (fold (store_blob E) objs t) = tables_ok t" "r_current_rev (fold (store_blob E) objs t) = r_current_rev t"
    by (induction objs arbitrary: t) (simp_all add: store_blob_def)
qed

lemma store_blobs_kept: "objects_kept t (fold (store_blob E) objs t)"
proof (induction objs arbitrary: t)
  case (Cons x objs)
  have "objects_kept t (store_blob E x t)" by (simp add: objects_kept_def store_blob_def store_object_keeps)
  with objects_kept_trans [OF _ Cons.IH] show ?case by simp
qed (simp add: objects_kept_def)

lemma store_blobs_inv: "repo_inv E (fold (store_blob E) objs t) = repo_inv E t"
  using same_history_inv [OF store_blobs_frame(1), of E E objs t] same_history_tree [OF store_blobs_frame(1), of E E objs t]
  by (simp add: repo_inv_def work_inv_def)

text \<open>An edit of the replay and the commit leave the slots alone.\<close>

lemma edit_slot:
  assumes "externals_ok E" and "sent E objs ch" and "\<forall>x \<in> set objs. blob_at E s (fst x) = Some (snd x)"
    and "ids_apart E i" and "slot_free E s t i"
  shows "slot_free E s (apply_edit E (replay_edit objs ch) t) i"
proof (cases ch)
  case (Delete p)
  have "slot_free E s (delete_file p t) i = slot_free E s t i"
    by (rule slot_free_cong) (simp add: delete_file_def conn_tree_remove_def)
  with assms(5) Delete show ?thesis by simp
next
  case (Upsert p e)
  have ins: "slot_free E s (conn_tree_insert q j k m u) i = slot_free E s u i" for q j k m u
    by (rule slot_free_cong) (simp add: conn_tree_insert_def)
  show ?thesis
  proof (cases "te_kind e = KBlob")
    case True
    then obtain d where d: "map_of objs (te_id e) = Some d" "from_data E d = te_id e"
      using assms(2) Upsert by (auto split: option.splits)
    then have "blob_at E s (from_data E d) = Some d" using assms(3) map_of_SomeD [OF d(1)] by auto
    then show ?thesis
      using assms(5) Upsert True d
      by (auto simp: add_file_def Let_def ins blob_to_bytes_def externals_okD(3) [OF assms(1)] intro!: store_object_slot)
  next
    case False
    then show ?thesis
      using assms(4,5) Upsert by (auto simp: mkdir_def Let_def ins ids_apart_def intro!: store_object_slot)
  qed
qed

lemma edits_slot:
  assumes "externals_ok E" and "list_all (sent E objs) chs" and "\<forall>x \<in> set objs. blob_at E s (fst x) = Some (snd x)"
    and "ids_apart E i" and "slot_free E s t i"
  shows "slot_free E s (fold (apply_edit E) (map (replay_edit objs) chs) t) i"
  using assms(2,5) by (induction chs arbitrary: t) (simp_all add: edit_slot [OF assms(1) _ assms(3,4)])

lemma edits_kept: "objects_kept t (fold (apply_edit E) es t)"
proof (induction es arbitrary: t)
  case (Cons e es)
  with objects_kept_trans [OF objects_kept_edit Cons.IH] show ?case by simp
qed (simp add: objects_kept_def)

lemma commit_slot:
  assumes "ids_apart E i"
  shows "map_of (r_objects (fst (commit_sync E a m ts t))) i = map_of (r_objects t) i"
proof -
  have "map_of (r_objects (record_commit E cr tid a m ts u)) i = map_of (r_objects u) i" for cr tid u
    using assms by (auto simp: record_commit_def Let_def store_commit_def store_object_lookup ids_apart_def)
  then show ?thesis
    using assms by (auto simp: commit_sync_def conn_collect_pending_def Let_def store_delta_tree_def store_tree_snapshot_def
        save_head_def store_object_lookup ids_apart_def split: sum.splits)
qed

end
