(* ===== verification/Sync_Mirror.thy ===== *)
theory Sync_Mirror
  imports Sync_Replay
begin

text \<open>
  Mirrors. \<open>mirrored E s t n\<close> says that repository \<open>t\<close> has the first \<open>n\<close> revisions of \<open>s\<close>: equal
  trees, with identifiers and modes, the same author, message and date, the same file contents.
  The interface \<open>revision_replayer\<close> is what the three loops that copy revisions (local
  synchronisation, bulk transfer, pull) have in common; that a replayer extends a mirror is proved
  once and interpreted for each of them.
\<close>

section \<open>Mirrors\<close>

definition commit_info :: "'c repo_env \<Rightarrow> 'c repo \<Rightarrow> nat \<Rightarrow> (string \<times> string \<times> int) option" where
  "commit_info E s r = map_option (\<lambda>c. (author c, message c, timestamp c)) (get_commit E s r)"

fun file_id :: "tree_change \<Rightarrow> object_id option" where
  "file_id (Upsert p e) = (if te_kind e = KBlob then Some (te_id e) else None)"
| "file_id (Delete p) = None"

definition file_ids :: "'c repo_env \<Rightarrow> 'c repo \<Rightarrow> nat \<Rightarrow> object_id list" where
  "file_ids E s r = List.map_filter file_id (rev_changes E s r)"

definition mirrored :: "'c repo_env \<Rightarrow> 'c repo \<Rightarrow> 'c repo \<Rightarrow> nat \<Rightarrow> bool" where
  "mirrored E s t n \<longleftrightarrow> r_current_rev t = n \<and> r_pending t = [] \<and>
     (\<forall>r \<le> n. tree_of E t r = tree_of E s r) \<and>
     (\<forall>r. 0 < r \<and> r \<le> n \<longrightarrow> commit_info E t r = commit_info E s r \<and>
        list_all (\<lambda>i. blob_at E s i \<noteq> None \<and> blob_at E t i = blob_at E s i) (file_ids E s r))"

text \<open>
  A revision that can be copied: every file has its object, with the hash its name says; no commit
  and no tree shares the identifier of a file; deletions select only what is below them.
\<close>

definition blob_sound :: "'c repo_env \<Rightarrow> 'c repo \<Rightarrow> object_id \<Rightarrow> bool" where
  "blob_sound E s i \<longleftrightarrow> (case blob_at E s i of None \<Rightarrow> False | Some d \<Rightarrow> from_data E d = i)"

definition rev_syncable :: "'c repo_env \<Rightarrow> 'c repo \<Rightarrow> nat \<Rightarrow> bool" where
  "rev_syncable E s r \<longleftrightarrow> changes_like (tree_of E s (r - 1)) (rev_changes E s r) \<and>
     list_all (blob_sound E s) (file_ids E s r) \<and> list_all (ids_apart E) (file_ids E s r)"

definition hooks_accept :: "'c repo_env \<Rightarrow> bool" where
  "hooks_accept E \<longleftrightarrow> (\<forall>r a m d fs. run_pre_commit (hooks E) r a m d fs = Inr ())"

text \<open>The files still to come find their slots free, or filled with their content.\<close>

definition slots_free :: "'c repo_env \<Rightarrow> 'c repo \<Rightarrow> 'c repo \<Rightarrow> bool" where
  "slots_free E s t \<longleftrightarrow> (\<forall>r. list_all (slot_free E s t) (file_ids E s r))"

definition mirror_inv :: "'c repo_env \<Rightarrow> 'c repo \<Rightarrow> 'c repo \<Rightarrow> nat \<Rightarrow> bool" where
  "mirror_inv E s t n \<longleftrightarrow> repo_inv E t \<and> mirrored E s t n \<and>
     (\<forall>i. (\<exists>r. i \<in> set (file_ids E s r)) \<longrightarrow> ids_apart E i \<longrightarrow> slot_free E s t i)"

lemma in_map_filter: "x \<in> set (List.map_filter f xs) \<longleftrightarrow> (\<exists>y \<in> set xs. f y = Some x)"
  by (induction xs) (auto simp: List.map_filter_simps split: option.splits)

lemma file_ids_iff: "i \<in> set (file_ids E s r) \<longleftrightarrow> (\<exists>p e. Upsert p e \<in> set (rev_changes E s r) \<and> te_kind e = KBlob \<and> te_id e = i)"
proof -
  have "file_id ch = Some i \<longleftrightarrow> (\<exists>p e. ch = Upsert p e \<and> te_kind e = KBlob \<and> te_id e = i)" for ch by (cases ch) auto
  then show ?thesis by (auto simp: file_ids_def in_map_filter)
qed

lemma tree_of_origin:
  assumes "history_inv E s" and "r \<le> r_current_rev s" and "map_of (tree_of E s r) q = Some e"
  shows "\<exists>k. 0 < k \<and> k \<le> r \<and> Upsert q e \<in> set (rev_changes E s k)"
  using assms(2,3)
proof (induction r)
  case (Suc r)
  have step: "map_of (apply_changes chs m) q = Some e \<Longrightarrow> map_of m q = Some e \<or> Upsert q e \<in> set chs" for chs m
  proof (induction chs arbitrary: m)
    case (Cons ch chs)
    then show ?case by (cases ch) (fastforce simp: apply_changes_def omap_simps split: if_splits)+
  qed (simp add: apply_changes_def)
  have "map_of (tree_of E s r) q = Some e \<or> Upsert q e \<in> set (rev_changes E s (Suc r))"
    using tree_of_changes [OF assms(1) _ Suc.prems(1)] Suc.prems(2) step by simp
  with Suc show ?case by (meson Suc_leD le_SucI le_refl zero_less_Suc)
qed simp

lemma mirrored_file:
  assumes "history_inv E s" and "mirrored E s t n" and "n \<le> r_current_rev s" and "r \<le> n"
  shows "file_of E t r q = file_of E s r q"
proof -
  have tr: "tree_of E t r = tree_of E s r" using assms(2,4) by (simp add: mirrored_def)
  have "blob_at E t (te_id e) = blob_at E s (te_id e)" if e: "map_of (tree_of E s r) q = Some e" "te_kind e = KBlob" for e
  proof -
    obtain k where "0 < k" "k \<le> r" "Upsert q e \<in> set (rev_changes E s k)"
      using tree_of_origin [OF assms(1) _ e(1)] assms(3,4) by auto
    then have "te_id e \<in> set (file_ids E s k)" "0 < k" "k \<le> n" using e(2) assms(4) by (auto simp: file_ids_iff)
    with assms(2) show ?thesis by (simp add: mirrored_def list_all_iff)
  qed
  with tr show ?thesis by (auto simp: file_of_def blob_at_eq split: option.split)
qed

section \<open>Copying one revision\<close>

definition revision_for :: "'c repo_env \<Rightarrow> 'c repo \<Rightarrow> nat \<Rightarrow> revision_data \<Rightarrow> bool" where
  "revision_for E s r rd \<longleftrightarrow> rd_revision rd = r \<and> changes (rd_delta_tree rd) = rev_changes E s r \<and>
     rd_objects rd = List.map_filter (change_blob E s) (rev_changes E s r) \<and>
     commit_info E s r = Some (rd_author rd, rd_message rd, rd_timestamp rd) \<and> verify_content_hash E rd"

definition replayed :: "'c repo_env \<Rightarrow> revision_data \<Rightarrow> 'c repo \<Rightarrow> 'c repo \<times> (repo_error + nat)" where
  "replayed E rd t = commit_sync E (rd_author rd) (rd_message rd) (rd_timestamp rd)
     (fold (apply_edit E) (map (replay_edit (rd_objects rd)) (changes (rd_delta_tree rd))) (fold (store_blob E) (rd_objects rd) t))"

lemma sent_objects:
  assumes "revision_for E s r rd"
  shows "\<forall>x \<in> set (rd_objects rd). blob_at E s (fst x) = Some (snd x)"
    and "fst ` set (rd_objects rd) \<subseteq> set (file_ids E s r)"
    and "list_all (blob_sound E s) (file_ids E s r) \<Longrightarrow> list_all (sent E (rd_objects rd)) (rev_changes E s r)"
proof -
  let ?objs = "rd_objects rd"
  have mem: "x \<in> set ?objs \<longleftrightarrow> (\<exists>ch \<in> set (rev_changes E s r). change_blob E s ch = Some x)" for x
    using assms by (simp add: revision_for_def in_map_filter)
  have cb: "change_blob E s ch = Some x \<longleftrightarrow> (\<exists>p e. ch = Upsert p e \<and> te_kind e = KBlob \<and> te_id e = fst x \<and> blob_at E s (te_id e) = Some (snd x))" for ch x
    by (cases ch; cases x) (auto simp: change_blob_def)
  have from_source: "\<exists>p e. Upsert p e \<in> set (rev_changes E s r) \<and> te_kind e = KBlob \<and> te_id e = fst x \<and> blob_at E s (fst x) = Some (snd x)"
    if "x \<in> set ?objs" for x
  proof -
    obtain ch where "ch \<in> set (rev_changes E s r)" "change_blob E s ch = Some x" using mem [of x] \<open>x \<in> set ?objs\<close> by blast
    with cb [of ch x] show ?thesis by metis
  qed
  then show src: "\<forall>x \<in> set ?objs. blob_at E s (fst x) = Some (snd x)" by blast
  show "fst ` set ?objs \<subseteq> set (file_ids E s r)"
    unfolding image_subset_iff file_ids_iff using from_source by blast
  assume sound: "list_all (blob_sound E s) (file_ids E s r)"
  have "sent E ?objs ch" if "ch \<in> set (rev_changes E s r)" for ch
  proof (cases ch)
    case (Upsert p e)
    show ?thesis
    proof (cases "te_kind e = KBlob")
      case True
      then have "te_id e \<in> set (file_ids E s r)" using that Upsert by (auto simp: file_ids_iff)
      with sound obtain d where d: "blob_at E s (te_id e) = Some d" "from_data E d = te_id e"
        by (auto simp: list_all_iff blob_sound_def split: option.splits)
      with that Upsert True have "(te_id e, d) \<in> set ?objs" using mem [of "(te_id e, d)"] cb [of ch "(te_id e, d)"] by auto
      then obtain d' where d': "map_of ?objs (te_id e) = Some d'" by (metis weak_map_of_SomeI)
      with src map_of_SomeD [OF d'] d(1) have "d' = d" by fastforce
      with d' d(2) Upsert show ?thesis by simp
    qed (simp add: Upsert)
  qed simp
  then show "list_all (sent E ?objs) (rev_changes E s r)" by (simp add: list_all_iff)
qed

lemma commit_sync_accepted:
  assumes "repo_inv E u" and "hooks_accept E"
  obtains t' chs where "commit_sync E a m ts u = (t', Inr (Suc (r_current_rev u)))" "commits_as E chs a m ts u t'"
  using repo_inv_tables [OF assms(1)]
proof (cases rule: commit_sync_result [where E = E and a = a and m = m and ts = ts])
  case (rejected h chs)
  with assms(2) show ?thesis by (simp add: hooks_accept_def)
next
  case (committed chs s')
  then show ?thesis using that by blast
qed

lemma fold_commits: "r_commits (fold (apply_edit E) es t) = r_commits t"
proof (induction es arbitrary: t)
  case (Cons e es)
  then show ?case using same_history_edit [of t E e] by (simp add: same_history_def)
qed simp

text \<open>The destination with the changes of a revision applied, before its commit.\<close>

abbreviation edited_rev :: "'c repo_env \<Rightarrow> tree_change list \<Rightarrow> revision_data \<Rightarrow> 'c repo \<Rightarrow> 'c repo" where
  "edited_rev E chs rd t \<equiv> fold (apply_edit E) (map (replay_edit (rd_objects rd)) chs) (fold (store_blob E) (rd_objects rd) t)"

lemma mirrored_work:
  assumes "repo_inv E t" and "mirrored E s t n"
  shows "work t = tree_of E s n"
proof (rule omap_eqI)
  show "omap_ok (work t)" by (rule work_ok [OF repo_inv_tables [OF assms(1)]])
  show "map_of (work t) = map_of (tree_of E s n)"
    using assms pend_Nil [of t] by (simp add: repo_inv_def work_inv_def mirrored_def)
qed simp

lemma replay_sent: "rev_syncable E s r \<Longrightarrow> revision_for E s r rd \<Longrightarrow> list_all (sent E (rd_objects rd)) (rev_changes E s r)"
  using sent_objects(3) [of E s r rd] by (simp add: rev_syncable_def)

lemma replay_edited:
  assumes "history_inv E s" "changes_inv E s" "Suc n \<le> r_current_rev s"
    and "rev_syncable E s (Suc n)" and "revision_for E s (Suc n) rd" and "mirror_inv E s t n"
  shows "repo_inv E (edited_rev E (rev_changes E s (Suc n)) rd t)"
    "work (edited_rev E (rev_changes E s (Suc n)) rd t) = tree_of E s (Suc n)"
    "r_current_rev (edited_rev E (rev_changes E s (Suc n)) rd t) = n"
    "tree_of E (edited_rev E (rev_changes E s (Suc n)) rd t) = tree_of E t"
proof -
  let ?v = "fold (store_blob E) (rd_objects rd) t"
  have ri: "repo_inv E t" and m: "mirrored E s t n" using assms(6) by (simp_all add: mirror_inv_def)
  have pend: "pend_of ?v = Map.empty" using m pend_Nil [of t] by (simp add: mirrored_def)
  note wt = mirrored_work [OF ri m]
  have like: "changes_like (work ?v) (rev_changes E s (Suc n))" using assms(4) by (simp add: rev_syncable_def wt)
  have pl: "delta_plain E (rev_changes E s (Suc n))" using assms(2) by (simp add: changes_inv_def)
  have i0: "repo_inv E ?v" using ri by (simp add: store_blobs_inv)
  note e = replay_edits [OF i0 pl replay_sent [OF assms(4,5)] like]
  show "repo_inv E (edited_rev E (rev_changes E s (Suc n)) rd t)"
    "work (edited_rev E (rev_changes E s (Suc n)) rd t) = tree_of E s (Suc n)"
    "r_current_rev (edited_rev E (rev_changes E s (Suc n)) rd t) = n"
    "tree_of E (edited_rev E (rev_changes E s (Suc n)) rd t) = tree_of E t"
    using e pend wt tree_of_changes [OF assms(1) _ assms(3)] m same_history_tree [OF store_blobs_frame(1), of E E "rd_objects rd" t]
    by (simp_all add: mirrored_def)
qed

lemma replay_slot:
  assumes "externals_ok E" and "rev_syncable E s r" and "revision_for E s r rd" and "ids_apart E i" and "slot_free E s t i"
    and "commit_sync E a m ts (edited_rev E (rev_changes E s r) rd t) = (t', x)"
  shows "slot_free E s t' i"
proof -
  note objs = sent_objects [OF assms(3)]
  have "slot_free E s (edited_rev E (rev_changes E s r) rd t) i"
    using store_blobs [OF assms(1) objs(1)] assms(5)
    by (intro edits_slot [OF assms(1) replay_sent [OF assms(2,3)] objs(1) assms(4)]) blast
  moreover have "map_of (r_objects t') i = map_of (r_objects (edited_rev E (rev_changes E s r) rd t)) i"
    using commit_slot [OF assms(4), of a m ts "edited_rev E (rev_changes E s r) rd t"] assms(6) by simp
  ultimately show ?thesis using slot_free_cong by blast
qed

text \<open>A file of the replayed revision is stored, with the content it has in the source.\<close>

lemma replay_new_blob:
  assumes "externals_ok E" and "rev_syncable E s r" and "revision_for E s r rd" and "i \<in> set (file_ids E s r)"
    and "slot_free E s t i" and "slot_free E s t' i" and "objects_kept (fold (store_blob E) (rd_objects rd) t) t'"
  shows "blob_at E t' i = blob_at E s i" and "blob_at E s i \<noteq> None"
proof -
  note objs = sent_objects [OF assms(3)]
  have "blob_sound E s i" using assms(2,4) by (simp_all add: rev_syncable_def list_all_iff)
  then show "blob_at E s i \<noteq> None" by (auto simp: blob_sound_def split: option.splits)
  obtain p e where pe: "Upsert p e \<in> set (rev_changes E s r)" "te_kind e = KBlob" "te_id e = i"
    using assms(4) by (auto simp: file_ids_iff)
  with replay_sent [OF assms(2,3)] have "map_of (rd_objects rd) i \<noteq> None"
    by (auto simp: list_all_iff split: option.splits dest!: bspec [of _ _ "Upsert p e"])
  then have "i \<in> fst ` set (rd_objects rd)" by (metis domI dom_map_of_conv_image_fst option.exhaust)
  with store_blobs [OF assms(1) objs(1), of t i] assms(5) have "map_of (r_objects (fold (store_blob E) (rd_objects rd) t)) i \<noteq> None"
    by auto
  with assms(7) have "map_of (r_objects t') i \<noteq> None" by (auto simp: objects_kept_def)
  with assms(6) show "blob_at E t' i = blob_at E s i" by (auto simp: slot_free_def)
qed

lemma replay_info:
  assumes "externals_ok E" and "revision_for E s (Suc n) rd" and "mirrored E s t n" and "r_current_rev (edited_rev E chs rd t) = n"
    and "commits_as E chs' (rd_author rd) (rd_message rd) (rd_timestamp rd) (edited_rev E chs rd t) t'" and "0 < r" "r \<le> Suc n"
  shows "commit_info E t' r = commit_info E s r"
proof (cases "r = Suc n")
  case True
  from commits_as_commit [OF assms(1,5)] assms(4) obtain c where "get_commit E t' (Suc n) = Some c" "author c = rd_author rd"
    "message c = rd_message rd" "timestamp c = rd_timestamp rd" by metis
  then have "commit_info E t' (Suc n) = Some (rd_author rd, rd_message rd, rd_timestamp rd)" by (simp add: commit_info_def)
  with True assms(2) show ?thesis by (simp add: revision_for_def)
next
  case False
  then have r: "r \<le> n" using assms(7) by simp
  have "get_commit E (edited_rev E chs rd t) r = get_commit E t r"
    using fold_commits [of E "map (replay_edit (rd_objects rd)) chs" "fold (store_blob E) (rd_objects rd) t"]
      store_blobs_frame(1) [of t E "rd_objects rd"]
    by (simp add: get_commit_def load_commit_def same_history_def)
  with commits_as_old_commit [OF assms(5), of r] assms(4) r assms(3,6) show ?thesis by (simp add: commit_info_def mirrored_def)
qed

lemma replay_mirrors_rev:
  assumes src: "history_inv E s" "changes_inv E s" "Suc n \<le> r_current_rev s" and hk: "hooks_accept E"
    and ok: "rev_syncable E s (Suc n)" and rd: "revision_for E s (Suc n) rd" and inv: "mirror_inv E s t n"
  shows "\<exists>t'. replayed E rd t = (t', Inr (Suc n)) \<and> mirror_inv E s t' (Suc n)"
proof -
  let ?chs = "rev_changes E s (Suc n)"
  let ?u = "edited_rev E ?chs rd t"
  have ri: "repo_inv E t" and m: "mirrored E s t n" using inv by (simp_all add: mirror_inv_def)
  have ext: "externals_ok E" by (rule repo_inv_history(3) [OF ri])
  have rdc: "changes (rd_delta_tree rd) = ?chs" using rd by (simp add: revision_for_def)
  note u = replay_edited [OF src ok rd inv]
  obtain t' chs' where c: "commit_sync E (rd_author rd) (rd_message rd) (rd_timestamp rd) ?u = (t', Inr (Suc n))"
    and ca: "commits_as E chs' (rd_author rd) (rd_message rd) (rd_timestamp rd) ?u t'"
    using commit_sync_accepted [OF u(1) hk] u(3) by metis
  note ok' = commit_sync_okI [OF c]
  have kept: "objects_kept (fold (store_blob E) (rd_objects rd) t) t'"
    by (rule objects_kept_trans [OF edits_kept objects_kept_commit [OF ca]])
  have slot: "slot_free E s t' i" if "\<exists>r. i \<in> set (file_ids E s r)" "ids_apart E i" for i
    using inv that by (intro replay_slot [OF ext ok rd that(2) _ c]) (simp add: mirror_inv_def)
  have blobs: "list_all (\<lambda>i. blob_at E s i \<noteq> None \<and> blob_at E t' i = blob_at E s i) (file_ids E s r)" if r: "0 < r" "r \<le> Suc n" for r
    unfolding list_all_iff
  proof
    fix i
    assume i: "i \<in> set (file_ids E s r)"
    show "blob_at E s i \<noteq> None \<and> blob_at E t' i = blob_at E s i"
    proof (cases "r = Suc n")
      case True
      then have new: "i \<in> set (file_ids E s (Suc n))" using i by simp
      then have ap: "ids_apart E i" using ok by (simp add: rev_syncable_def list_all_iff)
      have "slot_free E s t i" using inv ap i by (auto simp: mirror_inv_def)
      from replay_new_blob [OF ext ok rd new this slot kept] ap i show ?thesis by blast
    next
      case False
      then have "r \<le> n" using r(2) by simp
      then have "blob_at E s i \<noteq> None" "blob_at E t i = blob_at E s i" using m r(1) i by (simp_all add: mirrored_def list_all_iff)
      with blob_at_kept [OF objects_kept_trans [OF store_blobs_kept kept], of E i] show ?thesis by (cases "blob_at E s i") simp_all
    qed
  qed
  have tree: "tree_of E t' r = tree_of E s r" if "r \<le> Suc n" for r
    using sqs.cmt_new [OF u(1) ok'] sqs.cmt_old [OF u(1) ok', of r] u m that by (cases "r = Suc n") (simp_all add: mirrored_def)
  have "mirrored E s t' (Suc n)"
    unfolding mirrored_def using sqs.cmt_head [OF u(1) ok'] u(3) ca tree replay_info [OF ext rd m u(3) ca] blobs
    by (simp add: commits_as_def Let_def)
  with sqs.cmt_inv [OF u(1) ok'] slot have "mirror_inv E s t' (Suc n)" by (simp add: mirror_inv_def)
  with c rdc show ?thesis by (auto simp: replayed_def)
qed

section \<open>Replayers\<close>

text \<open>Feeding revisions to a step that may fail, up to its first error.\<close>

fun replay_all :: "(revision_data \<Rightarrow> 's \<Rightarrow> 's \<times> (sync_fail + unit)) \<Rightarrow> revision_data list \<Rightarrow> 's \<Rightarrow> 's \<times> (sync_fail + unit)" where
  "replay_all step [] x = (x, Inr ())"
| "replay_all step (rd # rds) x =
     (case step rd x of (y, Inl e) \<Rightarrow> (y, Inl e) | (y, Inr _) \<Rightarrow> replay_all step rds y)"

text \<open>
  A replayer holds a repository and does with a revision that arrived whole what \<open>replayed\<close> does;
  \<open>ready\<close> is what it needs besides.
\<close>

locale revision_replayer =
  fixes E :: "'c repo_env"
    and repo_of :: "'s \<Rightarrow> 'c repo"
    and ready :: "'s \<Rightarrow> bool"
    and step :: "revision_data \<Rightarrow> 's \<Rightarrow> 's \<times> (sync_fail + unit)"
  assumes step_replays:
    "ready x \<Longrightarrow> verify_content_hash E rd \<Longrightarrow> list_all (sent E (rd_objects rd)) (changes (rd_delta_tree rd)) \<Longrightarrow>
     replayed E rd (repo_of x) = (t, Inr r) \<Longrightarrow> \<exists>y. step rd x = (y, Inr ()) \<and> repo_of y = t \<and> ready y"
begin

lemma step_mirrors:
  assumes "history_inv E s" "changes_inv E s" "Suc n \<le> r_current_rev s" "hooks_accept E" "rev_syncable E s (Suc n)"
    and "revision_for E s (Suc n) rd" and "ready x" and "mirror_inv E s (repo_of x) n"
  shows "\<exists>y. step rd x = (y, Inr ()) \<and> ready y \<and> mirror_inv E s (repo_of y) (Suc n)"
proof -
  obtain t where t: "replayed E rd (repo_of x) = (t, Inr (Suc n))" "mirror_inv E s t (Suc n)"
    using replay_mirrors_rev [OF assms(1-6,8)] by blast
  have "list_all (sent E (rd_objects rd)) (changes (rd_delta_tree rd))"
    using sent_objects(3) [OF assms(6)] assms(5,6) by (simp add: rev_syncable_def revision_for_def)
  with step_replays [OF assms(7) _ _ t(1)] assms(6) t(2) show ?thesis by (auto simp: revision_for_def)
qed

text \<open>A run over the revisions after \<open>n\<close> up to \<open>k\<close> extends a mirror of \<open>n\<close> revisions to one of \<open>k\<close>.\<close>

lemma run_mirrors:
  assumes "history_inv E s" "changes_inv E s" "k \<le> r_current_rev s" "hooks_accept E"
    and "list_all (rev_syncable E s) [Suc n..<Suc k]" and "list_all2 (revision_for E s) [Suc n..<Suc k] rds"
    and "ready x" and "mirror_inv E s (repo_of x) n" and "n \<le> k"
  shows "\<exists>y. replay_all step rds x = (y, Inr ()) \<and> ready y \<and> mirror_inv E s (repo_of y) k"
  using assms(5-)
proof (induction "k - n" arbitrary: n rds x)
  case 0
  then show ?case by auto
next
  case (Suc d)
  have u: "[Suc n..<Suc k] = Suc n # [Suc (Suc n)..<Suc k]" using Suc.hyps(2) by (intro upt_conv_Cons) simp
  obtain rd rds' where rds: "rds = rd # rds'" "revision_for E s (Suc n) rd" "list_all2 (revision_for E s) [Suc (Suc n)..<Suc k] rds'"
    using Suc.prems(2) unfolding u by (auto simp: list_all2_Cons1)
  have ok: "rev_syncable E s (Suc n)" "list_all (rev_syncable E s) [Suc (Suc n)..<Suc k]" using Suc.prems(1) unfolding u by simp_all
  have n: "Suc n \<le> k" "d = k - Suc n" using Suc.hyps(2) by simp_all
  obtain y where y: "step rd x = (y, Inr ())" "ready y" "mirror_inv E s (repo_of y) (Suc n)"
    using step_mirrors [OF assms(1,2) _ assms(4) ok(1) rds(2) Suc.prems(3,4)] n(1) assms(3) by auto
  from Suc.hyps(1) [OF n(2) ok(2) rds(3) y(2,3) n(1)] y(1) rds(1) show ?case by simp
qed

end

section \<open>The three replayers\<close>

lemma replayed_changes:
  assumes "list_all (sent E (rd_objects rd)) (changes (rd_delta_tree rd))"
  shows "commit_sync E (rd_author rd) (rd_message rd) (rd_timestamp rd)
      (replay_changes E fill rd (fold (store_blob E) (rd_objects rd) t)) = replayed E rd t"
  using replay_changes_edits [OF assms] by (simp add: replay_changes_def replayed_def)

text \<open>Counting does not change what is stored.\<close>

lemma transfer_objects_store: "fst (fold (transfer_object E Z) objs (s, st)) = fold (store_blob E) objs s"
  by (induction objs arbitrary: s st) (simp_all add: transfer_object_def store_blob_def store_object_def)

lemma pull_objects_store: "fst (fold (pull_object E) objs (s, n)) = fold (store_blob E) objs s"
  by (induction objs arbitrary: s n) (simp_all add: pull_object_def store_blob_def store_object_def)

interpretation transfer: revision_replayer E fst "\<lambda>_. True" "transfer_rev E Z"
  for E :: "'c repo_env" and Z :: "'z zstd_scheme"
proof
  fix x :: "'c repo \<times> transfer_stats" and rd t r
  assume snt: "list_all (sent E (rd_objects rd)) (changes (rd_delta_tree rd))" and rp: "replayed E rd (fst x) = (t, Inr r)"
  obtain s st where x: "x = (s, st)" by (cases x)
  obtain s1 st1 where f: "fold (transfer_object E Z) (rd_objects rd)
      (s, st\<lparr>tf_raw := tf_raw st + sum_list (map (length \<circ> snd) (rd_objects rd))\<rparr>) = (s1, st1)" by (meson surj_pair)
  then have "s1 = fold (store_blob E) (rd_objects rd) s" by (metis fst_conv transfer_objects_store)
  with replayed_changes [OF snt, of False s] rp x f
  show "\<exists>y. transfer_rev E Z rd x = (y, Inr ()) \<and> fst y = t \<and> True" by (simp add: transfer_rev_def)
qed

lemma save_revprops_fields [simp]:
  "st_repo (save_revprops N r props S) = st_repo S" "st_dir (save_revprops N r props S) = st_dir S"
  by (simp_all add: save_revprops_def)

interpretation pulling: revision_replayer E "\<lambda>x. st_repo (fst x)" "\<lambda>_. True" "pull_rev E N"
  for E :: "'c repo_env" and N :: net_env
proof
  fix x :: "'c site \<times> pull_counts" and rd t r
  assume v: "verify_content_hash E rd" and snt: "list_all (sent E (rd_objects rd)) (changes (rd_delta_tree rd))"
    and rp: "replayed E rd (st_repo (fst x)) = (t, Inr r)"
  obtain S n where x: "x = (S, n)" by (cases x)
  obtain s1 n1 where f: "fold (pull_object E) (rd_objects rd) (st_repo S, n) = (s1, n1)" by (meson surj_pair)
  then have "s1 = fold (store_blob E) (rd_objects rd) (st_repo S)" by (metis fst_conv pull_objects_store)
  with replayed_changes [OF snt, of False "st_repo S"] rp x f v
  show "\<exists>y. pull_rev E N rd x = (y, Inr ()) \<and> st_repo (fst y) = t \<and> True" by (simp add: pull_rev_def)
qed

text \<open>The local synchronisation copies every revision when empty ones are allowed.\<close>

lemma checkpoint_fields [simp]:
  "sd_config (snd (set_checkpoint J r (state, d))) = sd_config d"
  "source_uuid (fst (set_checkpoint J r (state, d))) = source_uuid state"
  by (simp_all add: set_checkpoint_def state_save_def Let_def)

interpretation local: revision_replayer E "\<lambda>x. st_repo (fst x)"
  "\<lambda>x. copies_empty N (st_dir (fst x)) \<and> source_uuid (fst (snd x)) = uuid" "\<lambda>rd. sync_apply E N (rd_revision rd) rd"
  for E :: "'c repo_env" and N :: net_env and uuid :: string
proof
  fix x :: "'c site \<times> sync_state \<times> sync_counts" and rd t r
  assume e: "copies_empty N (st_dir (fst x)) \<and> source_uuid (fst (snd x)) = uuid" and v: "verify_content_hash E rd"
    and snt: "list_all (sent E (rd_objects rd)) (changes (rd_delta_tree rd))" and rp: "replayed E rd (st_repo (fst x)) = (t, Inr r)"
  obtain S state n where x: "x = (S, state, n)" by (cases x)
  obtain state1 d where c: "set_checkpoint (sync_files N) (rd_revision rd) (state, st_dir S) = (state1, d)" by (meson surj_pair)
  then have "copies_empty N d = copies_empty N (st_dir S)" "source_uuid state1 = source_uuid state"
    using checkpoint_fields [of "sync_files N" "rd_revision rd" state "st_dir S"] by (simp_all add: copies_empty_def config_load_def)
  moreover have "apply_revision_data E N rd True S = (save_revprops N r (rd_properties rd) (S\<lparr>st_repo := t\<rparr>), Inr (Some r))"
    using replayed_changes [OF snt, of True "st_repo S"] rp x v by (simp add: apply_revision_data_def)
  ultimately show "\<exists>y. sync_apply E N (rd_revision rd) rd x = (y, Inr ()) \<and> st_repo (fst y) = t \<and>
      (copies_empty N (st_dir (fst y)) \<and> source_uuid (fst (snd y)) = uuid)"
    using e x c by (simp add: sync_apply_def Let_def)
qed

end
