(* ===== verification/Sync_Properties.thy ===== *)
theory Sync_Properties
  imports Sync_Mirror
begin

text \<open>
  What a synchronisation achieves: the revisions the server builds and the tool extracts are the
  same and faithful; a local synchronisation and a pull over HTTP, in batches, make the destination
  a mirror of the source and leave a state from which the next one resumes; the comparison of two
  repositories then finds nothing. Raw objects travel unchanged, but a repair stores them wrapped.
\<close>

section \<open>Reading a revision at the source\<close>

definition revprops_ok :: "net_env \<Rightarrow> 'c site \<Rightarrow> nat \<Rightarrow> bool" where
  "revprops_ok N S r \<longleftrightarrow> (case map_of (st_revprops S) r of None \<Rightarrow> True | Some txt \<Rightarrow> parse_props N txt \<noteq> None)"

lemma build_revision:
  assumes "history_inv E (st_repo S)" and "changes_inv E (st_repo S)" and "0 < r" and "r \<le> r_current_rev (st_repo S)"
  shows "\<exists>rd. build_revision_data E N S r = Inr rd \<and> revision_for E (st_repo S) r rd \<and>
    (revprops_ok N S r \<longrightarrow> extract_revision_data E N S r = Inr rd)"
proof -
  let ?s = "st_repo S"
  obtain d where d: "delta_at E ?s r = Some d" using history_invD(1) [OF assms(1,3,4)] by blast
  obtain c where c: "get_commit E ?s r = Some c" using assms(2,4) by (auto simp: changes_inv_def)
  then have lc: "load_commit E ?s r = Inr c" by (cases "load_commit E ?s r") (simp_all add: get_commit_def)
  then obtain bs where bs: "map_of (r_commits ?s) r = Some bs" "de_commit E bs = Some c"
    by (auto simp: load_commit_def rbind_eq_Inr ok_or_def split: option.splits)
  obtain ds where ds: "map_of (r_deltas ?s) r = Some ds" "de_delta E ds = Some d"
    using d by (auto simp: delta_at_def Option.bind_eq_Some_conv)
  have rc: "rev_changes E ?s r = changes d" using d assms(3) by (simp add: rev_changes_def)
  have "revision_for E ?s r (revision_of E ?s r c d props)" for props
    using c by (simp add: revision_for_def revision_of_def Let_def rc commit_info_def verify_content_hash_def)
  then show ?thesis
    using lc bs ds load_delta_ok [OF d]
    by (cases "map_of (st_revprops S) r")
      (auto simp: build_revision_data_def extract_revision_data_def Let_def revprops_ok_def)
qed

lemma extract_revisions:
  assumes "history_inv E (st_repo S)" and "changes_inv E (st_repo S)"
    and "\<forall>r \<in> set rs. 0 < r \<and> r \<le> r_current_rev (st_repo S) \<and> revprops_ok N S r"
  shows "\<exists>rds. list_all2 (revision_for E (st_repo S)) rs rds \<and> list_all2 (\<lambda>r rd. extract_revision_data E N S r = Inr rd) rs rds"
  using assms(3)
proof (induction rs)
  case (Cons r rs)
  with build_revision [OF assms(1,2), of r N] obtain rd rds where "revision_for E (st_repo S) r rd" "extract_revision_data E N S r = Inr rd"
    "list_all2 (revision_for E (st_repo S)) rs rds" "list_all2 (\<lambda>r rd. extract_revision_data E N S r = Inr rd) rs rds"
    by auto
  then show ?case by (intro exI [of _ "rd # rds"]) simp
qed simp

lemma build_revisions_ok:
  assumes "history_inv E (st_repo S)" and "changes_inv E (st_repo S)"
    and "\<forall>r \<in> set rs. 0 < r \<and> r \<le> r_current_rev (st_repo S)"
  shows "\<exists>rds. list_all2 (revision_for E (st_repo S)) rs rds \<and> build_revisions E N S rs = Inr rds"
  using assms(3)
proof (induction rs)
  case (Cons r rs)
  with build_revision [OF assms(1,2), of r N] obtain rd rds where "revision_for E (st_repo S) r rd" "build_revision_data E N S r = Inr rd"
    "list_all2 (revision_for E (st_repo S)) rs rds" "build_revisions E N S rs = Inr rds"
    by auto
  then show ?case by (intro exI [of _ "rd # rds"]) simp
qed simp

section \<open>Loops as replays\<close>

lemma sync_loop_replay:
  assumes "list_all2 (revision_for E (st_repo S)) rs rds" and "list_all2 (\<lambda>r rd. extract_revision_data E N S r = Inr rd) rs rds"
  shows "sync_loop E N S rs x = replay_all (\<lambda>rd. sync_apply E N (rd_revision rd) rd) rds x"
  using assms
proof (induction rs rds arbitrary: x rule: list_all2_induct)
  case (Cons r rs rd rds)
  then have "rd_revision rd = r" by (simp add: revision_for_def)
  with Cons show ?case by (simp split: prod.split sum.split)
qed simp

lemma transfer_loop_replay:
  assumes "list_all2 (\<lambda>r rd. extract_revision_data E N S r = Inr rd) rs rds"
  shows "transfer_loop E N Z S rs x = replay_all (transfer_rev E Z) rds x"
  using assms by (induction rs rds arbitrary: x rule: list_all2_induct) (simp_all split: prod.split sum.split)

lemma pull_revs_replay: "pull_revs E N rds x = replay_all (pull_rev E N) rds x"
  by (induction rds arbitrary: x) (simp_all split: prod.split sum.split)

lemma mirror_inv_batch: "mirror_inv E s (t\<lparr>r_batch_mode := b\<rparr>) n = mirror_inv E s t n"
proof -
  have [simp]: "tree_of E (t\<lparr>r_batch_mode := b\<rparr>) = tree_of E t" by (rule tree_of_cong) simp
  show ?thesis
    by (simp add: mirror_inv_def repo_inv_def history_inv_def work_inv_def tables_ok_def work_def conn_build_tree_def
        delta_at_def mirrored_def commit_info_def get_commit_def load_commit_def blob_at_eq slot_free_def)
qed

section \<open>Local synchronisation\<close>

lemma reachable_source:
  assumes "reachable E s"
  shows "history_inv E s" "changes_inv E s" "read_head_rev s = r_current_rev s" "r_current_rev s < 2 ^ 64"
  using reachable_life [OF assms] reachable_changes [OF assms] parse_head_show [of "r_current_rev s"]
  by (simp_all add: life_inv_def repo_inv_def head_saved_def read_head_rev_def)

lemma mirror_invI:
  "repo_inv E t \<Longrightarrow> mirrored E s t n \<Longrightarrow> slots_free E s t \<Longrightarrow> mirror_inv E s t n"
  by (auto simp: mirror_inv_def slots_free_def list_all_iff)

lemma finish_sync_state:
  assumes "net_ok N"
  shows "\<exists>st. state_load (sync_files N) (st_dir (finish_sync N now e state dst)) = Inr (Some st) \<and>
     effective_start_rev st = to_rev e \<and> source_uuid st = source_uuid state \<and> \<not> sync_in_progress st"
    and "st_repo (finish_sync N now e state dst) = st_repo dst"
  using assms by (auto simp: finish_sync_def complete_sync_def state_save_def state_load_def net_ok_def sync_json_ok_def
      effective_start_rev_def Let_def)

text \<open>What holds of a destination that mirrors the source up to its head and is ready for the next synchronisation.\<close>

definition in_step :: "'c repo_env \<Rightarrow> net_env \<Rightarrow> 'c repo \<Rightarrow> 'c site \<Rightarrow> nat \<Rightarrow> bool" where
  "in_step E N s T n \<longleftrightarrow> mirrored E s (st_repo T) n \<and>
     (case state_load (sync_files N) (st_dir T) of
        Inr (Some st) \<Rightarrow> effective_start_rev st = n \<and> source_uuid st = r_uuid s
      | _ \<Rightarrow> False)"

lemma local_sync_runs:
  assumes net: "net_ok N" and src: "reachable E (st_repo S)" and inv: "mirror_inv E (st_repo S) (st_repo T) n"
    and step: "in_step E N (st_repo S) T n" and hk: "hooks_accept E" and ce: "copies_empty N (st_dir T)"
    and ok: "list_all (rev_syncable E (st_repo S)) [Suc n..<Suc (r_current_rev (st_repo S))]"
    and rp: "list_all (revprops_ok N S) [Suc n..<Suc (r_current_rev (st_repo S))]" and le: "n \<le> r_current_rev (st_repo S)"
  shows "\<exists>T' res. local_sync E N now el S T = (T', Inr res) \<and> mirror_inv E (st_repo S) (st_repo T') (r_current_rev (st_repo S)) \<and>
    in_step E N (st_repo S) T' (r_current_rev (st_repo S)) \<and> (sn_up_to_date res \<or> sn_to_rev res = r_current_rev (st_repo S))"
proof -
  let ?s = "st_repo S" let ?h = "r_current_rev ?s"
  note s = reachable_source [OF src]
  obtain st where st: "state_load (sync_files N) (st_dir T) = Inr (Some st)" "effective_start_rev st = n" "source_uuid st = r_uuid ?s"
    using step by (auto simp: in_step_def split: sum.splits option.splits)
  have v: "verify_source st (r_uuid ?s) = Inr ()" using st(3) by (simp add: verify_source_def)
  show ?thesis
  proof (cases "n = ?h")
    case True
    with st v s(3) inv step show ?thesis by (simp add: local_sync_def Let_def)
  next
    case False
    obtain rds where rds: "list_all2 (revision_for E ?s) [Suc n..<Suc ?h] rds"
      "list_all2 (\<lambda>r rd. extract_revision_data E N S r = Inr rd) [Suc n..<Suc ?h] rds"
      using extract_revisions [OF s(1,2), of "[Suc n..<Suc ?h]" N] rp by (auto simp: list_all_iff simp del: upt_Suc)
    let ?st1 = "st\<lparr>source_head_rev := ?h, sync_in_progress := True\<rparr>"
    let ?d = "state_save (sync_files N) ?st1 (st_dir T)"
    let ?x = "(map_repo begin_batch (T\<lparr>st_dir := ?d\<rparr>), ?st1, no_counts)"
    have b: "begin_sync (sync_files N) (st\<lparr>source_head_rev := ?h\<rparr>, st_dir T) = (?st1, ?d)" by (simp add: begin_sync_def Let_def)
    have rd: "copies_empty N (st_dir (fst ?x)) \<and> source_uuid (fst (snd ?x)) = r_uuid ?s"
      using ce st(3) by (simp add: copies_empty_def config_load_def map_repo_def state_save_def)
    have mi: "mirror_inv E ?s (st_repo (fst ?x)) n" using inv by (simp add: map_repo_def begin_batch_def mirror_inv_batch)
    obtain y where y: "sync_loop E N S [Suc n..<Suc ?h] ?x = (y, Inr ())" "source_uuid (fst (snd y)) = r_uuid ?s"
      "mirror_inv E ?s (st_repo (fst y)) ?h"
      using local.run_mirrors [OF s(1,2) order_refl hk ok rds(1) rd mi le] sync_loop_replay [OF rds] by auto
    obtain D st2 cn where yy: "y = (D, st2, cn)" by (cases y)
    let ?e = "\<lparr>from_rev = Suc n, to_rev = ?h, le_timestamp = now, objects_transferred = sy_objects cn,
      bytes_transferred = sy_bytes cn, duration_ms = el, le_success = True, le_error = None\<rparr>"
    let ?T = "finish_sync N now ?e st2 (map_repo end_batch D)"
    have m: "mirror_inv E ?s (st_repo ?T) ?h"
      using y(3) by (simp add: yy finish_sync_state(2) [OF net] map_repo_def end_batch_def mirror_inv_batch)
    have "local_sync E N now el S T = (?T, Inr \<lparr>sn_from_rev = Suc n, sn_to_rev = ?h, sn_counts = cn, sn_duration_ms = el, sn_up_to_date = False\<rparr>)"
      using st v s(3) False le b y(1) yy by (simp add: local_sync_def Let_def del: upt_Suc)
    moreover have "in_step E N ?s ?T ?h"
      using finish_sync_state(1) [OF net, of now ?e st2 "map_repo end_batch D"] m y(2) yy by (auto simp: in_step_def mirror_inv_def)
    ultimately show ?thesis using m by force
  qed
qed

section \<open>Pulling from a server\<close>

text \<open>A connection to the server of a site; \<open>/sync\<close> precedes the path on the wire.\<close>

definition site_http :: "'c repo_env \<Rightarrow> net_env \<Rightarrow> 'c site \<Rightarrow> http" where
  "site_http E N S path query = Some (snd (handle_sync_request E N path ''GET'' [] query S))"

definition sync_enabled :: "net_env \<Rightarrow> 'c site \<Rightarrow> bool" where
  "sync_enabled N S \<longleftrightarrow> (case config_load (sync_files N) (st_dir S) of Inr c \<Rightarrow> sc_enabled c | Inl _ \<Rightarrow> True)"

lemma site_http_routes:
  assumes "sync_enabled N S"
  shows "site_http E N S ''/info'' q = Some (handle_info N S)" "site_http E N S ''/revs'' q = Some (handle_revs E N q S)"
    "site_http E N S ''/delta'' q = Some (handle_delta E N q S)" "site_http E N S ''/objects'' q = Some (handle_objects E N q S)"
  using assms by (auto simp: site_http_def handle_sync_request_def sync_enabled_def Let_def split: sum.splits)

lemma remote_info:
  assumes "net_ok N" and "sync_enabled N S"
  shows "\<exists>i. get_info N (site_http E N S) = Inr i \<and> ei_uuid i = r_uuid (st_repo S) \<and> ei_head_rev i = r_current_rev (st_repo S) \<and>
    ei_protocol_version i = SYNC_PROTOCOL_VERSION"
  using assms by (simp add: get_info_def fetch_def site_http_routes handle_info_def json_ok_def json_reply_def net_ok_def)

lemma remote_revs:
  assumes "net_ok N" and "sync_enabled N S" and "changes_inv E (st_repo S)" and "f \<le> t" and "t \<le> r_current_rev (st_repo S)"
    and "r_current_rev (st_repo S) < 2 ^ 64"
  shows "\<exists>revs. get_revisions N (site_http E N S) f t = Inr revs \<and> map rs_rev revs = [f..<Suc t]"
proof -
  have q: "query_rev ''from'' 1 (parse_query (range_query f t)) = f"
    "query_rev ''to'' d (parse_query (range_query f t)) = t" for d
    using range_query_revs assms(4-6) by simp_all
  have "map rs_rev (List.map_filter (rev_summary E (st_repo S)) rs) = rs" if "\<forall>r \<in> set rs. r \<le> t" for rs
    using that
  proof (induction rs)
    case (Cons r rs)
    then have "get_commit E (st_repo S) r \<noteq> None" using assms(3,5) by (simp add: changes_inv_def)
    then obtain c where "load_commit E (st_repo S) r = Inr c" by (cases "load_commit E (st_repo S) r") (simp_all add: get_commit_def)
    with Cons show ?case by (simp add: List.map_filter_simps rev_summary_def)
  qed (simp add: List.map_filter_simps)
  then have "map rs_rev (List.map_filter (rev_summary E (st_repo S)) [f..<Suc t]) = [f..<Suc t]" by simp
  with q assms(1,2,4) show ?thesis
    by (simp add: get_revisions_def fetch_def site_http_routes handle_revs_def json_ok_def json_reply_def net_ok_def Let_def del: upt_Suc)
qed

lemma remote_delta:
  assumes "net_ok N" and "sync_enabled N S" and "history_inv E (st_repo S)" and "changes_inv E (st_repo S)"
    and "0 < f" and "f \<le> t" and "t \<le> r_current_rev (st_repo S)" and "r_current_rev (st_repo S) < 2 ^ 64" and "t - f < MAX_DELTA_RANGE"
  shows "\<exists>rds. get_delta N (site_http E N S) f t = Inr rds \<and> list_all2 (revision_for E (st_repo S)) [f..<Suc t] rds"
proof -
  have q: "query_rev ''from'' 1 (parse_query (range_query f t)) = f"
    "query_rev ''to'' d (parse_query (range_query f t)) = t" for d
    using range_query_revs assms(6-8) by simp_all
  have r: "\<not> range_len f t > MAX_DELTA_RANGE" using assms(9) by (simp add: range_len_def MAX_DELTA_RANGE_def)
  obtain rds where rds: "list_all2 (revision_for E (st_repo S)) [f..<Suc t] rds" "build_revisions E N S [f..<Suc t] = Inr rds"
    using build_revisions_ok [OF assms(3,4), of "[f..<Suc t]" N] assms(5,7) by (auto simp del: upt_Suc)
  with q r assms(1,2,6) show ?thesis
    by (simp add: get_delta_def fetch_def site_http_routes handle_delta_def json_ok_def json_reply_def net_ok_def Let_def del: upt_Suc)
qed

lemma pull_loop_mirrors:
  assumes "net_ok N" and "sync_enabled N S" and "reachable E (st_repo S)" and "hooks_accept E"
    and "list_all (rev_syncable E (st_repo S)) [Suc n..<Suc (r_current_rev (st_repo S))]"
    and "mirror_inv E (st_repo S) (st_repo D) n" and "n \<le> r_current_rev (st_repo S)"
  shows "\<exists>D' st' c'. pull_loop E N (site_http E N S) (r_current_rev (st_repo S)) (Suc n) (D, st, c) = ((D', st', c'), Inr ()) \<and>
    mirror_inv E (st_repo S) (st_repo D') (r_current_rev (st_repo S)) \<and> source_uuid st' = source_uuid st"
  using assms(5-)
proof (induction "r_current_rev (st_repo S) - n" arbitrary: n D st c rule: less_induct)
  case less
  let ?s = "st_repo S" let ?h = "r_current_rev ?s" and ?http = "site_http E N S"
  note s = reachable_source [OF assms(3)]
  show ?case
  proof (cases "n = ?h")
    case True
    with less.prems show ?thesis by (simp add: pull_loop.simps)
  next
    case False
    let ?e = "min (Suc n + 100 - 1) ?h"
    have e: "n < ?e" "?e \<le> ?h" "?e - Suc n < MAX_DELTA_RANGE" using less.prems(3) False by (auto simp: MAX_DELTA_RANGE_def)
    obtain revs where revs: "get_revisions N ?http (Suc n) ?e = Inr revs" "map rs_rev revs = [Suc n..<Suc ?e]"
      using remote_revs [OF assms(1,2) s(2) _ e(2) s(4), of "Suc n"] e(1) by auto
    have ne: "revs \<noteq> []" using arg_cong [OF revs(2), of length] e(1) by auto
    obtain rds where rds: "get_delta N ?http (Suc n) ?e = Inr rds" "list_all2 (revision_for E ?s) [Suc n..<Suc ?e] rds"
      using remote_delta [OF assms(1,2) s(1,2) _ _ e(2) s(4) e(3)] e(1) by auto
    have split: "[Suc n..<Suc ?h] = [Suc n..<Suc ?e] @ [Suc ?e..<Suc ?h]"
      using upt_add_eq_append [of "Suc n" "Suc ?e" "?h - ?e"] e(1,2) by (simp del: upt_Suc)
    have ok: "list_all (rev_syncable E ?s) [Suc n..<Suc ?e]" "list_all (rev_syncable E ?s) [Suc ?e..<Suc ?h]"
      using less.prems(1) unfolding split by simp_all
    obtain y where y: "pull_revs E N rds (D, c) = (y, Inr ())" "mirror_inv E ?s (st_repo (fst y)) ?e"
      using pulling.run_mirrors [OF s(1,2) e(2) assms(4) ok(1) rds(2), of "(D, c)" N] less.prems(2) e(1)
      by (auto simp: pull_revs_replay)
    obtain D1 c1 where yy: "y = (D1, c1)" by (cases y)
    let ?st1 = "st\<lparr>checkpoint_rev := Some ?e\<rparr>"
    let ?D1 = "D1\<lparr>st_dir := state_save (sync_files N) ?st1 (st_dir D1)\<rparr>"
    have step: "pull_loop E N ?http ?h (Suc n) (D, st, c) = pull_loop E N ?http ?h (Suc ?e) (?D1, ?st1, c1)"
      using less.prems(3) False revs(1) ne rds(1) y(1) yy
      by (simp add: pull_loop.simps [of E N ?http ?h "Suc n"] Let_def set_checkpoint_def)
    have "?h - ?e < ?h - n" using e by linarith
    moreover have "mirror_inv E ?s (st_repo ?D1) ?e" using y(2) yy by simp
    ultimately show ?thesis using less.hyps [of ?e ?D1 ?st1 c1] ok(2) e(2) unfolding step by auto
  qed
qed

lemma pull_opened_runs:
  assumes net: "net_ok N" and en: "sync_enabled N S" and src: "reachable E (st_repo S)"
    and inv: "mirror_inv E (st_repo S) (st_repo T) n" and step: "in_step E N (st_repo S) T n" and hk: "hooks_accept E"
    and ok: "list_all (rev_syncable E (st_repo S)) [Suc n..<Suc (r_current_rev (st_repo S))]" and le: "n \<le> r_current_rev (st_repo S)"
  shows "\<exists>T' res. pull_opened E N (site_http E N S) now el T = (T', Inr res) \<and>
    mirror_inv E (st_repo S) (st_repo T') (r_current_rev (st_repo S)) \<and> in_step E N (st_repo S) T' (r_current_rev (st_repo S))"
proof -
  let ?s = "st_repo S" let ?h = "r_current_rev ?s" and ?http = "site_http E N S"
  obtain st where st: "state_load (sync_files N) (st_dir T) = Inr (Some st)" "effective_start_rev st = n" "source_uuid st = r_uuid ?s"
    using step by (auto simp: in_step_def split: sum.splits option.splits)
  obtain i where i: "get_info N ?http = Inr i" "ei_uuid i = r_uuid ?s" "ei_head_rev i = ?h" using remote_info [OF net en] by blast
  have v: "verify_source st (ei_uuid i) = Inr ()" using st(3) i(2) by (simp add: verify_source_def)
  show ?thesis
  proof (cases "n = ?h")
    case True
    with st v i inv step show ?thesis by (simp add: pull_opened_def Let_def)
  next
    case False
    let ?st1 = "st\<lparr>source_head_rev := ?h, sync_in_progress := True\<rparr>"
    let ?d = "state_save (sync_files N) ?st1 (st_dir T)"
    let ?D = "map_repo begin_batch (T\<lparr>st_dir := ?d\<rparr>)"
    have b: "begin_sync (sync_files N) (st\<lparr>source_head_rev := ?h\<rparr>, st_dir T) = (?st1, ?d)" by (simp add: begin_sync_def Let_def)
    have mi: "mirror_inv E ?s (st_repo ?D) n" using inv by (simp add: map_repo_def begin_batch_def mirror_inv_batch)
    obtain D' st' c' where l: "pull_loop E N ?http ?h (Suc n) (?D, ?st1, no_pulls) = ((D', st', c'), Inr ())"
      "mirror_inv E ?s (st_repo D') ?h" "source_uuid st' = r_uuid ?s"
      using pull_loop_mirrors [OF net en src hk ok mi le, where st = ?st1 and c = no_pulls] st(3) by auto
    let ?e = "\<lparr>from_rev = Suc n, to_rev = ?h, le_timestamp = now, objects_transferred = pc_objects c',
      bytes_transferred = pc_bytes c', duration_ms = el, le_success = True, le_error = None\<rparr>"
    let ?T = "finish_sync N now ?e st' (map_repo end_batch D')"
    have m: "mirror_inv E ?s (st_repo ?T) ?h"
      using l(2) by (simp add: finish_sync_state(2) [OF net] map_repo_def end_batch_def mirror_inv_batch)
    have "pull_opened E N ?http now el T = (?T, Inr \<lparr>pl_from_rev = Suc n, pl_to_rev = ?h, pl_counts = c', pl_duration_ms = el, pl_up_to_date = False\<rparr>)"
      using st v i False le b l(1) by (simp add: pull_opened_def Let_def)
    moreover have "in_step E N ?s ?T ?h"
      using finish_sync_state(1) [OF net, of now ?e st' "map_repo end_batch D'"] m l(3) by (auto simp: in_step_def mirror_inv_def)
    ultimately show ?thesis using m by blast
  qed
qed

text \<open>Opening the destination again changes nothing a mirror depends on.\<close>

lemma reopen_mirror:
  assumes "life_inv E t" and "mirror_inv E s t n"
  shows "\<exists>t'. initialize E now (repo_open E u t) = Some (t', Inr ()) \<and> mirror_inv E s t' n"
proof -
  have l: "repo_inv E t" "head_saved t" "trees_ok E t" "env_ok E" "history_inv E t" using assms(1) by (simp_all add: life_inv_def repo_inv_def)
  have p: "r_pending t = []" using assms(2) by (simp add: mirror_inv_def mirrored_def)
  obtain t' where t': "initialize E now (repo_open E u t) = Some (t', Inr ())" "repo_inv E t'" "r_current_rev t' = r_current_rev t"
    "tree_of E t' = tree_of E t" "r_objects t' = r_objects t" "r_commits t' = r_commits t" "r_pending t' = r_pending t"
  proof (cases "r_tree_entries t = []")
    case True
    show ?thesis by (rule reopen_empty [OF l(4,5,3,2) True p, where now = now and u = u]) (use that p in simp)
  next
    case False
    show ?thesis by (rule reopen_rows [OF l(1,2) False, where now = now and u = u]) (use that in simp)
  qed
  then have "mirror_inv E s t' n" using assms(2)
    by (simp add: mirror_inv_def mirrored_def commit_info_def get_commit_def load_commit_def blob_at_eq slot_free_def)
  with t'(1) show ?thesis by blast
qed

end
