(* ===== verification/Sync_Samples.thy ===== *)
theory Sync_Samples
  imports Sync_Properties Sample_Environment
begin

text \<open>
  Concrete instances for the witnesses of the synchronisation: codecs for the messages, a source
  with one committed file and an empty destination.
\<close>

section \<open>Codecs of the messages\<close>

definition info_code :: "endpoint_info \<Rightarrow> string \<times> nat \<times> nat \<times> string list" where
  "info_code i = (ei_uuid i, ei_head_rev i, ei_protocol_version i, ei_capabilities i)"

definition info_uncode :: "string \<times> nat \<times> nat \<times> string list \<Rightarrow> endpoint_info" where
  "info_uncode = (\<lambda>(u, h, v, c). \<lparr>ei_uuid = u, ei_head_rev = h, ei_protocol_version = v, ei_capabilities = c\<rparr>)"

definition summary_code :: "revision_summary \<Rightarrow> nat \<times> string \<times> string \<times> int \<times> nat" where
  "summary_code r = (rs_rev r, rs_author r, rs_message r, rs_timestamp r, rs_change_count r)"

definition summary_uncode :: "nat \<times> string \<times> string \<times> int \<times> nat \<Rightarrow> revision_summary" where
  "summary_uncode = (\<lambda>(r, a, m, t, n). \<lparr>rs_rev = r, rs_author = a, rs_message = m, rs_timestamp = t, rs_change_count = n\<rparr>)"

definition data_code :: "revision_data \<Rightarrow> (nat \<times> string \<times> string \<times> int) \<times> delta_tree \<times> (object_id \<times> bytes) list \<times>
    (string \<times> string) list \<times> object_id \<times> bool" where
  "data_code r = ((rd_revision r, rd_author r, rd_message r, rd_timestamp r), rd_delta_tree r, rd_objects r, rd_properties r,
     rd_content_hash r, rd_empty_commit r)"

definition data_uncode :: "(nat \<times> string \<times> string \<times> int) \<times> delta_tree \<times> (object_id \<times> bytes) list \<times>
    (string \<times> string) list \<times> object_id \<times> bool \<Rightarrow> revision_data" where
  "data_uncode = (\<lambda>((r, a, m, t), d, os, ps, h, e). \<lparr>rd_revision = r, rd_author = a, rd_message = m, rd_timestamp = t,
     rd_delta_tree = d, rd_objects = os, rd_properties = ps, rd_content_hash = h, rd_empty_commit = e\<rparr>)"

lemma message_codes: "info_uncode (info_code i) = i" "summary_uncode (summary_code r) = r" "data_uncode (data_code d) = d"
  by (simp_all add: info_code_def info_uncode_def summary_code_def summary_uncode_def data_code_def data_uncode_def)

definition sample_net :: net_env where
  "sample_net = \<lparr>
     sync_files = sample_sync,
     json_props = text_enc (enc_list (enc_pair enc_string enc_string)),
     parse_props = (\<lambda>txt. case text_dec (dec_list (dec_pair dec_string dec_string)) txt of
       Some m \<Rightarrow> if omap_ok m then Some m else None | None \<Rightarrow> None),
     props_order = (\<lambda>m. m),
     json_info = enc_pair enc_string (enc_pair enc_nat (enc_pair enc_nat (enc_list enc_string))) \<circ> info_code,
     parse_info = whole (dec_map info_uncode (dec_pair dec_string (dec_pair dec_nat (dec_pair dec_nat (dec_list dec_string))))),
     json_revs = enc_list (enc_pair enc_nat (enc_pair enc_string (enc_pair enc_string (enc_pair enc_int enc_nat))) \<circ> summary_code),
     parse_revs = whole (dec_list (dec_map summary_uncode (dec_pair dec_nat (dec_pair dec_string (dec_pair dec_string (dec_pair dec_int dec_nat)))))),
     json_data = enc_list (enc_pair (enc_pair enc_nat (enc_pair enc_string (enc_pair enc_string enc_int)))
       (enc_pair enc_delta (enc_pair (enc_list (enc_pair enc_oid enc_bytes)) (enc_pair (enc_list (enc_pair enc_string enc_string))
         (enc_pair enc_oid enc_bool)))) \<circ> data_code),
     parse_data = whole (dec_list (dec_map data_uncode (dec_pair (dec_pair dec_nat (dec_pair dec_string (dec_pair dec_string dec_int)))
       (dec_pair dec_delta (dec_pair (dec_list (dec_pair dec_oid dec_bytes)) (dec_pair (dec_list (dec_pair dec_string dec_string))
         (dec_pair dec_oid dec_bool))))))),
     json_config = enc_pair enc_bool (enc_pair enc_nat (enc_pair enc_bool (enc_pair (enc_list enc_string) enc_bool))) \<circ> config_code,
     parse_config = whole (dec_map config_uncode (dec_pair dec_bool (dec_pair dec_nat (dec_pair dec_bool (dec_pair (dec_list dec_string) dec_bool))))),
     json_failure = map char_byte, json_saved = (\<lambda>b msg. map char_byte msg), error_text = (\<lambda>_. []), json_problem = (\<lambda>_. [])\<rparr>"

lemma sample_net_ok: "net_ok sample_net"
proof -
  have "text_dec (dec_list (dec_pair dec_string dec_string)) (text_enc (enc_list (enc_pair enc_string enc_string)) m) = Some m" for m
    by (intro text_dec_enc codec_intros)
  then show ?thesis
    unfolding net_ok_def sample_net_def net_env.simps
    by (intro conjI allI impI sample_sync_ok whole_enc codec_intros codec_oid codec_delta message_codes sync_codes)
      (auto simp: omap_ok_distinct split: option.splits if_splits)
qed

section \<open>A source and a destination\<close>

definition sample_source :: "(nat \<rightharpoonup> tree_map) site" where
  "sample_source = \<lparr>st_repo = sample_one, st_dir = sample_dir, st_revprops = [], st_revprop_hook = None\<rparr>"

definition sample_dest :: "(nat \<rightharpoonup> tree_map) site" where
  "sample_dest = \<lparr>st_repo = sample_repo,
     st_dir = sample_dir\<lparr>sd_state := Some (enc_state sample_sync (state_new ''uuid'' ''url''))\<rparr>, st_revprops = [], st_revprop_hook = None\<rparr>"

lemma sample_sites [simp]: "st_repo sample_source = sample_one" "st_repo sample_dest = sample_repo"
  by (simp_all add: sample_source_def sample_dest_def)

lemma sample_hooks_accept: "hooks_accept sample"
  by (simp add: hooks_accept_def run_pre_commit_def)

lemma enc_tree_ends: "\<exists>xs n. enc_tree t = xs @ enc_nat n"
proof (cases "entries t" rule: rev_cases)
  case Nil
  then show ?thesis by (auto simp: enc_tree_def enc_list_def)
next
  case (snoc es e)
  then have "\<exists>xs. enc_tree t = xs @ enc_nat (unat (te_mode (snd e)))"
    by (simp add: enc_tree_def enc_list_def enc_pair_def Sample_Environment.enc_entry_def Sample_Environment.entry_code_def)
  then show ?thesis by blast
qed

lemma sample_apart: "ids_apart sample (from_data sample [104, 105])"
proof -
  have h: "hd (pad32 [104, 105]) = 105" by (simp add: pad32_def)
  have t: "hd (pad32 (enc_tree t)) = 10" for t using enc_tree_ends [of t] pad32_lf by metis
  have "pad32 (enc_tree t) \<noteq> pad32 [104, 105]" "pad32 (enc_commit c) \<noteq> pad32 [104, 105]" for t c
    using h t [of t] hash_lf(1) [of c] by auto
  then show ?thesis
    by (simp add: ids_apart_def commit_id_def tree_obj_id_def from_data_def sample_def)
qed

lemma sample_file_ids: "file_ids sample sample_one r = (if r = 1 then [from_data sample [104, 105]] else [])"
proof -
  have "rev_changes sample sample_one r = []" if "r \<noteq> 1"
    using repo_inv_history(2) [OF sample_one_facts(1)] sample_one_facts(2) that
    by (cases "r = 0") (simp_all add: rev_changes_def delta_at_def history_inv_def)
  then show ?thesis using sample_rev_changes by (simp add: file_ids_def List.map_filter_simps sample_change_def tree_entry_new_def)
qed

lemma sample_blob: "blob_at sample sample_one (from_data sample [104, 105]) = Some [104, 105]"
proof -
  have "map_of (tree_of sample sample_one 1) ''src/a'' = Some (tree_entry_new ''src/a'' (from_data sample [104, 105]) KBlob 420)"
    using sample_one_facts(5) sample_one_work by simp
  then show ?thesis using sample_file by (simp add: file_of_def blob_at_eq tree_entry_new_def)
qed

lemma sample_syncable: "list_all (rev_syncable sample sample_one) [Suc 0..<Suc (r_current_rev sample_one)]"
  using sample_apart sample_blob sample_rev_changes
  by (simp add: sample_one_facts(2) rev_syncable_def sample_file_ids blob_sound_def sample_change_def)

lemma sample_slots: "slots_free sample sample_one sample_repo"
  using sample_slot [of "[104, 105]"] by (simp add: slots_free_def sample_file_ids slot_free_def)

lemma sample_in_step: "in_step sample sample_net sample_one sample_dest 0"
  using sample_repo_facts(3,4) sample_sync_ok sample_uuids(2)
  by (simp add: in_step_def mirrored_def sample_dest_def state_load_def sync_json_ok_def sample_net_def state_new_def effective_start_rev_def)

lemma sample_configs: "sync_enabled sample_net sample_source" "copies_empty sample_net (st_dir sample_dest)"
  by (simp_all add: sync_enabled_def copies_empty_def sample_source_def sample_dest_def sample_dir_def config_load_def config_default_def)

lemma sample_revprops: "list_all (revprops_ok sample_net sample_source) [Suc 0..<Suc (r_current_rev sample_one)]"
  by (simp add: list_all_iff revprops_ok_def sample_source_def)

end
