(* ===== verification/Foreign_Input.thy ===== *)
theory Foreign_Input
  imports Sqlite_Growth Sync_Samples Dump_Load
begin

text \<open>
  Input from elsewhere: a pull from a server that may answer anything, and the load of an arbitrary
  byte string as a dump. Both always return and can only add to a repository: every revision and
  every object that was there stays, byte for byte, whether the operation succeeds or fails.
\<close>

section \<open>Replayed revisions\<close>

lemma grows_store_blob [simp]: "grows s (store_blob E x s)"
  by (simp add: store_blob_def)

lemma grows_replay_change: "grows s (replay_change E fill objs ch s)"
  by (cases ch) (auto split: option.split)

lemma grows_replay_changes: "grows s (replay_changes E fill rd s)"
  unfolding replay_changes_def by (rule grows_fold) (rule grows_replay_change)

lemma grows_pull_objects: "grows s (fst (fold (pull_object E) xs (s, n)))"
proof (induction xs arbitrary: s n)
  case (Cons x xs)
  obtain s1 n1 where y: "pull_object E x (s, n) = (s1, n1)" by (cases "pull_object E x (s, n)")
  then have "grows s s1" by (auto simp: pull_object_def split: if_splits)
  with Cons.IH [of s1 n1] y show ?case by (auto intro: grows_trans)
qed simp

lemma st_repo_save_revprops [simp]: "st_repo (save_revprops N r ps S) = st_repo S"
  by (simp add: save_revprops_def)

lemma grows_pull_rev: "grows (st_repo D) (st_repo (fst (fst (pull_rev E N rd (D, n)))))"
proof -
  obtain s1 n1 where o: "fold (pull_object E) (rd_objects rd) (st_repo D, n) = (s1, n1)"
    by (cases "fold (pull_object E) (rd_objects rd) (st_repo D, n)")
  have 1: "grows (st_repo D) s1" using grows_pull_objects [of "st_repo D" E "rd_objects rd" n] o by simp
  obtain s2 res where c: "commit_sync E (rd_author rd) (rd_message rd) (rd_timestamp rd) (replay_changes E False rd s1) = (s2, res)"
    by fastforce
  have "grows (replay_changes E False rd s1) s2"
    using grows_commit_sync [of "replay_changes E False rd s1" E "rd_author rd" "rd_message rd" "rd_timestamp rd"] c by simp
  with 1 grows_replay_changes [of s1 E False rd] have "grows (st_repo D) s2" by (blast intro: grows_trans)
  with o c show ?thesis by (auto simp: pull_rev_def map_repo_def split: sum.split)
qed

lemma grows_pull_revs: "grows (st_repo D) (st_repo (fst (fst (pull_revs E N rds (D, n)))))"
proof (induction rds arbitrary: D n)
  case (Cons rd rds)
  obtain D1 n1 res where p: "pull_rev E N rd (D, n) = ((D1, n1), res)" by (metis surj_pair)
  have "grows (st_repo D) (st_repo D1)" using grows_pull_rev [of D E N rd n] p by simp
  with Cons.IH [of D1 n1] p show ?case by (auto intro: grows_trans split: sum.split)
qed simp

lemma grows_pull_loop: "grows (st_repo (fst x)) (st_repo (fst (fst (pull_loop E N http h cur x))))"
proof (induction "Suc h - cur" arbitrary: cur x rule: less_induct)
  case less
  obtain D st n where x: "x = (D, st, n)" by (cases x)
  let ?e = "min (cur + 100 - 1) h"
  show ?case
  proof (cases "cur > h")
    case False
    show ?thesis
    proof (cases "get_delta N http cur ?e")
      case (Inr rds)
      obtain D1 n1 res where p: "pull_revs E N rds (D, n) = ((D1, n1), res)" by (metis surj_pair)
      have g: "grows (st_repo D) (st_repo D1)" using grows_pull_revs [of D E N rds n] p by simp
      obtain st1 d where c: "set_checkpoint (sync_files N) ?e (st, st_dir D1) = (st1, d)"
        by (cases "set_checkpoint (sync_files N) ?e (st, st_dir D1)")
      have "Suc h - (?e + 1) < Suc h - cur" using False by auto
      from less.hyps [OF this, of "(D1\<lparr>st_dir := d\<rparr>, st1, n1)"] g
      have "grows (st_repo D) (st_repo (fst (fst (pull_loop E N http h (?e + 1) (D1\<lparr>st_dir := d\<rparr>, st1, n1)))))"
        by (auto intro: grows_trans)
      with False Inr p c g show ?thesis
        by (auto simp: x pull_loop.simps [of E N http h cur] Let_def split: sum.split)
    qed (auto simp: x pull_loop.simps [of E N http h cur] Let_def split: sum.split)
  qed (simp add: pull_loop.simps [of E N http h cur])
qed

lemma grows_pull_opened: "grows (st_repo T) (st_repo (fst (pull_opened E N http now el T)))"
proof -
  have loop: "grows (st_repo T) (st_repo D)"
    if "pull_loop E N http h f (map_repo begin_batch (T\<lparr>st_dir := d\<rparr>), st, n) = ((D, st', n'), res)" for h f d st n D st' n' res
    using grows_pull_loop [of "(map_repo begin_batch (T\<lparr>st_dir := d\<rparr>), st, n)" E N http h f] that
      grows_trans [of "st_repo T" "begin_batch (st_repo T)"] by (simp add: map_repo_def)
  have fin: "grows (st_repo T) (st_repo (finish_sync N now e st (map_repo end_batch D)))" if "grows (st_repo T) (st_repo D)" for e st D
    using grows_trans [OF that, of "end_batch (st_repo D)"] by (simp add: finish_sync_def map_repo_def)
  show ?thesis
    unfolding pull_opened_def Let_def begin_sync_def
    by (auto split: sum.split option.split prod.split dest!: loop intro: fin)
qed

section \<open>Pulling from any server\<close>



section \<open>Loading any bytes\<close>

lemma parse_loop_keeps:
  assumes "\<And>rv st. P st \<Longrightarrow> P (fst (on_rev rv st))" and "P st"
  shows "P (fst (parse_loop D on_rev d cur st))"
proof -
  have flush: "P (fst (flush_rev on_rev c x))" if "P x" for c x
  proof (cases c)
    case (Some rv)
    with assms(1) [OF that, of rv] show ?thesis by (cases "on_rev rv x") (auto simp: flush_rev_def split: sum.split)
  qed (simp add: flush_rev_def that)
  from assms(2) show ?thesis
  proof (induction "length d" arbitrary: d cur st rule: less_induct)
    case less
    obtain y r where y: "read_line d = (y, r)" by (cases "read_line d") auto
    note s = parse_loop.simps [of D on_rev d cur st] y
    show ?case
    proof (cases y)
      case None
      with less.prems show ?thesis by (simp add: s)
    next
      case (Some line)
      show ?thesis
      proof (cases "line = []")
        case True
        with Some flush [OF less.prems] show ?thesis by (simp add: s)
      next
        case False
        then have r: "length r < length d" using read_line_shorter y Some by blast
        obtain st1 res where f: "flush_rev on_rev cur st = (st1, res)" by (cases "flush_rev on_rev cur st")
        have 1: "P st1" using flush [OF less.prems, of cur] f by simp
        have rev: "P (fst (parse_loop D on_rev r1 (Some rv) st1))" if "parse_revision D (trim line) r = Inr (rv, r1)" for rv r1
          using less.hyps [OF _ 1] parse_revision_le [OF that] r by simp
        have node: "P (fst (parse_loop D on_rev r1 c st))" if "parse_node_headers nd r = Inr (x, r1)" for nd x r1 c
          using less.hyps [OF _ less.prems] parse_node_headers_le [OF that] r by simp
        from False Some f 1 less.prems less.hyps [OF r less.prems] show ?thesis
          by (auto simp: s split: sum.split dest: rev node)
      qed
    qed
  qed
qed

lemma grows_load_node: "grows s (fst (fst (load_node E nd (s, st))))"
  by (auto simp: load_node_def load_add_def Let_def split: option.split node_action.split node_kind.split)

lemma grows_load_nodes: "grows s (fst (fst (load_nodes E nds ((s, st), b))))"
proof (induction nds arbitrary: s st b)
  case (Cons nd nds)
  obtain s1 st1 ch where n: "load_node E nd (s, st) = ((s1, st1), ch)" by (metis surj_pair)
  have "grows s s1" using grows_load_node [of s E nd st] n by simp
  with Cons.IH [of s1 st1 "b \<or> ch"] n show ?case by (auto intro: grows_trans)
qed simp

lemma grows_load_revision: "grows s (fst (fst (load_revision E rv (s, st))))"
proof -
  obtain s1 st1 ch where n: "load_nodes E (pv_nodes rv) ((begin_batch s, st), False) = ((s1, st1), ch)" by (metis surj_pair)
  have g: "grows s s1"
    using grows_trans [of s "begin_batch s" s1] grows_load_nodes [of "begin_batch s" E "pv_nodes rv" st False] n by simp
  obtain s2 res where c: "commit_sync E (pv_author rv) (pv_message rv) (pv_timestamp rv) s1 = (s2, res)" by fastforce
  have g2: "grows s s2" using grows_trans [OF g] grows_commit_sync [of s1 E "pv_author rv" "pv_message rv" "pv_timestamp rv"] c by simp
  have "grows s (end_batch s1)" "grows s (end_batch s2)" using grows_trans [OF g] grows_trans [OF g2] by simp_all
  with n c g2 show ?thesis by (cases ch) (auto simp: load_revision_def split: sum.split)
qed

text \<open>
  C11. Loading any byte string, a dump or not, is harmless to what is there: the handler returns, and
  afterwards every earlier revision has the same tree, the same commit record, and every file that
  could be read the same contents.
\<close>

theorem load_any_dump:
  defines "t \<equiv> \<lambda>E D el body s. fst (handle_load E D el body s)"
  shows "r_current_rev s \<le> r_current_rev (t E D el body s) \<and>
    (\<forall>r \<le> r_current_rev s.
       tree_of E (t E D el body s) r = tree_of E s r \<and> load_commit E (t E D el body s) r = load_commit E s r \<and>
       (\<forall>q c. file_of E s r q = Some c \<longrightarrow> file_of E (t E D el body s) r q = Some c))"
proof -
  have "grows s (fst (fst (parse_loop D (load_revision E) body None (s, no_stats))))"
    by (rule parse_loop_keeps [where P = "\<lambda>x. grows s (fst x)"])
      (auto simp: split_paired_all intro: grows_trans grows_load_revision)
  then have g: "grows s (fst (handle_load E D el body s))"
    by (auto simp: handle_load_def parse_dump_stream_def split: prod.splits sum.splits)
  have "load_commit E (fst (handle_load E D el body s)) r = load_commit E s r" if "r \<le> r_current_rev s" for r
    using g that by (simp add: grows_def load_commit_def)
  then show ?thesis using g grows_tree [OF g, of _ E] grows_file [OF g] unfolding t_def by (auto simp: grows_def)
qed

theorem load_any_dump_witness:
  "\<exists>t. t = fst (handle_load sample sample_dates 0 [1, 2, 3] sample_one) \<and> file_of sample t 1 ''src/a'' = Some [104, 105]"
  using load_any_dump [of sample_one sample sample_dates 0 "[1, 2, 3]"] sample_one_facts(2) sample_file by auto

end
