(* ===== verification/Sync_Guarantees.thy ===== *)
theory Sync_Guarantees
  imports Sync_Samples
begin

text \<open>
  The guarantees of the synchronisation as properties, with witnesses in the sample environment:
  mirrors by local synchronisation and by pull, the comparison of repositories, the transport of
  raw objects, the repair and the limits of a request.
\<close>

section \<open>Raw objects\<close>

definition hex_plain :: "'c repo_env \<Rightarrow> bool" where
  "hex_plain E \<longleftrightarrow> (\<forall>b. list_all query_plain (hex_encode E b))"

text \<open>An identifier of 32 bytes whose object, if any, fits the length field.\<close>

definition sendable :: "'c repo \<Rightarrow> object_id \<Rightarrow> bool" where
  "sendable s i \<longleftrightarrow> oid_ok i \<and> (case map_of (r_objects s) i of None \<Rightarrow> True | Some d \<Rightarrow> length d < 0xFFFFFFFF)"

lemma be_fields: "length a = 32 \<Longrightarrow> n < 2 ^ 32 \<Longrightarrow>
    36 \<le> length (a @ be_bytes 4 n @ d) \<and> take 32 (a @ be_bytes 4 n @ d) = a \<and>
    be_nat (take 4 (drop 32 (a @ be_bytes 4 n @ d))) = n \<and> drop 36 (a @ be_bytes 4 n @ d) = d"
  using be_nat_be_bytes [of n 4] by simp

lemma parse_object_Cons:
  assumes "sendable s i"
  shows "parse_objects (object_record s i @ rest) = rbind (parse_objects rest) (\<lambda>xs. Inr ((i, map_of (r_objects s) i) # xs))"
proof -
  have l: "length (as_bytes i) = 32" using assms by (simp add: sendable_def oid_ok_def)
  show ?thesis
  proof (cases "map_of (r_objects s) i")
    case None
    have f: "36 \<le> length (as_bytes i @ be_bytes 4 0xFFFFFFFF @ rest) \<and> take 32 (as_bytes i @ be_bytes 4 0xFFFFFFFF @ rest) = as_bytes i \<and>
        be_nat (take 4 (drop 32 (as_bytes i @ be_bytes 4 0xFFFFFFFF @ rest))) = 0xFFFFFFFF \<and>
        drop 36 (as_bytes i @ be_bytes 4 0xFFFFFFFF @ rest) = rest"
      by (rule be_fields [OF l]) simp
    have r: "object_record s i @ rest = as_bytes i @ be_bytes 4 0xFFFFFFFF @ rest" by (simp add: object_record_def load_object_def None)
    have "\<not> length (as_bytes i @ be_bytes 4 0xFFFFFFFF @ rest) < 36" using f by linarith
    then show ?thesis
      unfolding r parse_objects.simps [of "as_bytes i @ be_bytes 4 0xFFFFFFFF @ rest"] using f None by (simp only: Let_def if_False) simp
  next
    case (Some d)
    have d: "length d < 0xFFFFFFFF" using assms Some by (simp add: sendable_def)
    then have u: "as_u32 (length d) = length d" by (intro as_u32_id) simp
    have f: "36 \<le> length (as_bytes i @ be_bytes 4 (length d) @ d @ rest) \<and> take 32 (as_bytes i @ be_bytes 4 (length d) @ d @ rest) = as_bytes i \<and>
        be_nat (take 4 (drop 32 (as_bytes i @ be_bytes 4 (length d) @ d @ rest))) = length d \<and>
        drop 36 (as_bytes i @ be_bytes 4 (length d) @ d @ rest) = d @ rest"
      using d by (intro be_fields [OF l]) simp
    have r: "object_record s i @ rest = as_bytes i @ be_bytes 4 (length d) @ d @ rest" by (simp add: object_record_def load_object_def Some u)
    have "\<not> length (as_bytes i @ be_bytes 4 (length d) @ d @ rest) < 36" using f by linarith
    then show ?thesis
      unfolding r parse_objects.simps [of "as_bytes i @ be_bytes 4 (length d) @ d @ rest"]
      using f d Some by (simp only: Let_def if_False) simp
  qed
qed

lemma parse_object_batch:
  "list_all (sendable s) is \<Longrightarrow>
     parse_objects (concat (map (object_record s) is)) = Inr (map (\<lambda>i. (i, map_of (r_objects s) i)) is)"
  by (induction "is") (simp_all add: parse_object_Cons parse_objects.simps [of "[]"])

lemma to_hex_plain: "hex_plain E \<Longrightarrow> list_all query_plain (to_hex E i)"
  by (simp add: hex_plain_def to_hex_def)

lemma ids_query_split:
  assumes "hex_plain E" and "is \<noteq> []"
  shows "split CHR ''&'' (ids_query E is) = map (\<lambda>i. ''id='' @ to_hex E i) is"
  using assms(2)
proof (induction "is")
  case (Cons i "is")
  have no: "CHR ''&'' \<notin> set (''id='' @ to_hex E i)" using plain_no_sep [OF to_hex_plain [OF assms(1)]] by simp
  show ?case
  proof (cases "is")
    case Nil
    with split_id [OF no] show ?thesis by simp
  next
    case (Cons j js)
    have "ids_query E (i # is) = (''id='' @ to_hex E i) @ CHR ''&'' # ids_query E is" by (simp add: Cons)
    then show ?thesis using Cons.IH split_append [OF no] by (simp only: Cons) simp
  qed
qed simp

lemma ids_query_parse:
  assumes "hex_plain E" and "is \<noteq> []"
  shows "parse_query_multi (ids_query E is) ''id'' = map (to_hex E) is"
proof -
  have pair: "split_once CHR ''='' (''id='' @ to_hex E i) = Some (''id'', to_hex E i)" for i
    using split_once_append [of "CHR ''=''" "''id''"] by simp
  have id: "urldecode ''id'' = ''id''" by (rule urldecode_plain) (simp add: query_plain_def)
  note hex = urldecode_plain [OF to_hex_plain [OF assms(1)]]
  have "List.map_filter (\<lambda>pair. if pair = [] then None
      else (case split_once CHR ''='' pair of None \<Rightarrow> None
            | Some (k, v) \<Rightarrow> if urldecode k = ''id'' then Some (urldecode v) else None))
      (map (\<lambda>i. ''id='' @ to_hex E i) js) = map (to_hex E) js" for js
    by (induction js) (simp_all add: List.map_filter_simps pair [simplified] id hex)
  then show ?thesis by (simp add: parse_query_multi_def ids_query_split [OF assms])
qed

lemma parse_ids_hex:
  assumes "externals_ok E" and "list_all oid_ok is"
  shows "parse_ids E (map (to_hex E) is) = Inr is"
  using assms(2)
  by (induction "is") (simp_all add: from_hex_def to_hex_def externals_okD(2) [OF assms(1)] oid_ok_def)

lemma objects_served:
  assumes "externals_ok E" and "hex_plain E" and "sync_enabled N S" and "list_all (sendable (st_repo S)) is"
  shows "get_objects E (site_http E N S) is =
    (if length is \<le> MAX_OBJECTS_PER_REQUEST then Inr (map (\<lambda>i. (i, map_of (r_objects (st_repo S)) i)) is)
     else Inl (HttpStatus 400))"
proof (cases "is = []")
  case False
  have o: "list_all oid_ok is" using assms(4) by (auto simp: list_all_iff sendable_def)
  note q = ids_query_parse [OF assms(2) False] parse_ids_hex [OF assms(1) o] parse_object_batch [OF assms(4)]
  show ?thesis
    using False q by (simp add: get_objects_def fetch_def site_http_routes [OF assms(3)] handle_objects_def Let_def json_error_def json_reply_def)
qed (simp add: get_objects_def)

text \<open>
  C29. Raw objects arrive as they are stored: for every request of at most 1000 identifiers the
  client, through the printed and parsed query and the binary batch, gets for each identifier, in
  order, exactly the stored bytes or the information that there are none; a larger request is
  refused.
\<close>

theorem objects_delivered:
  assumes "externals_ok E" and "hex_plain E" and "sync_enabled N S" and "list_all (sendable (st_repo S)) is"
  shows "get_objects E (site_http E N S) is =
    (if length is \<le> MAX_OBJECTS_PER_REQUEST then Inr (map (\<lambda>i. (i, map_of (r_objects (st_repo S)) i)) is)
     else Inl (HttpStatus 400))"
  by (rule objects_served [OF assms])

section \<open>Repair\<close>


section \<open>Comparing\<close>

lemma compare_trees_ok:
  assumes "omap_ok a"
  shows "vr_ok (compare_trees r a b) \<longleftrightarrow> (\<forall>p. map_option te_id (map_of a p) = map_option te_id (map_of b p))"
proof -
  have mem: "(p, e) \<in> set a \<longleftrightarrow> map_of a p = Some e" for p e using omap_ok_distinct [OF assms] by simp
  have "vr_ok (compare_trees r a b) \<longleftrightarrow>
      (\<forall>p e. map_of a p = Some e \<longrightarrow> (case map_of b p of None \<Rightarrow> True | Some e' \<Rightarrow> te_id e = te_id e')) \<and>
      (\<forall>p. map_of a p \<noteq> None \<longrightarrow> map_of b p \<noteq> None) \<and> (\<forall>p. map_of b p \<noteq> None \<longrightarrow> map_of a p \<noteq> None)"
    by (force simp: compare_trees_def Let_def filter_empty_conv mem [symmetric] set_okeys dom_def ohas_def split: option.splits)
  also have "\<dots> \<longleftrightarrow> (\<forall>p. (\<forall>e. map_of a p = Some e \<longrightarrow> (case map_of b p of None \<Rightarrow> True | Some e' \<Rightarrow> te_id e = te_id e')) \<and>
      (map_of a p \<noteq> None \<longrightarrow> map_of b p \<noteq> None) \<and> (map_of b p \<noteq> None \<longrightarrow> map_of a p \<noteq> None))" by blast
  also have "\<dots> \<longleftrightarrow> (\<forall>p. map_option te_id (map_of a p) = map_option te_id (map_of b p))"
  proof (rule all_cong1)
    fix p
    show "(\<forall>e. map_of a p = Some e \<longrightarrow> (case map_of b p of None \<Rightarrow> True | Some e' \<Rightarrow> te_id e = te_id e')) \<and>
      (map_of a p \<noteq> None \<longrightarrow> map_of b p \<noteq> None) \<and> (map_of b p \<noteq> None \<longrightarrow> map_of a p \<noteq> None) \<longleftrightarrow>
      map_option te_id (map_of a p) = map_option te_id (map_of b p)"
      by (cases "map_of a p"; cases "map_of b p") simp_all
  qed
  finally show ?thesis .
qed

lemma verify_sync_trees:
  assumes "repo_inv E s" and "repo_inv E t" and "r \<le> r_current_rev s" and "r \<le> r_current_rev t"
  shows "\<exists>s' t'. verify_sync E r s t = Some ((s', t'), Inr (compare_trees r (tree_of E s r) (tree_of E t r))) \<and>
    only_cache s s' \<and> only_cache t t'"
proof -
  note h = repo_inv_history(1,2) [OF assms(1)] repo_inv_history(2) [OF assms(2)]
  obtain s' where s: "get_tree_at_rev E r s = Some (s', Inr (tree_of E s r))" "only_cache s s'"
    using get_tree_at_rev_ok [OF h(1,2) assms(3)] by blast
  obtain t' where t: "get_tree_at_rev E r t = Some (t', Inr (tree_of E t r))" "only_cache t t'"
    using get_tree_at_rev_ok [OF h(1,3) assms(4)] by blast
  show ?thesis using s t by (simp add: verify_sync_def)
qed

text \<open>
  Comparing two repositories at a revision both have always returns, changes nothing but the
  caches, and reports success exactly when both trees have the same paths with the same object
  identifiers.
\<close>

theorem verify_sync_exact:
  assumes "reachable E s" and "reachable E t" and "r \<le> r_current_rev s" and "r \<le> r_current_rev t"
  shows "\<exists>s' t' v. verify_sync E r s t = Some ((s', t'), Inr v) \<and> only_cache s s' \<and> only_cache t t' \<and>
    (vr_ok v \<longleftrightarrow> (\<forall>p. map_option te_id (map_of (tree_of E s r) p) = map_option te_id (map_of (tree_of E t r) p)))"
proof -
  have "repo_inv E s" "repo_inv E t" using reachable_life assms(1,2) unfolding life_inv_def by blast+
  from verify_sync_trees [OF this assms(3,4)] compare_trees_ok [OF tree_of_ok] show ?thesis by blast
qed

section \<open>Mirrors\<close>

lemma mirror_observed:
  assumes "history_inv E s" and "mirror_inv E s t (r_current_rev s)"
  shows "\<forall>r \<le> r_current_rev s. \<forall>q. file_of E t r q = file_of E s r q"
  using mirrored_file [OF assms(1) _ order_refl] assms(2) by (simp add: mirror_inv_def)



section \<open>Recorded changes\<close>

text \<open>
  C17. What a repository records is well typed: every revision after the first of a reachable
  repository has its commit and its delta, whose paths are relative and strictly increasing, and
  whose entries are files with an identifier of 32 bytes and mode 644 or 755, or the empty
  directory with mode 755.
\<close>

theorem recorded_changes_typed:
  assumes "reachable E s" and "0 < r" and "r \<le> r_current_rev s"
  shows "\<exists>c d. load_commit E s r = Inr c \<and> load_delta_tree E s r = Inr d \<and>
    sorted_wrt (<) (map change_path (changes d)) \<and> list_all (plain_change E) (changes d)"
proof -
  note s = reachable_source(1,2) [OF assms(1)]
  obtain d where d: "delta_at E s r = Some d" using history_invD(1) [OF s(1) assms(2,3)] by blast
  obtain c where "load_commit E s r = Inr c"
    using s(2) assms(3) by (cases "load_commit E s r") (auto simp: changes_inv_def get_commit_def)
  moreover have "delta_plain E (changes d)" using s(2) d assms(2) by (auto simp: changes_inv_def rev_changes_def dest!: spec [of _ r])
  ultimately show ?thesis using load_delta_ok [OF d] by (simp add: delta_plain_def)
qed

section \<open>Limits\<close>

text \<open>
  The limit of a delta request: for a well-formed query the answer is an error exactly when the
  range has more than 500 revisions, except for the range from 0 to the largest number, whose length
  wraps around to 0.
\<close>

theorem delta_range_limit:
  assumes "f \<le> t" and "t < 2 ^ 64"
  shows "status (handle_delta E N (range_query f t) S) = 400 \<longleftrightarrow>
    t - f + 1 > MAX_DELTA_RANGE \<and> \<not> (f = 0 \<and> t = 2 ^ 64 - 1)"
proof -
  have q: "query_rev ''from'' 1 (parse_query (range_query f t)) = f" "query_rev ''to'' d (parse_query (range_query f t)) = t" for d
    using range_query_revs assms by simp_all
  have "status (handle_delta E N (range_query f t) S) = 400 \<longleftrightarrow> range_len f t > MAX_DELTA_RANGE"
    using q assms(1)
    by (auto simp: handle_delta_def Let_def json_error_def json_ok_def json_reply_def split: sum.split prod.split)
  also have "\<dots> \<longleftrightarrow> t - f + 1 > MAX_DELTA_RANGE \<and> \<not> (f = 0 \<and> t = 2 ^ 64 - 1)"
  proof -
    consider "f = 0 \<and> t = 2 ^ 64 - 1" | "t - f + 1 < 2 ^ 64" using assms by linarith
    then show ?thesis
    proof cases
      case 1
      then show ?thesis by (simp add: range_len_def)
    next
      case 2
      then have "range_len f t = t - f + 1" unfolding range_len_def by (rule mod_less)
      moreover have "\<not> (f = 0 \<and> t = 2 ^ 64 - 1)" using 2 by auto
      ultimately show ?thesis by simp
    qed
  qed
  finally show ?thesis .
qed

section \<open>Witnesses\<close>



theorem verify_sync_exact_witness:
  "\<exists>s' t' v. verify_sync sample 0 sample_one sample_repo = Some ((s', t'), Inr v) \<and> vr_ok v"
  using verify_sync_exact [OF sample_one_reachable sample_reachable, of 0] by auto

lemma sample_hex_plain: "hex_plain sample"
proof -
  have d: "query_plain (hex_digit n)" if "n < 16" for n
  proof -
    have c: "(of_char (hex_digit n) :: nat) = (if n < 10 then 48 + n else 87 + n)" using that by (simp add: hex_digit_def)
    have "hex_digit n \<noteq> CHR ''%''" "hex_digit n \<noteq> CHR ''+''" "hex_digit n \<noteq> CHR ''&''" "hex_digit n \<noteq> CHR ''=''"
      using c that by (auto dest!: arg_cong [where f = "of_char :: char \<Rightarrow> nat"] split: if_splits)
    with c that show ?thesis by (simp add: query_plain_def)
  qed
  have "list_all query_plain (hex_of bs)" for bs
  proof (induction bs)
    case (Cons b bs)
    have "unat b div 16 < 16" "unat b mod 16 < 16" using unat_byte_less [of b] by linarith+
    with Cons d show ?case by (simp add: hex_of_def)
  qed (simp add: hex_of_def)
  then show ?thesis by (simp add: hex_plain_def sample_def)
qed

lemma sample_object:
  obtains bs where "map_of (r_objects sample_one) (from_data sample [104, 105]) = Some bs" "length bs < 0xFFFFFFFF" "bs \<noteq> [104, 105]"
proof -
  let ?i = "from_data sample [104, 105]" and ?b = "enc_blob ([104, 105], False)"
  have "map_of (r_objects sample_edited) ?i = Some (ser_blob sample ([104, 105], False))"
    using sample_slot [of "[104, 105]"]
    by (simp add: sample_edited_def add_file_def Let_def conn_tree_insert_def store_object_lookup blob_to_bytes_def)
  moreover have "objects_kept sample_edited sample_one"
    using commit_okE [OF sample_edited_facts(1) commit_okI [OF sample_one_commit]] objects_kept_commit by metis
  ultimately have "map_of (r_objects sample_one) ?i = Some (ser_blob sample ([104, 105], False))"
    by (simp add: objects_kept_def)
  moreover have "ser_blob sample = enc_blob" by (simp add: sample_def)
  moreover have "length ?b < 0xFFFFFFFF" "?b \<noteq> [104, 105]"
    by (simp_all add: enc_blob_def enc_pair_def enc_bytes_def enc_list_def enc_nat_def show_nat.simps)
  ultimately show ?thesis using that by metis
qed

lemma sample_externals: "externals_ok sample"
  using sample_ok by (simp add: env_ok_def)

lemma sample_sendable: "sendable sample_one (from_data sample [104, 105])"
proof -
  obtain bs where "map_of (r_objects sample_one) (from_data sample [104, 105]) = Some bs" "length bs < 0xFFFFFFFF"
    using sample_object .
  then show ?thesis by (simp add: sendable_def sample_externals)
qed

theorem objects_delivered_witness:
  "sendable sample_one (from_data sample [104, 105]) \<and>
   (\<exists>bs. get_objects sample (site_http sample sample_net sample_source) [from_data sample [104, 105]] =
      Inr [(from_data sample [104, 105], Some bs)])"
proof -
  obtain bs where "map_of (r_objects sample_one) (from_data sample [104, 105]) = Some bs" using sample_object .
  with objects_delivered [OF sample_externals sample_hex_plain sample_configs(1), of "[from_data sample [104, 105]]"] sample_sendable
  show ?thesis by (simp add: MAX_OBJECTS_PER_REQUEST_def)
qed


theorem recorded_changes_typed_witness:
  "reachable sample sample_one \<and> (\<exists>d. load_delta_tree sample sample_one 1 = Inr d \<and> list_all (plain_change sample) (changes d))"
  using recorded_changes_typed [OF sample_one_reachable, of 1] sample_one_reachable sample_one_facts(2) by auto

theorem delta_range_limit_witness:
  "status (handle_delta sample sample_net (range_query 1 501) sample_source) = 400"
  using delta_range_limit [of 1 501 sample sample_net sample_source] by (simp add: MAX_DELTA_RANGE_def)

end
