(* ===== verification/Sync_Compat.thy ===== *)
theory Sync_Compat
  imports Sync_Guarantees
begin

text \<open>
  The compatibility layer for \<open>svnsync\<close> (\<open>dsvnsync-cli/src/compat.rs\<close>): the properties of revision
  0 that mark a mirror, its lock and its progress, the hook file, the printed replication log, and
  the commands of \<open>main.rs\<close> that use them. Lock tokens and dates come from outside.
\<close>

section \<open>Revision properties\<close>

definition load_revprops :: "net_env \<Rightarrow> 'c site \<Rightarrow> nat \<Rightarrow> (string, string) omap" where
  "load_revprops N S r = (case map_of (st_revprops S) r of None \<Rightarrow> [] | Some txt \<Rightarrow> unwrap_or [] (parse_props N txt))"

definition store_revprops :: "net_env \<Rightarrow> nat \<Rightarrow> (string, string) omap \<Rightarrow> 'c site \<Rightarrow> 'c site" where
  "store_revprops N r props S =
     (if props = [] then S\<lparr>st_revprops := odel r (st_revprops S)\<rparr>
      else S\<lparr>st_revprops := oput r (json_props N props) (st_revprops S)\<rparr>)"

definition get_revprop :: "net_env \<Rightarrow> 'c site \<Rightarrow> nat \<Rightarrow> string \<Rightarrow> string option" where
  "get_revprop N S r name = map_of (load_revprops N S r) name"

definition set_revprop :: "net_env \<Rightarrow> nat \<Rightarrow> string \<Rightarrow> string \<Rightarrow> 'c site \<Rightarrow> 'c site" where
  "set_revprop N r name v S = store_revprops N r (oput name v (load_revprops N S r)) S"

definition del_revprop :: "net_env \<Rightarrow> nat \<Rightarrow> string \<Rightarrow> 'c site \<Rightarrow> 'c site" where
  "del_revprop N r name S = store_revprops N r (odel name (load_revprops N S r)) S"

definition SYNC_FROM_URL :: string where "SYNC_FROM_URL = ''svn:sync-from-url''"
definition SYNC_FROM_UUID :: string where "SYNC_FROM_UUID = ''svn:sync-from-uuid''"
definition SYNC_LAST_MERGED_REV :: string where "SYNC_LAST_MERGED_REV = ''svn:sync-last-merged-rev''"
definition SYNC_LOCK :: string where "SYNC_LOCK = ''svn:sync-lock''"
definition SYNC_CURRENTLY_COPYING :: string where "SYNC_CURRENTLY_COPYING = ''svn:sync-currently-copying''"

section \<open>Mirrors\<close>

definition permissive_hook :: string where
  "permissive_hook = ''#!/bin/sh'' @ [CHR 0x0A] @ ''# Auto-installed by dsvnsync for svnsync compatibility.'' @ [CHR 0x0A] @
     ''# Allows all revision property changes.'' @ [CHR 0x0A] @ ''exit 0'' @ [CHR 0x0A]"

definition install_pre_revprop_change_hook :: "'c site \<Rightarrow> 'c site" where
  "install_pre_revprop_change_hook S =
     (case st_revprop_hook S of None \<Rightarrow> S\<lparr>st_revprop_hook := Some permissive_hook\<rparr> | Some _ \<Rightarrow> S)"

definition init_mirror :: "net_env \<Rightarrow> string \<Rightarrow> string \<Rightarrow> 'c site \<Rightarrow> 'c site" where
  "init_mirror N url uuid S =
     set_revprop N 0 SYNC_LAST_MERGED_REV ''0''
       (set_revprop N 0 SYNC_FROM_UUID uuid
         (set_revprop N 0 SYNC_FROM_URL url (install_pre_revprop_change_hook S)))"

definition is_mirror :: "net_env \<Rightarrow> 'c site \<Rightarrow> bool" where
  "is_mirror N S \<longleftrightarrow> get_revprop N S 0 SYNC_FROM_URL \<noteq> None"

definition get_source_url :: "net_env \<Rightarrow> 'c site \<Rightarrow> string option" where
  "get_source_url N S = get_revprop N S 0 SYNC_FROM_URL"

definition get_source_uuid :: "net_env \<Rightarrow> 'c site \<Rightarrow> string option" where
  "get_source_uuid N S = get_revprop N S 0 SYNC_FROM_UUID"

definition get_last_merged_rev :: "net_env \<Rightarrow> 'c site \<Rightarrow> nat" where
  "get_last_merged_rev N S =
     (case get_revprop N S 0 SYNC_LAST_MERGED_REV of Some v \<Rightarrow> unwrap_or 0 (parse_u64 (trim v)) | None \<Rightarrow> 0)"

definition set_last_merged_rev :: "net_env \<Rightarrow> nat \<Rightarrow> 'c site \<Rightarrow> 'c site" where
  "set_last_merged_rev N r S = set_revprop N 0 SYNC_LAST_MERGED_REV (show_nat r) S"

datatype compat_fail = LockedBy string | SyncFailed sync_fail | CleanupFailed | VerifyFailed

definition acquire_lock :: "net_env \<Rightarrow> string \<Rightarrow> 'c site \<Rightarrow> 'c site \<times> (compat_fail + string)" where
  "acquire_lock N token S =
     (case get_revprop N S 0 SYNC_LOCK of
        Some existing \<Rightarrow> (S, Inl (LockedBy existing))
      | None \<Rightarrow> (set_revprop N 0 SYNC_LOCK token S, Inr token))"

definition release_lock :: "net_env \<Rightarrow> 'c site \<Rightarrow> 'c site" where
  "release_lock N S = del_revprop N 0 SYNC_LOCK S"

definition set_currently_copying :: "net_env \<Rightarrow> nat \<Rightarrow> 'c site \<Rightarrow> 'c site" where
  "set_currently_copying N r S = set_revprop N 0 SYNC_CURRENTLY_COPYING (show_nat r) S"

definition clear_currently_copying :: "net_env \<Rightarrow> 'c site \<Rightarrow> 'c site" where
  "clear_currently_copying N S = del_revprop N 0 SYNC_CURRENTLY_COPYING S"

definition get_currently_copying :: "net_env \<Rightarrow> 'c site \<Rightarrow> nat option" where
  "get_currently_copying N S =
     map_option (\<lambda>v. unwrap_or 0 (parse_u64 (trim v))) (get_revprop N S 0 SYNC_CURRENTLY_COPYING)"

section \<open>The printed replication log\<close>

definition text_line :: "string \<Rightarrow> string" where
  "text_line s = s @ [CHR 0x0A]"

fun change_line :: "tree_change \<Rightarrow> string" where
  "change_line (Upsert path e) = text_line (''  A '' @ path @ '' ('' @ (if te_kind e = KBlob then ''file'' else ''dir'') @ '')'')"
| "change_line (Delete path) = text_line (''  D '' @ path)"

definition repl_log_entry :: "'c repo_env \<Rightarrow> (int \<Rightarrow> string option) \<Rightarrow> 'c repo \<Rightarrow> nat \<Rightarrow> string option" where
  "repl_log_entry E date s r =
     Option.bind (map_of (r_commits s) r) (\<lambda>bs. map_option (\<lambda>c.
       text_line ''---'' @ text_line (''Revision: '' @ show_nat r) @ text_line (''Author: '' @ author c) @
       text_line (''Date: '' @ unwrap_or [] (date (timestamp c))) @ text_line (''Log: '' @ message c) @
       (case Option.bind (map_of (r_deltas s) r) (de_delta E) of
          None \<Rightarrow> []
        | Some d \<Rightarrow> text_line (''Changes: '' @ show_nat (length (changes d))) @ concat (map change_line (changes d))))
       (de_commit E bs))"

definition generate_repl_log :: "'c repo_env \<Rightarrow> (int \<Rightarrow> string option) \<Rightarrow> 'c repo \<Rightarrow> nat \<Rightarrow> nat \<Rightarrow> string \<times> nat" where
  "generate_repl_log E date s f t =
     (let parts = List.map_filter (repl_log_entry E date s) [f..<Suc (min t (read_head_rev s))]
      in (concat parts, length parts))"

section \<open>Commands\<close>

text \<open>
  The commands open and initialise their repositories first; \<open>u\<close> and \<open>v\<close> are the identifiers drawn
  for new repositories, \<open>src_arg\<close> is the source as given on the command line. Both directories are
  part of the result: opening may change either. \<open>None\<close> is a walk along deltas that does not end.
\<close>

definition open_site :: "'c repo_env \<Rightarrow> int \<Rightarrow> string \<Rightarrow> 'c site \<Rightarrow> ('c site \<times> (repo_error + unit)) option" where
  "open_site E now u S = map_option (\<lambda>(s, res). (S\<lparr>st_repo := s\<rparr>, res)) (initialize E now (repo_open E u (st_repo S)))"

definition with_sites :: "'c repo_env \<Rightarrow> int \<Rightarrow> string \<Rightarrow> string \<Rightarrow>
    ('c site \<Rightarrow> 'c site \<Rightarrow> (('c site \<times> 'c site) \<times> (compat_fail + 'a)) option) \<Rightarrow>
    'c site \<Rightarrow> 'c site \<Rightarrow> (('c site \<times> 'c site) \<times> (compat_fail + 'a)) option" where
  "with_sites E now u v f src dst =
     Option.bind (open_site E now u src) (\<lambda>(src1, x).
       case x of
         Inl e \<Rightarrow> Some ((src1, dst), Inl (SyncFailed (RepoFail e)))
       | Inr _ \<Rightarrow>
           Option.bind (open_site E now v dst) (\<lambda>(dst1, y).
             case y of
               Inl e \<Rightarrow> Some ((src1, dst1), Inl (SyncFailed (RepoFail e)))
             | Inr _ \<Rightarrow> f src1 dst1))"

definition init_opened :: "net_env \<Rightarrow> string \<Rightarrow> string \<Rightarrow> bool \<Rightarrow> 'c site \<Rightarrow> 'c site \<Rightarrow> 'c site \<times> (compat_fail + sync_state)" where
  "init_opened N src_root src_arg svnsync_compat src dst =
     (case local_init N src_root src dst of
        (dst1, Inl e) \<Rightarrow> (dst1, Inl (SyncFailed e))
      | (dst1, Inr state) \<Rightarrow>
          (if svnsync_compat then init_mirror N (''file://'' @ src_arg) (r_uuid (st_repo src)) dst1 else dst1, Inr state))"

definition cmd_init :: "'c repo_env \<Rightarrow> net_env \<Rightarrow> int \<Rightarrow> string \<Rightarrow> string \<Rightarrow> string \<Rightarrow> string \<Rightarrow> bool \<Rightarrow> 'c site \<Rightarrow> 'c site \<Rightarrow>
    (('c site \<times> 'c site) \<times> (compat_fail + sync_state)) option" where
  "cmd_init E N now u v src_root src_arg svnsync_compat =
     with_sites E now u v (\<lambda>src dst. case init_opened N src_root src_arg svnsync_compat src dst of (dst1, res) \<Rightarrow> Some ((src, dst1), res))"

definition cmd_svnsync_init :: "'c repo_env \<Rightarrow> net_env \<Rightarrow> int \<Rightarrow> string \<Rightarrow> string \<Rightarrow> string \<Rightarrow> string \<Rightarrow> 'c site \<Rightarrow> 'c site \<Rightarrow>
    (('c site \<times> 'c site) \<times> (compat_fail + sync_state)) option" where
  "cmd_svnsync_init E N now u v src_root src_arg =
     with_sites E now u v (\<lambda>src dst. case init_opened N src_root src_arg True src dst of (dst1, res) \<Rightarrow> Some ((src, dst1), res))"

definition verify_synced :: "'c repo_env \<Rightarrow> nat \<Rightarrow> 'c site \<Rightarrow> 'c site \<Rightarrow> (('c site \<times> 'c site) \<times> (compat_fail + unit)) option" where
  "verify_synced E r src dst =
     map_option (\<lambda>((s, t), x).
         ((src\<lparr>st_repo := s\<rparr>, dst\<lparr>st_repo := t\<rparr>),
          case x of
            Inl e \<Rightarrow> Inl (SyncFailed (RepoFail e))
          | Inr v \<Rightarrow> if vr_ok v then Inr () else Inl VerifyFailed))
       (verify_sync E r (st_repo src) (st_repo dst))"

definition sync_opened :: "'c repo_env \<Rightarrow> net_env \<Rightarrow> int \<Rightarrow> nat \<Rightarrow> bool \<Rightarrow> 'c site \<Rightarrow> 'c site \<Rightarrow>
    (('c site \<times> 'c site) \<times> (compat_fail + sync_result)) option" where
  "sync_opened E N now elapsed verify src dst =
     (case local_sync E N now elapsed src dst of
        (dst1, Inl e) \<Rightarrow> Some ((src, dst1), Inl (SyncFailed e))
      | (dst1, Inr res) \<Rightarrow>
          if sn_up_to_date res then Some ((src, dst1), Inr res)
          else
            let dst2 = (if is_mirror N dst1 then set_last_merged_rev N (sn_to_rev res) dst1 else dst1) in
            if verify then map_option (\<lambda>(sites, x). (sites, rbind x (\<lambda>_. Inr res))) (verify_synced E (sn_to_rev res) src dst2)
            else Some ((src, dst2), Inr res))"

definition cmd_sync :: "'c repo_env \<Rightarrow> net_env \<Rightarrow> int \<Rightarrow> nat \<Rightarrow> string \<Rightarrow> string \<Rightarrow> bool \<Rightarrow> 'c site \<Rightarrow> 'c site \<Rightarrow>
    (('c site \<times> 'c site) \<times> (compat_fail + sync_result)) option" where
  "cmd_sync E N now elapsed u v verify = with_sites E now u v (sync_opened E N now elapsed verify)"

definition svnsync_opened :: "'c repo_env \<Rightarrow> net_env \<Rightarrow> int \<Rightarrow> nat \<Rightarrow> string \<Rightarrow> 'c site \<Rightarrow> 'c site \<Rightarrow> 'c site \<times> (compat_fail + sync_result)" where
  "svnsync_opened E N now elapsed token src dst =
     (case acquire_lock N token dst of
        (dst1, Inl e) \<Rightarrow> (dst1, Inl e)
      | (dst1, Inr _) \<Rightarrow>
          (case local_sync E N now elapsed src dst1 of
             (dst2, Inl e) \<Rightarrow> (release_lock N dst2, Inl (SyncFailed e))
           | (dst2, Inr res) \<Rightarrow>
               (release_lock N (if \<not> sn_up_to_date res then set_last_merged_rev N (sn_to_rev res) dst2 else dst2), Inr res)))"

definition cmd_svnsync_sync :: "'c repo_env \<Rightarrow> net_env \<Rightarrow> int \<Rightarrow> nat \<Rightarrow> string \<Rightarrow> string \<Rightarrow> string \<Rightarrow> 'c site \<Rightarrow> 'c site \<Rightarrow>
    (('c site \<times> 'c site) \<times> (compat_fail + sync_result)) option" where
  "cmd_svnsync_sync E N now elapsed u v token =
     with_sites E now u v (\<lambda>src dst. case svnsync_opened E N now elapsed token src dst of (dst1, res) \<Rightarrow> Some ((src, dst1), res))"

definition cmd_cleanup :: "net_env \<Rightarrow> bool \<Rightarrow> 'c site \<Rightarrow> 'c site \<times> (compat_fail + unit)" where
  "cmd_cleanup N remove_hooks S =
     (let S1 = S\<lparr>st_dir := state_remove (st_dir S)\<rparr>;
          unhook = (\<lambda>T. if remove_hooks then T\<lparr>st_revprop_hook := None\<rparr> else T)
      in case map_of (st_revprops S1) 0 of
           None \<Rightarrow> (unhook S1, Inr ())
         | Some txt \<Rightarrow>
             (case parse_props N txt of
                None \<Rightarrow> (S1, Inl CleanupFailed)
              | Some props \<Rightarrow> (unhook (store_revprops N 0 (oretain (\<lambda>k. \<not> starts_with k ''svn:sync-'') props) S1), Inr ())))"

definition cmd_pull :: "'c repo_env \<Rightarrow> net_env \<Rightarrow> http \<Rightarrow> string \<Rightarrow> bool \<Rightarrow> int \<Rightarrow> nat \<Rightarrow> string \<Rightarrow> 'c site \<Rightarrow>
    ('c site \<times> (sync_fail + pull_result)) option" where
  "cmd_pull E N http base init now elapsed fresh_uuid dst =
     Option.bind (open_site E now fresh_uuid dst) (\<lambda>(dst1, opened).
       case opened of
         Inl e \<Rightarrow> Some (dst1, Inl (RepoFail e))
       | Inr _ \<Rightarrow>
           (case (if init then Inr None else state_load (sync_files N) (st_dir dst1)) of
              Inl e \<Rightarrow> Some (dst1, Inl (SyncFile e))
            | Inr (Some _) \<Rightarrow> pull E N http now elapsed fresh_uuid dst1
            | Inr None \<Rightarrow>
                (case remote_init N http base dst1 of
                   (dst2, Inl e) \<Rightarrow> Some (dst2, Inl e)
                 | (dst2, Inr _) \<Rightarrow> pull E N http now elapsed fresh_uuid dst2)))"

section \<open>Properties are kept per name and revision\<close>

lemma load_store_revprops:
  assumes "net_ok N" and "omap_ok props"
  shows "load_revprops N (store_revprops N r props S) k = (if k = r then props else load_revprops N S k)"
  using assms by (auto simp: load_revprops_def store_revprops_def net_ok_def omap_simps)

lemma load_revprops_ok: "net_ok N \<Longrightarrow> omap_ok (load_revprops N S r)"
  by (cases "map_of (st_revprops S) r"; simp add: load_revprops_def)
    (auto simp: net_ok_def unwrap_or_def split: option.split)

lemma get_revprop_simps:
  assumes "net_ok N"
  shows "get_revprop N (set_revprop N r name v S) k q = (if k = r \<and> q = name then Some v else get_revprop N S k q)"
    and "get_revprop N (del_revprop N r name S) k q = (if k = r \<and> q = name then None else get_revprop N S k q)"
  using load_revprops_ok [OF assms, of S r]
  by (auto simp: get_revprop_def set_revprop_def del_revprop_def load_store_revprops [OF assms] omap_simps)

lemma get_revprop_cong: "map_of (st_revprops T) r = map_of (st_revprops S) r \<Longrightarrow> get_revprop N T r q = get_revprop N S r q"
  by (simp add: get_revprop_def load_revprops_def)

lemma revprop_names: "SYNC_LOCK \<noteq> SYNC_LAST_MERGED_REV" "SYNC_FROM_URL \<noteq> SYNC_LAST_MERGED_REV" "SYNC_FROM_UUID \<noteq> SYNC_LAST_MERGED_REV"
  "SYNC_FROM_URL \<noteq> SYNC_FROM_UUID"
  by (simp_all add: SYNC_LOCK_def SYNC_LAST_MERGED_REV_def SYNC_FROM_URL_def SYNC_FROM_UUID_def)

section \<open>A synchronisation leaves the properties of revision 0 alone\<close>

lemma commit_sync_positive: "commit_sync E a m ts s = (s', Inr r) \<Longrightarrow> 0 < r"
  by (auto simp: commit_sync_def Let_def split: prod.splits sum.splits)

lemma apply_revprops_0: "map_of (st_revprops (fst (apply_revision_data E N rd b S))) 0 = map_of (st_revprops S) 0"
proof -
  let ?c = "commit_sync E (rd_author rd) (rd_message rd) (rd_timestamp rd)
    (replay_changes E True rd (fold (store_blob E) (rd_objects rd) (st_repo S)))"
  obtain s res where c: "?c = (s, res)" by (cases ?c)
  show ?thesis
  proof (cases res)
    case (Inr r)
    with c commit_sync_positive [of E "rd_author rd" "rd_message rd" "rd_timestamp rd"] have "0 < r" by blast
    with c Inr show ?thesis by (auto simp: apply_revision_data_def save_revprops_def omap_simps)
  qed (auto simp: apply_revision_data_def c)
qed

lemma sync_apply_revprops_0: "map_of (st_revprops (fst (fst (sync_apply E N r rd x)))) 0 = map_of (st_revprops (fst x)) 0"
proof -
  obtain T st n where x: "x = (T, st, n)" by (cases x)
  have "map_of (st_revprops (fst (apply_revision_data E N rd (copies_empty N (st_dir T)) T))) 0 = map_of (st_revprops T) 0"
    by (rule apply_revprops_0)
  then show ?thesis
    by (auto simp: x sync_apply_def Let_def set_checkpoint_def split: prod.split sum.split)
qed

lemma sync_loop_revprops_0: "map_of (st_revprops (fst (fst (sync_loop E N S rs x)))) 0 = map_of (st_revprops (fst x)) 0"
proof (induction rs arbitrary: x)
  case (Cons r rs)
  show ?case
  proof (cases "extract_revision_data E N S r")
    case (Inr rd)
    then show ?thesis
      using sync_apply_revprops_0 [of E N r rd x] Cons.IH
      by (cases "sync_apply E N r rd x") (auto split: sum.split)
  qed simp
qed simp

lemma local_sync_revprops_0: "map_of (st_revprops (fst (local_sync E N now el S T))) 0 = map_of (st_revprops T) 0"
proof -
  have loop: "map_of (st_revprops D) 0 = map_of (st_revprops T) 0"
    if "sync_loop E N S rs (map_repo begin_batch (T\<lparr>st_dir := d\<rparr>), st, n) = ((D, st', n'), res)" for rs d st n D st' n' res
    using sync_loop_revprops_0 [of E N S rs "(map_repo begin_batch (T\<lparr>st_dir := d\<rparr>), st, n)"] that by (simp add: map_repo_def)
  show ?thesis
    unfolding local_sync_def Let_def begin_sync_def
    by (auto simp: finish_sync_def map_repo_def [of end_batch] split: sum.split option.split prod.split dest!: loop)
qed

section \<open>The lock\<close>



section \<open>Verification after a synchronisation\<close>

lemma mirror_last_merged: "st_repo (if b then set_last_merged_rev N r S else S) = st_repo S"
  "st_dir (if b then set_last_merged_rev N r S else S) = st_dir S"
  by (simp_all add: set_last_merged_rev_def set_revprop_def store_revprops_def)

lemma only_cache_mirrored: "only_cache t t' \<Longrightarrow> mirrored E s t' n = mirrored E s t n"
  by (auto simp: mirrored_def commit_info_def get_commit_def load_commit_def blob_at_eq file_ids_def only_cacheD only_cache_tree_of)



end
