(* ===== verification/Admin_Dump.thy ===== *)
theory Admin_Dump
  imports Dump_Load Foreign_Input
begin

text \<open>
  The dump parsers and the loader of the administration tool, \<open>dsvn-admin-cli/src\<close>: the streaming
  parser and the one that collects entries (\<open>dump.rs\<close>), the entries (\<open>dump_format.rs\<close>) and the
  loader (\<open>load.rs\<close>). \<open>parse_header_value\<close>, \<open>read_content_headers\<close> and \<open>parse_props\<close> are statement for
  statement the server's \<open>hdr_val\<close>, \<open>read_hdr_buf\<close> and \<open>parse_props_block\<close>; the readers of nodes
  differ. As in \<open>Dump_Format\<close>, sums of lengths wrap around at 64 bits and a slice out of range panics.
\<close>

section \<open>Shared readers\<close>

definition parse_header_value :: "string \<Rightarrow> string" where
  "parse_header_value line = hdr_val line"

definition header_number :: "string \<Rightarrow> nat" where
  "header_number line = unwrap_or 0 (parse_u64 (parse_header_value line))"

definition read_content_headers :: "bytes \<Rightarrow> 'e dump_error + ((nat \<times> nat) \<times> bytes)" where
  "read_content_headers d = read_hdr_buf 0 0 d"

definition parse_dump_props :: "bytes \<Rightarrow> 'e dump_error + (string \<rightharpoonup> string)" where
  "parse_dump_props data = props_loop (str_lines (utf8_lossy (map byte_char data))) Map.empty"

text \<open>The property block of a revision; a property length beyond the block panics.\<close>

definition revision_props :: "nat \<Rightarrow> nat \<Rightarrow> bytes \<Rightarrow> 'e dump_error + ((string \<rightharpoonup> string) \<times> bytes)" where
  "revision_props prop_len content_len d =
     (if content_len > 0 \<or> prop_len > 0 then
        rbind (read_block (if content_len > 0 then content_len else prop_len) d) (\<lambda>(buf, r).
          rbind (if prop_len > 0
                 then (if prop_len \<le> length buf then parse_dump_props (take prop_len buf) else Inl DumpPanic)
                 else Inr Map.empty) (\<lambda>m. Inr (m, r)))
      else Inr (Map.empty, d))"

text \<open>Reading header lines up to a blank one, with a step for each.\<close>

function fold_headers :: "(string \<Rightarrow> 'a \<Rightarrow> 'a) \<Rightarrow> 'a \<Rightarrow> bytes \<Rightarrow> 'e dump_error + ('a \<times> bytes)" where
  "fold_headers f x d =
     (case read_line d of
        (None, r) \<Rightarrow> Inl NotUtf8
      | (Some line, r) \<Rightarrow>
          if line = [] then Inr (x, r)
          else if trim line = [] then Inr (x, r)
          else fold_headers f (f (trim line) x) r)"
  by pat_completeness auto
termination
  by (relation "measure (\<lambda>(f, x, d). length d)") (auto dest!: sym [of _ "read_line _"] read_line_shorter)

declare fold_headers.simps [simp del]

section \<open>Streaming\<close>

record stream_node =
  sn_path :: string
  sn_kind :: "node_kind option"
  sn_action :: "node_action option"
  sn_copy_from_path :: "string option"
  sn_copy_from_rev :: "nat option"
  sn_content :: bytes

record stream_revision =
  sr_number :: nat
  sr_author :: string
  sr_message :: string
  sr_timestamp :: int
  sr_nodes :: "stream_node list"

text \<open>The headers after \<open>Prop-content-length\<close>: text length and total length.\<close>

definition text_lengths :: "string \<Rightarrow> nat \<times> nat \<Rightarrow> nat \<times> nat" where
  "text_lengths t x =
     (if starts_with t ''Text-content-length:'' then (header_number t, snd x)
      else if starts_with t ''Content-length:'' then (fst x, header_number t) else x)"

text \<open>The headers after \<open>Text-content-length\<close>: only the total length counts.\<close>

definition total_length :: "string \<Rightarrow> nat \<Rightarrow> nat" where
  "total_length t n = (if starts_with t ''Content-length:'' then header_number t else n)"

definition props_then_text :: "nat \<Rightarrow> nat \<times> nat \<Rightarrow> bytes \<Rightarrow> bytes \<Rightarrow> 'e dump_error + (bytes \<times> bytes)" where
  "props_then_text prop_len x old d =
     (case x of (text_len, total_len) \<Rightarrow>
        let e = (prop_len + text_len) mod 2 ^ 64; n = (if total_len > 0 then total_len else e) in
        if n > 0 then
          rbind (read_block n d) (\<lambda>(buf, r).
            if text_len > 0 \<and> e \<le> length buf then
              (if prop_len \<le> e then Inr (take (e - prop_len) (drop prop_len buf), r) else Inl DumpPanic)
            else Inr (old, r))
        else Inr (old, d))"

definition text_only :: "nat \<Rightarrow> nat \<Rightarrow> bytes \<Rightarrow> bytes \<Rightarrow> 'e dump_error + (bytes \<times> bytes)" where
  "text_only text_len total_len old d =
     (let n = (if total_len > 0 then total_len else text_len) in
      if n > 0 then rbind (read_block n d) (\<lambda>(buf, r). Inr (take (min text_len n) buf, r)) else Inr (old, d))"

definition no_text :: "nat \<Rightarrow> bytes \<Rightarrow> bytes \<Rightarrow> 'e dump_error + (bytes \<times> bytes)" where
  "no_text clen old d = (if clen > 0 then rbind (read_block clen d) (\<lambda>(buf, r). Inr (old, r)) else Inr (old, d))"

text \<open>The content block that the header line \<open>t\<close> announces, with the line that follows it.\<close>

definition content_block :: "string \<Rightarrow> bytes \<Rightarrow> bytes \<Rightarrow> 'e dump_error + (bytes \<times> bytes)" where
  "content_block t old d =
     rbind (if starts_with t ''Prop-content-length:''
            then rbind (fold_headers text_lengths (0, 0) d) (\<lambda>(x, r). props_then_text (header_number t) x old r)
            else if starts_with t ''Text-content-length:''
            then rbind (fold_headers total_length 0 d) (\<lambda>(n, r). text_only (header_number t) n old r)
            else rbind (fold_headers (\<lambda>_ _. ()) () d) (\<lambda>(_, r). no_text (header_number t) old r))
       (\<lambda>(c, r). Inr (c, snd (read_line r)))"

definition content_header_line :: "string \<Rightarrow> bool" where
  "content_header_line t \<longleftrightarrow> starts_with t ''Prop-content-length:'' \<or> starts_with t ''Text-content-length:'' \<or>
     starts_with t ''Content-length:''"

definition set_node_header :: "string \<Rightarrow> stream_node \<Rightarrow> stream_node" where
  "set_node_header t nd =
     (if starts_with t ''Node-kind:'' then nd\<lparr>sn_kind := node_kind_of (parse_header_value t)\<rparr>
      else if starts_with t ''Node-action:'' then nd\<lparr>sn_action := node_action_of (parse_header_value t)\<rparr>
      else if starts_with t ''Node-copyfrom-path:'' then nd\<lparr>sn_copy_from_path := Some (parse_header_value t)\<rparr>
      else if starts_with t ''Node-copyfrom-rev:'' then nd\<lparr>sn_copy_from_rev := Some (header_number t)\<rparr>
      else nd)"

function read_stream_node :: "stream_node \<Rightarrow> bytes \<Rightarrow> 'e dump_error + (stream_node \<times> bytes)" where
  "read_stream_node nd d =
     (case read_line d of
        (None, r) \<Rightarrow> Inl NotUtf8
      | (Some line, r) \<Rightarrow>
          if line = [] then Inr (nd, r)
          else if trim line = [] then Inr (nd, r)
          else if content_header_line (trim line)
            then rbind (content_block (trim line) (sn_content nd) r) (\<lambda>(c, r1). Inr (nd\<lparr>sn_content := c\<rparr>, r1))
          else read_stream_node (set_node_header (trim line) nd) r)"
  by pat_completeness auto
termination
  by (relation "measure (\<lambda>(nd, d). length d)") (auto dest!: sym [of _ "read_line _"] read_line_shorter)

declare read_stream_node.simps [simp del]

definition new_stream_node :: "string \<Rightarrow> stream_node" where
  "new_stream_node path =
     \<lparr>sn_path = path, sn_kind = None, sn_action = None, sn_copy_from_path = None, sn_copy_from_rev = None, sn_content = []\<rparr>"

definition push_stream_node :: "stream_node \<Rightarrow> stream_revision \<Rightarrow> stream_revision" where
  "push_stream_node nd rv = rv\<lparr>sr_nodes := sr_nodes rv @ [nd]\<rparr>"

definition read_stream_revision :: "dump_env \<Rightarrow> string \<Rightarrow> bytes \<Rightarrow> 'e dump_error + (stream_revision \<times> bytes)" where
  "read_stream_revision D t d =
     rbind (read_content_headers d) (\<lambda>((prop_len, content_len), d1).
       rbind (revision_props prop_len content_len d1) (\<lambda>(props, d2).
         Inr (\<lparr>sr_number = header_number t,
               sr_author = unwrap_or ''unknown'' (props ''svn:author''),
               sr_message = unwrap_or [] (props ''svn:log''),
               sr_timestamp = unwrap_or (clock_at D (length d2)) (Option.bind (props ''svn:date'') (parse_rfc3339 D)),
               sr_nodes = []\<rparr>, d2)))"

lemma fold_headers_le: "fold_headers f x d = Inr (y, r) \<Longrightarrow> length r \<le> length d"
proof (induction f x d rule: fold_headers.induct)
  case (1 f x d)
  obtain l r1 where l: "read_line d = (l, r1)" by (cases "read_line d") auto
  show ?case
  proof (cases l)
    case None
    with "1.prems" l show ?thesis by (simp add: fold_headers.simps [of f x d])
  next
    case (Some line)
    with "1.prems" l show ?thesis
      using "1.IH" [OF l [symmetric] Some] read_line_le [OF l] by (auto simp add: fold_headers.simps [of f x d] split: if_splits)
  qed
qed

lemma content_le:
  "props_then_text n x old d = Inr (c, r) \<Longrightarrow> length r \<le> length d"
  "text_only n k old d = Inr (c, r) \<Longrightarrow> length r \<le> length d"
  "no_text k old d = Inr (c, r) \<Longrightarrow> length r \<le> length d"
  by (auto simp: props_then_text_def text_only_def no_text_def Let_def rbind_eq_Inr split: prod.splits if_splits dest!: read_block_le)

lemma content_block_le: "content_block t old d = Inr (c, r) \<Longrightarrow> length r \<le> length d"
  by (auto simp: content_block_def rbind_eq_Inr split: if_splits dest!: fold_headers_le content_le
      intro: order_trans [OF snd_read_line_le] order_trans)

lemma read_stream_node_le: "read_stream_node nd d = Inr (x, r) \<Longrightarrow> length r \<le> length d"
proof (induction nd d rule: read_stream_node.induct)
  case (1 nd d)
  obtain l r1 where l: "read_line d = (l, r1)" by (cases "read_line d") auto
  show ?case
  proof (cases l)
    case None
    with "1.prems" l show ?thesis by (simp add: read_stream_node.simps [of nd d])
  next
    case (Some line)
    have "length r \<le> length d" if "rbind (content_block t old r1) (\<lambda>(c, r1). Inr (nd\<lparr>sn_content := c\<rparr>, r1)) = Inr (x, r)" for t old
      using that read_line_le [OF l] by (auto simp: rbind_eq_Inr dest!: content_block_le)
    then show ?thesis
      using "1.prems" l Some "1.IH" [OF l [symmetric] Some] read_line_le [OF l]
      by (auto simp add: read_stream_node.simps [of nd d] split: if_splits)
  qed
qed

lemma read_stream_revision_le: "read_stream_revision D t d = Inr (x, r) \<Longrightarrow> length r \<le> length d"
  by (auto simp: read_stream_revision_def read_content_headers_def revision_props_def rbind_eq_Inr split: if_splits
      dest!: read_hdr_buf_le read_block_le)

function stream_loop :: "dump_env \<Rightarrow> (stream_revision \<Rightarrow> 's \<Rightarrow> 's \<times> ('e + unit)) \<Rightarrow> bytes \<Rightarrow> stream_revision option \<Rightarrow> 's \<Rightarrow>
    's \<times> ('e dump_error + unit)" where
  "stream_loop D on_revision d cur st =
     (case read_line d of
        (None, r) \<Rightarrow> (st, Inl NotUtf8)
      | (Some line, r) \<Rightarrow>
          if line = [] then flush_rev on_revision cur st
          else if starts_with (trim line) ''SVN-fs-dump-format-version:'' \<or> starts_with (trim line) ''UUID:''
            then stream_loop D on_revision r cur st
          else if starts_with (trim line) ''Revision-number:'' then
            (case flush_rev on_revision cur st of
               (st1, Inl e) \<Rightarrow> (st1, Inl e)
             | (st1, Inr _) \<Rightarrow>
                 (case read_stream_revision D (trim line) r of
                    Inl e \<Rightarrow> (st1, Inl e)
                  | Inr (rv, r1) \<Rightarrow> stream_loop D on_revision r1 (Some rv) st1))
          else if starts_with (trim line) ''Node-path:'' then
            (case read_stream_node (new_stream_node (parse_header_value (trim line))) r of
               Inl e \<Rightarrow> (st, Inl e)
             | Inr (nd, r1) \<Rightarrow> stream_loop D on_revision r1 (map_option (push_stream_node nd) cur) st)
          else stream_loop D on_revision r cur st)"
  by pat_completeness auto
termination
  by (relation "measure (\<lambda>(D, f, d, cur, st). length d)")
     (auto dest!: sym [of _ "read_line _"] read_line_shorter sym [of _ "read_stream_revision _ _ _"] read_stream_revision_le
        sym [of _ "read_stream_node _ _"] read_stream_node_le)

declare stream_loop.simps [simp del]

definition parse_dump_streaming :: "dump_env \<Rightarrow> (stream_revision \<Rightarrow> 's \<Rightarrow> 's \<times> ('e + unit)) \<Rightarrow> bytes \<Rightarrow> 's \<Rightarrow>
    's \<times> ('e dump_error + unit)" where
  "parse_dump_streaming D on_revision d st = stream_loop D on_revision d None st"

section \<open>Loading\<close>

record load_totals =
  lt_revisions :: nat
  lt_nodes :: nat
  lt_final :: nat

text \<open>A node that is a copy is ignored; every file is added without the executable flag.\<close>

definition load_stream_node :: "'c repo_env \<Rightarrow> stream_node \<Rightarrow> 'c repo \<times> bool \<Rightarrow> 'c repo \<times> bool" where
  "load_stream_node E nd x =
     (let s = fst x;
          add = (fst (add_file_sync E (sn_path nd) (sn_content nd) False s), True);
          create =
            (if sn_copy_from_path nd \<noteq> None \<and> sn_copy_from_rev nd \<noteq> None then x
             else (case sn_kind nd of
                     Some NFile \<Rightarrow> add
                   | Some NDir \<Rightarrow> (fst (mkdir_sync E (sn_path nd) s), True)
                   | None \<Rightarrow> if sn_content nd \<noteq> [] then add else x))
      in case sn_action nd of
           Some NAdd \<Rightarrow> create
         | Some NReplace \<Rightarrow> create
         | Some NDelete \<Rightarrow> (delete_file_sync (sn_path nd) s, True)
         | Some NChange \<Rightarrow> if sn_content nd \<noteq> [] then add else x
         | None \<Rightarrow> x)"

text \<open>The closure of \<open>load_dump_file_blocking\<close>; a failed commit returns with the batch mode on.\<close>

definition load_stream_revision :: "'c repo_env \<Rightarrow> stream_revision \<Rightarrow> 'c repo \<times> load_totals \<Rightarrow>
    ('c repo \<times> load_totals) \<times> (repo_error + unit)" where
  "load_stream_revision E rv x =
     (case x of (s, n) \<Rightarrow>
        if sr_number rv = 0 \<or> length (sr_nodes rv) = 0 then (x, Inr ())
        else
          let count = n\<lparr>lt_revisions := lt_revisions n + 1, lt_nodes := lt_nodes n + length (sr_nodes rv)\<rparr> in
          (case fold (load_stream_node E) (sr_nodes rv) (begin_batch s, False) of
             (s1, False) \<Rightarrow> ((end_batch s1, count), Inr ())
           | (s1, True) \<Rightarrow>
               (case commit_sync E (sr_author rv) (sr_message rv) (sr_timestamp rv) s1 of
                  (s2, Inl e) \<Rightarrow> ((s2, n), Inl e)
                | (s2, Inr r) \<Rightarrow> ((end_batch s2, count\<lparr>lt_final := r\<rparr>), Inr ()))))"

definition load_dump_file :: "'c repo_env \<Rightarrow> dump_env \<Rightarrow> bytes \<Rightarrow> 'c repo \<Rightarrow> ('c repo \<times> load_totals) \<times> (repo_error dump_error + unit)" where
  "load_dump_file E D body s =
     parse_dump_streaming D (load_stream_revision E) body (s, \<lparr>lt_revisions = 0, lt_nodes = 0, lt_final = 0\<rparr>)"

section \<open>Reading the server's records\<close>

definition view_node :: "parsed_node \<Rightarrow> stream_node" where
  "view_node nd =
     \<lparr>sn_path = pn_path nd, sn_kind = pn_kind nd, sn_action = pn_action nd, sn_copy_from_path = None,
      sn_copy_from_rev = None, sn_content = pn_content nd\<rparr>"

definition view_revision :: "parsed_revision \<Rightarrow> stream_revision" where
  "view_revision rv =
     \<lparr>sr_number = revision_number rv, sr_author = pv_author rv, sr_message = pv_message rv,
      sr_timestamp = pv_timestamp rv, sr_nodes = map view_node (pv_nodes rv)\<rparr>"

lemma view_push [simp]: "push_stream_node (view_node nd) (view_revision rv) = view_revision (push_node nd rv)"
  by (simp add: push_stream_node_def view_revision_def push_node_def)

lemma header_number_num [simp]: "header_number = hdr_num"
  by (simp add: header_number_def hdr_num_def parse_header_value_def fun_eq_iff)

lemma parse_dump_props_eq: "parse_dump_props = parse_props_block"
  by (simp add: parse_dump_props_def parse_props_block_def fun_eq_iff)

lemma revision_props_eq: "revision_props pl cl d = rev_props pl cl d"
  unfolding revision_props_def rev_props_def parse_dump_props_eq Let_def by simp

lemma read_stream_revision_eq:
  "read_stream_revision D t d = rbind (parse_revision D t d) (\<lambda>(rv, r). Inr (view_revision rv, r))"
proof (cases "read_hdr_buf 0 0 d :: 'a dump_error + _")
  case (Inr x)
  obtain pl cl d1 where x: "x = ((pl, cl), d1)" by (metis surj_pair)
  show ?thesis
    by (cases "rev_props pl cl d1 :: 'a dump_error + _")
      (auto simp: read_stream_revision_def parse_revision_def read_content_headers_def revision_props_eq Inr x view_revision_def)
qed (simp add: read_stream_revision_def parse_revision_def read_content_headers_def)

lemma copy_keys:
  assumes "name_ok n"
  shows "starts_with (n @ '': '' @ v) ''Node-copyfrom-path:'' \<longleftrightarrow> n = ''Node-copyfrom-path''"
    and "starts_with (n @ '': '' @ v) ''Node-copyfrom-rev:'' \<longleftrightarrow> n = ''Node-copyfrom-rev''"
  by (rule starts_with_key [OF assms]; simp)+

lemma fold_headers_header:
  assumes "name_ok n" "value_ok v"
  shows "fold_headers f x (header n v @ r) = fold_headers f (f (n @ '': '' @ v) x) r"
  unfolding fold_headers.simps [of f x "header n v @ r"] read_header_line [OF assms] prod.case option.case by simp

lemma fold_headers_blank: "fold_headers f x (blank_line @ r) = Inr (x, r)"
  by (simp add: fold_headers.simps [of f x "blank_line @ r"] dump_read)

lemma stream_node_blank: "read_stream_node nd (blank_line @ r) = Inr (nd, r)"
  by (simp add: read_stream_node.simps [of nd "blank_line @ r"] dump_read)

lemma stream_node_header:
  assumes "name_ok n" "value_ok v"
  shows "read_stream_node nd (header n v @ r) =
    (if content_header_line (n @ '': '' @ v)
     then rbind (content_block (n @ '': '' @ v) (sn_content nd) r) (\<lambda>(c, r1). Inr (nd\<lparr>sn_content := c\<rparr>, r1))
     else read_stream_node (set_node_header (n @ '': '' @ v) nd) r)"
  unfolding read_stream_node.simps [of nd "header n v @ r"] read_header_line [OF assms] prod.case option.case
  by (rule trans [OF if_not_P trans [OF if_not_P refl]]; simp add: assms)

lemma stream_pre_headers:
  assumes "value_ok v"
  shows "read_stream_node nd (header ''Node-kind'' v @ r) = read_stream_node (nd\<lparr>sn_kind := node_kind_of v\<rparr>) r"
    and "read_stream_node nd (header ''Node-action'' v @ r) = read_stream_node (nd\<lparr>sn_action := node_action_of v\<rparr>) r"
proof -
  note h = header_names(5,6)
  have v: "parse_header_value (''Node-kind'' @ '': '' @ v) = v" "parse_header_value (''Node-action'' @ '': '' @ v) = v"
    unfolding parse_header_value_def hdr_val_header [OF h(1) assms] hdr_val_header [OF h(2) assms] by simp_all
  show "read_stream_node nd (header ''Node-kind'' v @ r) = read_stream_node (nd\<lparr>sn_kind := node_kind_of v\<rparr>) r"
    unfolding stream_node_header [OF h(1) assms] content_header_line_def set_node_header_def v
      header_keys [OF h(1)] copy_keys [OF h(1)] by simp
  show "read_stream_node nd (header ''Node-action'' v @ r) = read_stream_node (nd\<lparr>sn_action := node_action_of v\<rparr>) r"
    unfolding stream_node_header [OF h(2) assms] content_header_line_def set_node_header_def v
      header_keys [OF h(2)] copy_keys [OF h(2)] by simp
qed

lemma stream_prop_length:
  assumes "k < 2 ^ 64"
  shows "read_stream_node nd (header ''Prop-content-length'' (show_nat k) @ r) =
    rbind (rbind (rbind (fold_headers text_lengths (0, 0) r) (\<lambda>(x, r). props_then_text k x (sn_content nd) r))
        (\<lambda>(c, r). Inr (c, snd (read_line r)))) (\<lambda>(c, r1). Inr (nd\<lparr>sn_content := c\<rparr>, r1))"
  unfolding stream_node_header [OF header_names(1) value_ok_num] content_header_line_def content_block_def
    header_keys [OF header_names(1)] header_number_num hdr_num_header [OF header_names(1) assms] by simp

lemma text_length_headers:
  assumes "k < 2 ^ 64"
  shows "fold_headers text_lengths x (header ''Text-content-length'' (show_nat k) @ r) = fold_headers text_lengths (k, snd x) r"
    and "fold_headers text_lengths x (header ''Content-length'' (show_nat k) @ r) = fold_headers text_lengths (fst x, k) r"
  unfolding fold_headers_header [OF header_names(2) value_ok_num] fold_headers_header [OF header_names(3) value_ok_num]
    text_lengths_def header_keys [OF header_names(2)] header_keys [OF header_names(3)] header_number_num
    hdr_num_header [OF header_names(2) assms] hdr_num_header [OF header_names(3) assms] by simp_all

lemma text_length_md5:
  assumes "value_ok v"
  shows "fold_headers text_lengths x (header ''Text-content-md5'' v @ r) = fold_headers text_lengths x r"
  unfolding fold_headers_header [OF header_names(4) assms] text_lengths_def header_keys [OF header_names(4)] by simp

lemma props_then_text_written:
  assumes "length np + length c < 2 ^ 63" "0 < length np"
  shows "props_then_text (length np) (length c, length np + length c) [] (np @ c @ d) = Inr (c, d)"
proof -
  have "\<not> 2 ^ 63 \<le> length np + length c" "(length np + length c) mod 2 ^ 64 = length np + length c"
    using assms(1) by simp_all
  moreover have "take (length np + length c) (np @ c @ d) = np @ c" "drop (length np + length c) (np @ c @ d) = d" by simp_all
  ultimately show ?thesis
    using assms(2) unfolding props_then_text_def read_block_def Let_def prod.case by (simp del: take_append drop_append) simp
qed

lemma stream_header:
  assumes "name_ok n" "value_ok v"
  shows "stream_loop D f (header n v @ r) cur st =
    (if n = ''SVN-fs-dump-format-version'' \<or> n = ''UUID'' then stream_loop D f r cur st
     else if n = ''Revision-number'' then
       (case flush_rev f cur st of
          (st1, Inl e) \<Rightarrow> (st1, Inl e)
        | (st1, Inr _) \<Rightarrow>
            (case read_stream_revision D (n @ '': '' @ v) r of
               Inl e \<Rightarrow> (st1, Inl e)
             | Inr (rv, r1) \<Rightarrow> stream_loop D f r1 (Some rv) st1))
     else if n = ''Node-path'' then
       (case read_stream_node (new_stream_node v) r of
          Inl e \<Rightarrow> (st, Inl e)
        | Inr (nd, r1) \<Rightarrow> stream_loop D f r1 (map_option (push_stream_node nd) cur) st)
     else stream_loop D f r cur st)"
proof -
  have ne: "(n @ '': '' @ v) @ newl \<noteq> []" by simp
  show ?thesis
    unfolding stream_loop.simps [of D f "header n v @ r" cur st] read_header_line [OF assms] prod.case option.case
      header_keys [OF assms(1)] parse_header_value_def hdr_val_header [OF assms] if_not_P [OF ne] ..
qed

lemma stream_node_path:
  assumes "value_ok v"
  shows "stream_loop D f (header ''Node-path'' v @ r) cur st =
    (case read_stream_node (new_stream_node v) r of
       Inl e \<Rightarrow> (st, Inl e)
     | Inr (nd, r1) \<Rightarrow> stream_loop D f r1 (map_option (push_stream_node nd) cur) st)"
  unfolding stream_header [OF header_names(7) assms] by simp

lemma stream_blank: "stream_loop D f (blank_line @ r) cur st = stream_loop D f r cur st"
  by (simp add: stream_loop.simps [of D f "blank_line @ r"] dump_read starts_with_iff)

lemma stream_end: "stream_loop D f [] cur st = flush_rev f cur st"
  by (simp add: stream_loop.simps [of D f "[]"] read_line_def)

lemma stream_rev_record:
  assumes "r < 2 ^ 64" "rev_text_ok a m dt"
  shows "stream_loop D (f :: _ \<Rightarrow> _ \<Rightarrow> _ \<times> ('e + unit)) (rev_record r (build_rev_props a m dt) @ d) cur st =
    (case flush_rev f cur st of
       (st1, Inl e) \<Rightarrow> (st1, Inl e)
     | (st1, Inr _) \<Rightarrow> stream_loop D f d (Some (view_revision (read_revision D r a m dt (Suc (length d))))) st1)"
proof -
  let ?p = "build_rev_props a m dt"
  have "(read_stream_revision D (''Revision-number'' @ '': '' @ show_nat r) :: _ \<Rightarrow> 'e dump_error + _)
      (header ''Prop-content-length'' (show_nat (length ?p)) @
       header ''Content-length'' (show_nat (length ?p)) @ blank_line @ ?p @ blank_line @ d) =
    Inr (view_revision (read_revision D r a m dt (Suc (length d))), blank_line @ d)"
    unfolding read_stream_revision_eq parse_written_revision [OF assms] by simp
  moreover have "\<not> (''Revision-number'' = ''SVN-fs-dump-format-version'' \<or> ''Revision-number'' = ''UUID'')" by simp
  ultimately show ?thesis
    unfolding rev_record_def append_assoc stream_header [OF header_names(8) value_ok_num]
    by (simp only: if_False if_True simp_thms sum.case prod.case stream_blank)
qed

lemma stream_file_record:
  assumes "value_ok path" "value_ok action" "length (build_node_props x) + length c < 2 ^ 63"
  shows "stream_loop D (f :: _ \<Rightarrow> _ \<Rightarrow> _ \<times> ('e + unit)) (file_record path action x c @ d) cur st =
    stream_loop D f d (map_option (push_stream_node (view_node (read_file path action c))) cur) st"
proof -
  let ?np = "build_node_props x"
  have n: "length ?np < 2 ^ 64" "length c < 2 ^ 64" "length ?np + length c < 2 ^ 64" "0 < length ?np"
    using assms(3) by (simp_all add: build_node_props_def)
  have nd: "sn_content (new_stream_node path\<lparr>sn_kind := k, sn_action := a\<rparr>) = []" for k a by (simp add: new_stream_node_def)
  have "(read_stream_node (new_stream_node path) :: _ \<Rightarrow> 'e dump_error + _)
      (header ''Node-kind'' ''file'' @ header ''Node-action'' action @ header ''Prop-content-length'' (show_nat (length ?np)) @
       header ''Text-content-length'' (show_nat (length c)) @ header ''Text-content-md5'' (md5_hex c) @
       header ''Content-length'' (show_nat (length ?np + length c)) @ blank_line @ ?np @ c @ blank_line @ blank_line @ d) =
    Inr (view_node (read_file path action c), blank_line @ d)"
    unfolding stream_pre_headers [OF value_ok_words(1)] stream_pre_headers [OF assms(2)] stream_prop_length [OF n(1)]
      text_length_headers [OF n(2)] text_length_md5 [OF value_ok_md5] text_length_headers [OF n(3)] fold_headers_blank
      rbind_simps prod.case fst_conv snd_conv nd props_then_text_written [OF assms(3) n(4)] read_blank
    by (simp add: view_node_def read_file_def new_stream_node_def node_kind_of_def)
  then show ?thesis
    unfolding file_record_def Let_def append_assoc stream_node_path [OF assms(1)] by (simp only: sum.case prod.case stream_blank)
qed

lemma stream_dir_record:
  assumes "value_ok path" "value_ok action"
  shows "stream_loop D (f :: _ \<Rightarrow> _ \<Rightarrow> _ \<times> ('e + unit)) (dir_record path action @ d) cur st =
    stream_loop D f d (map_option (push_stream_node (view_node (read_dir path action))) cur) st"
proof -
  let ?np = "build_empty_props"
  have n: "length ?np < 2 ^ 64" "length ?np + length ([] :: bytes) < 2 ^ 63" "0 < length ?np"
    by (simp_all add: build_empty_props_def)
  have nd: "sn_content (new_stream_node path\<lparr>sn_kind := k, sn_action := a\<rparr>) = []" for k a by (simp add: new_stream_node_def)
  note body = props_then_text_written [OF n(2,3), unfolded list.size add_0_right append_Nil]
  have "(read_stream_node (new_stream_node path) :: _ \<Rightarrow> 'e dump_error + _)
      (header ''Node-kind'' ''dir'' @ header ''Node-action'' action @ header ''Prop-content-length'' (show_nat (length ?np)) @
       header ''Content-length'' (show_nat (length ?np)) @ blank_line @ ?np @ blank_line @ blank_line @ d) =
    Inr (view_node (read_dir path action), blank_line @ d)"
    unfolding stream_pre_headers [OF value_ok_words(2)] stream_pre_headers [OF assms(2)] stream_prop_length [OF n(1)]
      text_length_headers [OF n(1)] fold_headers_blank rbind_simps prod.case fst_conv snd_conv nd body read_blank
    by (simp add: view_node_def read_dir_def new_stream_node_def node_kind_of_def)
  then show ?thesis
    unfolding dir_record_def Let_def append_assoc stream_node_path [OF assms(1)] by (simp only: sum.case prod.case stream_blank)
qed

lemma stream_delete_record:
  assumes "value_ok path"
  shows "stream_loop D f (delete_record path @ d) cur st =
    stream_loop D f d (map_option (push_stream_node (view_node (read_delete path))) cur) st"
  unfolding delete_record_def append_assoc stream_node_path [OF assms] stream_pre_headers [OF value_ok_words(5)]
    stream_node_blank sum.case prod.case
  by (simp add: view_node_def read_delete_def new_stream_node_def node_action_of_def)

lemma push_viewed: "map_option (push_stream_node (view_node nd)) (map_option view_revision rv) =
    map_option view_revision (map_option (push_node nd) rv)"
  by (simp add: option.map_comp comp_def)

interpretation admin_reader: dump_reader D view_revision f "stream_loop D f" for D f
proof unfold_locales
  show "stream_loop D f (header ''SVN-fs-dump-format-version'' (show_nat n) @ d) cur st = stream_loop D f d cur st" for n d cur st
    unfolding stream_header [OF header_names(9) value_ok_num] by simp
  show "stream_loop D f (header ''UUID'' u @ d) cur st = stream_loop D f d cur st" if "value_ok u" for u d cur st
    unfolding stream_header [OF header_names(10) that] by simp
qed (simp_all only: stream_end stream_blank stream_rev_record stream_file_record stream_dir_record stream_delete_record push_viewed)

section \<open>Both loaders do the same\<close>

lemma load_node_view:
  "load_stream_node E (view_node nd) (s, b) = (fst (fst (load_node E nd (s, st))), b \<or> snd (load_node E nd (s, st)))"
  by (auto simp: load_stream_node_def view_node_def load_node_def load_add_def Let_def
      split: option.split node_action.split node_kind.split)

lemma load_nodes_view:
  "fold (load_stream_node E) (map view_node nds) (s, b) =
     (fst (fst (load_nodes E nds ((s, st), b))), snd (load_nodes E nds ((s, st), b)))"
proof (induction nds arbitrary: s b st)
  case (Cons nd nds)
  obtain s1 st1 ch where n: "load_node E nd (s, st) = ((s1, st1), ch)" by (metis surj_pair)
  with load_node_view [of E nd s b st] Cons.IH [of s1 "b \<or> ch" st1] show ?case by simp
qed simp

lemma load_revision_view:
  "fst (fst (load_stream_revision E (view_revision rv) (s, n))) = fst (fst (load_revision E rv (s, st))) \<and>
   snd (load_stream_revision E (view_revision rv) (s, n)) = snd (load_revision E rv (s, st))"
proof (cases "revision_number rv = 0 \<or> pv_nodes rv = []")
  case True
  then show ?thesis by (auto simp: load_stream_revision_def load_revision_def view_revision_def)
next
  case False
  obtain s1 st1 ch where l: "load_nodes E (pv_nodes rv) ((begin_batch s, st), False) = ((s1, st1), ch)" by (metis surj_pair)
  have f: "fold (load_stream_node E) (map view_node (pv_nodes rv)) (begin_batch s, False) = (s1, ch)"
    using load_nodes_view [of E "pv_nodes rv" "begin_batch s" False st] l by simp
  obtain s2 res where "commit_sync E (pv_author rv) (pv_message rv) (pv_timestamp rv) s1 = (s2, res)" by fastforce
  with False l f show ?thesis
    by (cases ch; cases res) (simp_all add: load_stream_revision_def load_revision_def view_revision_def Let_def)
qed

lemma feed_view:
  "fst (fst (feed (load_stream_revision E) (map view_revision rvs) (s, n))) = fst (fst (feed (load_revision E) rvs (s, st))) \<and>
   snd (feed (load_stream_revision E) (map view_revision rvs) (s, n)) = snd (feed (load_revision E) rvs (s, st))"
proof (induction rvs arbitrary: s n st)
  case (Cons rv rvs)
  obtain s1 n1 r1 where a: "load_stream_revision E (view_revision rv) (s, n) = ((s1, n1), r1)" by (metis surj_pair)
  obtain s2 st2 r2 where b: "load_revision E rv (s, st) = ((s2, st2), r2)" by (metis surj_pair)
  have "s1 = s2" "r1 = r2" using load_revision_view [of E rv s n st] a b by simp_all
  with a b Cons.IH [of s2 n1 st2] show ?case by (cases r2) simp_all
qed simp

text \<open>
  C12. The administration tool loads a dump of the server exactly as the server does, although its
  parser is a different one: for every range of a reachable repository whose revisions the format
  can carry, and for every destination, both leave the same repository and both succeed or fail with
  the same error.
\<close>

theorem admin_load_agrees:
  assumes "reachable E s" and "end_rev p \<le> r_current_rev s" and "value_ok (r_uuid s)"
    and "list_all (dump_rev_ok E D s) [start_rev p..<Suc (end_rev p)]"
  shows "\<exists>s' data. generate_dump E D p s = Some (s', data) \<and>
    (\<forall>t. fst (fst (load_dump_file E D data t)) = fst (handle_load E D ms data t) \<and>
      (case snd (handle_load E D ms data t) of
         Loaded _ \<Rightarrow> snd (load_dump_file E D data t) = Inr ()
       | LoadFailed e \<Rightarrow> snd (load_dump_file E D data t) = Inl e))"
proof -
  let ?rs = "map (dumped_revision E s) [start_rev p..<Suc (end_rev p)]"
  obtain s' data where g: "generate_dump E D p s = Some (s', data)"
    "\<And>st. parse_dump_stream D (load_revision E) data st = feed (load_revision E) ?rs st"
    using generate_dump_ok [OF assms, of "load_revision E"] by blast
  have a: "stream_loop D (load_stream_revision E) data None st = feed (load_stream_revision E) (map view_revision ?rs) st" for st
    using admin_reader.generate_dump_reads [OF assms, of "load_stream_revision E"] g(1)
    by (cases st) (simp add: comp_def del: upt_Suc)
  have "fst (fst (load_dump_file E D data t)) = fst (handle_load E D ms data t) \<and>
      (case snd (handle_load E D ms data t) of
         Loaded _ \<Rightarrow> snd (load_dump_file E D data t) = Inr ()
       | LoadFailed e \<Rightarrow> snd (load_dump_file E D data t) = Inl e)" for t
  proof -
    obtain u st res where f: "feed (load_revision E) ?rs (t, no_stats) = ((u, st), res)" by (metis surj_pair)
    have "fst (fst (load_dump_file E D data t)) = u" "snd (load_dump_file E D data t) = res"
      using feed_view [of E ?rs t "\<lparr>lt_revisions = 0, lt_nodes = 0, lt_final = 0\<rparr>" no_stats] f
      by (simp_all add: load_dump_file_def parse_dump_streaming_def a del: upt_Suc map_map)
    then show ?thesis by (cases res) (simp_all add: handle_load_def g(2) f del: upt_Suc)
  qed
  with g(1) show ?thesis by blast
qed

theorem admin_load_agrees_witness:
  "\<exists>s' data. generate_dump sample sample_dates full_dump sample_one = Some (s', data) \<and>
     fst (fst (load_dump_file sample sample_dates data sample_repo)) = fst (handle_load sample sample_dates 5 data sample_repo)"
  using admin_load_agrees [OF sample_one_reachable, of full_dump sample_dates 5] sample_uuid sample_dump_ok sample_one_facts(2)
  by (auto simp: full_dump_def simp del: upt_Suc)

section \<open>Loading any bytes\<close>

lemma stream_loop_keeps:
  assumes "\<And>rv st. P st \<Longrightarrow> P (fst (f rv st))" and "P st"
  shows "P (fst (stream_loop D f d cur st))"
proof -
  have flush: "P (fst (flush_rev f c x))" if "P x" for c x
  proof (cases c)
    case (Some rv)
    with assms(1) [OF that, of rv] show ?thesis by (cases "f rv x") (auto simp: flush_rev_def split: sum.split)
  qed (simp add: flush_rev_def that)
  from assms(2) show ?thesis
  proof (induction "length d" arbitrary: d cur st rule: less_induct)
    case less
    obtain y r where y: "read_line d = (y, r)" by (cases "read_line d") auto
    note s = stream_loop.simps [of D f d cur st] y
    show ?case
    proof (cases "y = None \<or> y = Some []")
      case True
      with less.prems flush [OF less.prems] show ?thesis by (auto simp: s)
    next
      case False
      then obtain line where l: "y = Some line" "line \<noteq> []" by auto
      then have r: "length r < length d" using read_line_shorter y by blast
      obtain st1 res where f: "flush_rev f cur st = (st1, res)" by (cases "flush_rev f cur st")
      have 1: "P st1" using flush [OF less.prems, of cur] f by simp
      have rev: "P (fst (stream_loop D f r1 (Some rv) st1))" if "read_stream_revision D (trim line) r = Inr (rv, r1)" for rv r1
        using less.hyps [OF _ 1] read_stream_revision_le [OF that] r by simp
      have node: "P (fst (stream_loop D f r1 c st))" if "read_stream_node nd r = Inr (x, r1)" for nd x r1 c
        using less.hyps [OF _ less.prems] read_stream_node_le [OF that] r by simp
      from l f 1 less.prems less.hyps [OF r less.prems] show ?thesis
        by (auto simp: s split: sum.split dest: rev node)
    qed
  qed
qed

lemma grows_load_stream_node: "grows s (fst (load_stream_node E nd (s, b)))"
  by (auto simp: load_stream_node_def Let_def split: option.split node_action.split node_kind.split)

lemma grows_load_stream_nodes: "grows s (fst (fold (load_stream_node E) nds (s, b)))"
proof (induction nds arbitrary: s b)
  case (Cons nd nds)
  obtain s1 b1 where n: "load_stream_node E nd (s, b) = (s1, b1)" by (cases "load_stream_node E nd (s, b)")
  have "grows s s1" using grows_load_stream_node [of s E nd b] n by simp
  with Cons.IH [of s1 b1] n show ?case by (auto intro: grows_trans)
qed simp

lemma grows_load_stream_revision: "grows s (fst (fst (load_stream_revision E rv (s, n))))"
proof -
  obtain s1 ch where l: "fold (load_stream_node E) (sr_nodes rv) (begin_batch s, False) = (s1, ch)"
    by (cases "fold (load_stream_node E) (sr_nodes rv) (begin_batch s, False)")
  have g: "grows s s1"
    using grows_trans [of s "begin_batch s" s1] grows_load_stream_nodes [of "begin_batch s" E "sr_nodes rv" False] l by simp
  obtain s2 res where c: "commit_sync E (sr_author rv) (sr_message rv) (sr_timestamp rv) s1 = (s2, res)" by fastforce
  have g2: "grows s s2" using grows_trans [OF g] grows_commit_sync [of s1 E "sr_author rv" "sr_message rv" "sr_timestamp rv"] c by simp
  have "grows s (end_batch s1)" "grows s (end_batch s2)" using grows_trans [OF g] grows_trans [OF g2] by simp_all
  with l c g2 show ?thesis by (cases ch; cases res) (auto simp: load_stream_revision_def Let_def)
qed

lemma grows_load_dump_file: "grows s (fst (fst (load_dump_file E D body s)))"
  unfolding load_dump_file_def parse_dump_streaming_def
  by (rule stream_loop_keeps [where P = "\<lambda>x. grows s (fst x)"])
    (auto simp: split_paired_all intro: grows_trans grows_load_stream_revision)

end
