(* ===== verification/Tree_Walk.thy ===== *)
theory Tree_Walk
  imports Sync_Mirror Sync_Properties Dump_Properties
begin

text \<open>
  What the tools that walk the trees of a repository rest on: in a reachable repository every path of
  every tree is without a leading slash, so that \<open>format!("/{}", path)\<close> finds the entry again, and
  reading keeps the repository in such a state.
\<close>

lemma tree_paths_plain:
  assumes "history_inv E s" and "changes_inv E s" and "r \<le> r_current_rev s"
  shows "list_all (plain_path \<circ> fst) (tree_of E s r)"
proof -
  have "plain_path p" if pe: "map_of (tree_of E s r) p = Some e" for p e
  proof -
    obtain k where "Upsert p e \<in> set (rev_changes E s k)" using tree_of_origin [OF assms(1,3) pe] by blast
    moreover have "delta_plain E (rev_changes E s k)" using assms(2) by (simp add: changes_inv_def)
    ultimately show ?thesis by (auto simp: delta_plain_def list_all_iff)
  qed
  moreover have "map_of (tree_of E s r) (fst x) = Some (snd x)" if "x \<in> set (tree_of E s r)" for x
    using that omap_ok_distinct [OF tree_of_ok, of E s r] by (simp add: map_of_is_SomeI)
  ultimately show ?thesis by (auto simp: list_all_iff)
qed

definition verifiable :: "'c repo_env \<Rightarrow> 'c repo \<Rightarrow> bool" where
  "verifiable E s \<longleftrightarrow> lru_ok E \<and> history_inv E s \<and> changes_inv E s"

lemma verifiable_read: "verifiable E s \<Longrightarrow> read_ok E s s' \<Longrightarrow> verifiable E s'"
proof -
  assume v: "verifiable E s" and r: "read_ok E s s'"
  have oc: "only_cache s s'" using r by (simp add: read_ok_def)
  have "pend_of s' = pend_of s" using only_cacheD(7) [OF oc] by (simp add: pend_of_def fun_eq_iff)
  with v r read_ok_spec(4,5) [OF r] only_cacheD(5) [OF oc] show "verifiable E s'"
    by (simp add: verifiable_def read_ok_def changes_inv_def)
qed

lemma reachable_verifiable: "reachable E s \<Longrightarrow> verifiable E s"
  using reachable_life [of E s] reachable_source(1,2) [of E s] by (simp add: verifiable_def life_inv_def repo_inv_def env_ok_def)

end
