(* ===== verification/Admin_Commands.thy ===== *)
theory Admin_Commands
  imports Admin_Dump Sync_Compat Tree_Walk
begin

text \<open>
  Commands of the administration tool, \<open>dsvn-admin-cli/src/main.rs\<close> and \<open>verify_mod.rs\<close>: creating and
  loading a repository, setting and deleting revision properties with their hooks, changing the
  identifier, packing, removing locks, and the verification with its transfer of missing objects.
  The date parser and the check of an identifier are parameters, as are the answers of the server a
  verification asks for objects.
\<close>

datatype admin_fail =
    NoSuchRevision nat nat
  | CommitMissing nat
  | CommitDamaged
  | HookRefused hook_error
  | InvalidDate string
  | DateNotDeletable
  | NoSuchProperty string nat
  | NotARepository
  | InvalidUuid string
  | AdminRepo repo_error
  | AdminLoad "repo_error dump_error"
  | AdminFetch sync_fail
  | VerificationFailed nat
  | FileUnreadable

text \<open>Every command that needs the repository opens and initialises it first.\<close>

definition with_site :: "'c repo_env \<Rightarrow> int \<Rightarrow> string \<Rightarrow> ('c site \<Rightarrow> ('c site \<times> (admin_fail + 'a)) option) \<Rightarrow> 'c site \<Rightarrow>
    ('c site \<times> (admin_fail + 'a)) option" where
  "with_site E now u f S =
     Option.bind (open_site E now u S) (\<lambda>(S1, x).
       case x of Inl e \<Rightarrow> Some (S1, Inl (AdminRepo e)) | Inr _ \<Rightarrow> f S1)"

definition admin_init :: "'c repo_env \<Rightarrow> int \<Rightarrow> string \<Rightarrow> 'c site \<Rightarrow> ('c site \<times> (admin_fail + unit)) option" where
  "admin_init E now u = with_site E now u (\<lambda>S. Some (S, Inr ()))"

text \<open>The input is the content of the file or of the standard input; \<open>None\<close> is a file that cannot be opened.\<close>

definition cmd_load :: "'c repo_env \<Rightarrow> dump_env \<Rightarrow> int \<Rightarrow> string \<Rightarrow> bytes option \<Rightarrow> 'c site \<Rightarrow> ('c site \<times> (admin_fail + load_totals)) option" where
  "cmd_load E D now u input =
     with_site E now u (\<lambda>S.
       case input of
         None \<Rightarrow> Some (S, Inl FileUnreadable)
       | Some body \<Rightarrow>
           (case load_dump_file E D body (st_repo S) of
              ((s, n), Inl e) \<Rightarrow> Some (S\<lparr>st_repo := s\<rparr>, Inl (AdminLoad e))
            | ((s, n), Inr _) \<Rightarrow> Some (S\<lparr>st_repo := s\<rparr>, Inr n)))"

section \<open>Revision properties\<close>

definition in_commit :: "string \<Rightarrow> bool" where
  "in_commit name \<longleftrightarrow> name = ''svn:log'' \<or> name = ''svn:author'' \<or> name = ''svn:date''"

definition load_commit_file :: "'c repo_env \<Rightarrow> 'c site \<Rightarrow> nat \<Rightarrow> admin_fail + commit" where
  "load_commit_file E S r =
     rbind (ok_or (CommitMissing r) (map_of (r_commits (st_repo S)) r)) (\<lambda>bs. ok_or CommitDamaged (de_commit E bs))"

definition save_commit_file :: "'c repo_env \<Rightarrow> nat \<Rightarrow> commit \<Rightarrow> 'c site \<Rightarrow> 'c site" where
  "save_commit_file E r c S = map_repo (store_commit E r c) S"

definition hook_check :: "hook_error + unit \<Rightarrow> admin_fail + unit" where
  "hook_check x = (case x of Inl h \<Rightarrow> Inl (HookRefused h) | Inr _ \<Rightarrow> Inr ())"

definition change_commit :: "dump_env \<Rightarrow> string \<Rightarrow> string \<Rightarrow> commit \<Rightarrow> admin_fail + commit" where
  "change_commit D name value c =
     (if name = ''svn:log'' then Inr (c\<lparr>message := value\<rparr>)
      else if name = ''svn:author'' then Inr (c\<lparr>author := value\<rparr>)
      else (case parse_rfc3339 D value of
              Some ts \<Rightarrow> Inr (c\<lparr>timestamp := ts\<rparr>)
            | None \<Rightarrow> Inl (InvalidDate value)))"

definition revision_author :: "'c repo_env \<Rightarrow> 'c site \<Rightarrow> nat \<Rightarrow> string" where
  "revision_author E S r = (case get_commit E (st_repo S) r of Some c \<Rightarrow> author c | None \<Rightarrow> [])"

text \<open>The result of the hook after a change is never an error, so it does not appear here.\<close>

definition set_opened :: "'c repo_env \<Rightarrow> net_env \<Rightarrow> dump_env \<Rightarrow> nat \<Rightarrow> string \<Rightarrow> string \<Rightarrow> 'c site \<Rightarrow> 'c site \<times> (admin_fail + unit)" where
  "set_opened E N D r name value S =
     (if r > r_current_rev (st_repo S) then (S, Inl (NoSuchRevision r (r_current_rev (st_repo S))))
      else if in_commit name then
        (case rbind (load_commit_file E S r) (\<lambda>c.
                rbind (hook_check (run_pre_revprop_change (hooks E) r (author c) name ''M'' value)) (\<lambda>_.
                  change_commit D name value c)) of
           Inl e \<Rightarrow> (S, Inl e)
         | Inr c \<Rightarrow> (save_commit_file E r c S, Inr ()))
      else
        (case hook_check (run_pre_revprop_change (hooks E) r (revision_author E S r) name ''M'' value) of
           Inl e \<Rightarrow> (S, Inl e)
         | Inr _ \<Rightarrow> (store_revprops N r (oput name value (load_revprops N S r)) S, Inr ())))"

text \<open>Without a value on the command line the first line of the standard input is the value.\<close>

definition revprop_value :: "string \<Rightarrow> string option \<Rightarrow> string" where
  "revprop_value stdin_line given = (case given of Some v \<Rightarrow> v | None \<Rightarrow> rev (dropWhile is_space (rev stdin_line)))"

definition cmd_setrevprop :: "'c repo_env \<Rightarrow> net_env \<Rightarrow> dump_env \<Rightarrow> int \<Rightarrow> string \<Rightarrow> string \<Rightarrow> nat \<Rightarrow> string \<Rightarrow> string option \<Rightarrow>
    'c site \<Rightarrow> ('c site \<times> (admin_fail + unit)) option" where
  "cmd_setrevprop E N D now u stdin_line r name given =
     with_site E now u (\<lambda>S. Some (set_opened E N D r name (revprop_value stdin_line given) S))"

definition clear_commit :: "string \<Rightarrow> commit \<Rightarrow> commit" where
  "clear_commit name c = (if name = ''svn:log'' then c\<lparr>message := []\<rparr> else c\<lparr>author := []\<rparr>)"

definition del_opened :: "'c repo_env \<Rightarrow> net_env \<Rightarrow> nat \<Rightarrow> string \<Rightarrow> 'c site \<Rightarrow> 'c site \<times> (admin_fail + unit)" where
  "del_opened E N r name S =
     (let hook = hook_check (run_pre_revprop_change (hooks E) r (revision_author E S r) name ''D'' []) in
      if r > r_current_rev (st_repo S) then (S, Inl (NoSuchRevision r (r_current_rev (st_repo S))))
      else if name = ''svn:log'' \<or> name = ''svn:author'' then
        (case rbind hook (\<lambda>_. load_commit_file E S r) of
           Inl e \<Rightarrow> (S, Inl e)
         | Inr c \<Rightarrow> (save_commit_file E r (clear_commit name c) S, Inr ()))
      else if name = ''svn:date'' then (S, Inl DateNotDeletable)
      else
        (case hook of
           Inl e \<Rightarrow> (S, Inl e)
         | Inr _ \<Rightarrow>
             if \<not> ohas (load_revprops N S r) name then (S, Inl (NoSuchProperty name r))
             else (store_revprops N r (odel name (load_revprops N S r)) S, Inr ())))"

definition cmd_delrevprop :: "'c repo_env \<Rightarrow> net_env \<Rightarrow> int \<Rightarrow> string \<Rightarrow> nat \<Rightarrow> string \<Rightarrow> 'c site \<Rightarrow>
    ('c site \<times> (admin_fail + unit)) option" where
  "cmd_delrevprop E N now u r name = with_site E now u (\<lambda>S. Some (del_opened E N r name S))"

section \<open>Identifier, packing, locks\<close>

text \<open>\<open>drawn\<close> is the identifier drawn when none is given; only the file changes.\<close>

definition cmd_setuuid :: "(string \<Rightarrow> bool) \<Rightarrow> string \<Rightarrow> string option \<Rightarrow> 'c site \<Rightarrow> 'c site \<times> (admin_fail + string \<times> string)" where
  "cmd_setuuid valid_uuid drawn given S =
     (case r_uuid_file (st_repo S) of
        None \<Rightarrow> (S, Inl NotARepository)
      | Some old \<Rightarrow>
          (case given of
             Some u \<Rightarrow>
               if \<not> valid_uuid u then (S, Inl (InvalidUuid u))
               else (map_repo (\<lambda>s. s\<lparr>r_uuid_file := Some u\<rparr>) S, Inr (trim old, u))
           | None \<Rightarrow> (map_repo (\<lambda>s. s\<lparr>r_uuid_file := Some drawn\<rparr>) S, Inr (trim old, drawn))))"

text \<open>
  Packing opens the repository, which imports what older versions left, and then removes those
  files. Temporary files, the log of the database and its free pages are not part of the state.
\<close>

definition cmd_pack :: "'c repo_env \<Rightarrow> int \<Rightarrow> string \<Rightarrow> 'c site \<Rightarrow> ('c site \<times> (admin_fail + unit)) option" where
  "cmd_pack E now u S =
     (case r_uuid_file (st_repo S) of
        None \<Rightarrow> Some (S, Inl NotARepository)
      | Some _ \<Rightarrow>
          with_site E now u (\<lambda>S. Some (map_repo (\<lambda>s. s\<lparr>r_sled_db := None, r_root_tree_bin := None\<rparr>) S, Inr ())) S)"

text \<open>
  A lock file has a name and, when it can be read, a text; \<open>lock_path\<close> is the path in its JSON,
  \<open>None\<close> when the text is not JSON, \<open>Some None\<close> when there is no path in it. With a path only its
  locks are removed, without one all files with the extension \<open>json\<close> (\<open>.json\<close> alone has none). The
  directory of the locks may be missing.
\<close>

definition rm_lock :: "(string \<Rightarrow> string option option) \<Rightarrow> string option \<Rightarrow> string \<times> string option \<Rightarrow> bool" where
  "rm_lock lock_path path f =
     (ends_with (fst f) ''.json'' \<and> fst f \<noteq> ''.json'' \<and>
      (case path of
         None \<Rightarrow> True
       | Some p \<Rightarrow> (case Option.bind (snd f) lock_path of None \<Rightarrow> False | Some lp \<Rightarrow> unwrap_or [] lp = p)))"

definition cmd_rmlocks :: "(string \<Rightarrow> string option option) \<Rightarrow> string option \<Rightarrow> 'c site \<Rightarrow> (string \<times> string option) list option \<Rightarrow>
    (string \<times> string option) list option \<times> (admin_fail + nat)" where
  "cmd_rmlocks lock_path path S locks =
     (case r_uuid_file (st_repo S) of
        None \<Rightarrow> (locks, Inl NotARepository)
      | Some _ \<Rightarrow>
          (case locks of
             None \<Rightarrow> (None, Inr 0)
           | Some files \<Rightarrow>
               (Some (filter (\<lambda>f. \<not> rm_lock lock_path path f) files), Inr (length (filter (rm_lock lock_path path) files)))))"

section \<open>Verification\<close>

record verify_counts =
  vc_errors :: nat
  vc_warnings :: nat
  vc_revs :: nat
  vc_objects :: nat
  vc_missing :: "object_id list"

text \<open>The entries of a tree are visited in the order of their paths; the code visits a hash map.\<close>

fun verify_entries :: "'c repo_env \<Rightarrow> nat \<Rightarrow> (string \<times> tree_entry) list \<Rightarrow> 'c repo \<times> verify_counts \<Rightarrow> ('c repo \<times> verify_counts) option" where
  "verify_entries E r [] x = Some x"
| "verify_entries E r ((path, e) # es) (s, n) =
     (if te_kind e \<noteq> KBlob then verify_entries E r es (s, n)
      else
        (case get_file E (CHR ''/'' # path) r s of
           None \<Rightarrow> None
         | Some (s1, Inr _) \<Rightarrow> verify_entries E r es (s1, n\<lparr>vc_objects := vc_objects n + 1\<rparr>)
         | Some (s1, Inl _) \<Rightarrow>
             verify_entries E r es (s1, n\<lparr>vc_missing := vc_missing n @ [te_id e], vc_errors := vc_errors n + 1\<rparr>)))"

definition verify_delta :: "nat \<Rightarrow> 'c repo \<times> verify_counts \<Rightarrow> 'c repo \<times> verify_counts" where
  "verify_delta r x =
     (case x of (s, n) \<Rightarrow>
        if r = 0 then (s, n)
        else if ohas (r_deltas s) r then (s, n\<lparr>vc_objects := vc_objects n + 1\<rparr>)
        else (s, n\<lparr>vc_warnings := vc_warnings n + 1\<rparr>))"

definition verify_rev :: "'c repo_env \<Rightarrow> nat \<Rightarrow> 'c repo \<times> verify_counts \<Rightarrow> ('c repo \<times> verify_counts) option" where
  "verify_rev E r x =
     (case x of (s, n) \<Rightarrow>
        map_option (\<lambda>(s, n). (s, n\<lparr>vc_revs := vc_revs n + 1\<rparr>))
          (case get_commit E s r of
             None \<Rightarrow> Some (s, n\<lparr>vc_errors := vc_errors n + 1\<rparr>)
           | Some c \<Rightarrow>
               let n1 = (if author c = [] \<and> r > 0 then n\<lparr>vc_warnings := vc_warnings n + 1\<rparr> else n) in
               map_option (verify_delta r)
                 (case get_tree_at_rev E r s of
                    None \<Rightarrow> None
                  | Some (s1, Inl _) \<Rightarrow> Some (s1, n1\<lparr>vc_errors := vc_errors n1 + 1\<rparr>)
                  | Some (s1, Inr tm) \<Rightarrow> verify_entries E r tm (s1, n1))))"

fun verify_revs :: "'c repo_env \<Rightarrow> nat list \<Rightarrow> 'c repo \<times> verify_counts \<Rightarrow> ('c repo \<times> verify_counts) option" where
  "verify_revs E [] x = Some x"
| "verify_revs E (r # rs) x = Option.bind (verify_rev E r x) (verify_revs E rs)"

text \<open>Fetched bytes are stored while the answer is read; as in the repair they are wrapped as blobs.\<close>

record transfer_result =
  tr_fetched :: nat
  tr_bytes :: nat
  tr_errors :: nat

function store_fetched :: "'c repo_env \<Rightarrow> bytes \<Rightarrow> 'c repo \<times> transfer_result \<Rightarrow> ('c repo \<times> transfer_result) \<times> (admin_fail + unit)" where
  "store_fetched E d x =
     (if length d < 36 then (x, Inr ())
      else
        let oid = ObjectId (take 32 d);
            len = be_nat (take 4 (drop 32 d));
            rest = drop 36 d;
            s = fst x; n = snd x
        in if len = 0xFFFFFFFF then store_fetched E rest (s, n\<lparr>tr_errors := tr_errors n + 1\<rparr>)
           else if len > length rest then (x, Inl (AdminFetch TruncatedObject))
           else store_fetched E (drop len rest)
                  (s\<lparr>r_objects := oput oid (blob_to_bytes E (blob_new (take len rest) False)) (r_objects s)\<rparr>,
                   n\<lparr>tr_fetched := tr_fetched n + 1, tr_bytes := tr_bytes n + len\<rparr>))"
  by pat_completeness auto
termination by (relation "measure (\<lambda>(E, d, x). length d)") auto

declare store_fetched.simps [simp del]

definition fetch_missing_objects :: "'c repo_env \<Rightarrow> http \<Rightarrow> object_id list \<Rightarrow> 'c repo \<Rightarrow>
    ('c repo \<times> transfer_result) \<times> (admin_fail + unit)" where
  "fetch_missing_objects E http is s =
     (let none = \<lparr>tr_fetched = 0, tr_bytes = 0, tr_errors = 0\<rparr> in
      case fetch http ''/objects'' (ids_query E is) of
        Inl e \<Rightarrow> ((s, none), Inl (AdminFetch e))
      | Inr d \<Rightarrow> store_fetched E d (s, none))"

definition no_verify :: verify_counts where
  "no_verify = \<lparr>vc_errors = 0, vc_warnings = 0, vc_revs = 0, vc_objects = 0, vc_missing = []\<rparr>"

definition verify_opened :: "'c repo_env \<Rightarrow> http option \<Rightarrow> nat option \<Rightarrow> nat option \<Rightarrow> 'c site \<Rightarrow>
    ('c site \<times> (admin_fail + verify_counts)) option" where
  "verify_opened E server first final S =
     (let s = st_repo S; head = r_current_rev s; a = unwrap_or 0 first; b = min (unwrap_or head final) head in
      map_option (\<lambda>(s1, n).
          case (case server of
                  None \<Rightarrow> (s1, Inr ())
                | Some http \<Rightarrow>
                    if vc_missing n = [] then (s1, Inr ())
                    else (case fetch_missing_objects E http (vc_missing n) s1 of ((s2, m), res) \<Rightarrow> (s2, res))) of
            (s2, Inl e) \<Rightarrow> (S\<lparr>st_repo := s2\<rparr>, Inl e)
          | (s2, Inr _) \<Rightarrow> (S\<lparr>st_repo := s2\<rparr>, if vc_errors n > 0 then Inl (VerificationFailed (vc_errors n)) else Inr n))
        (verify_revs E [a..<Suc b] (s, no_verify)))"

definition verify_repository :: "'c repo_env \<Rightarrow> int \<Rightarrow> string \<Rightarrow> http option \<Rightarrow> nat option \<Rightarrow> nat option \<Rightarrow> 'c site \<Rightarrow>
    ('c site \<times> (admin_fail + verify_counts)) option" where
  "verify_repository E now u server first final = with_site E now u (verify_opened E server first final)"

end
