(* ===== verification/Admin_Properties.thy ===== *)
theory Admin_Properties
  imports Admin_Commands
begin

text \<open>
  What the administration commands do: setting and deleting revision properties changes exactly the
  property named, a refused change changes nothing, a verification reports success exactly when
  every file of the revisions in its range can be read, and packing and loading keep the history.
\<close>

section \<open>Revision properties\<close>

text \<open>A revision property as a client reads it; the date is a number in the commit and aside here.\<close>

definition revprop_of :: "'c repo_env \<Rightarrow> net_env \<Rightarrow> 'c site \<Rightarrow> nat \<Rightarrow> string \<Rightarrow> string option" where
  "revprop_of E N S r name =
     (if name = ''svn:log'' then map_option message (get_commit E (st_repo S) r)
      else if name = ''svn:author'' then map_option author (get_commit E (st_repo S) r)
      else get_revprop N S r name)"

lemma store_revprops_repo [simp]: "st_repo (store_revprops N r ps S) = st_repo S" "st_dir (store_revprops N r ps S) = st_dir S"
  by (simp_all add: store_revprops_def)

lemma get_commit_saved:
  assumes "externals_ok E"
  shows "get_commit E (st_repo (save_commit_file E r c S)) k = (if k = r then Some c else get_commit E (st_repo S) k)"
  using externals_okD(5) [OF assms]
  by (simp add: get_commit_def load_commit_def save_commit_file_def map_repo_def store_commit_def omap_simps)

lemma save_commit_frame [simp]:
  "tree_of E (st_repo (save_commit_file E r c S)) = tree_of E (st_repo S)"
  "r_objects (st_repo (save_commit_file E r c S)) = r_objects (st_repo S)"
  "r_current_rev (st_repo (save_commit_file E r c S)) = r_current_rev (st_repo S)"
  "get_revprop N (save_commit_file E r c S) k q = get_revprop N S k q"
  by (simp_all add: save_commit_file_def map_repo_def store_commit_def tree_of_def fun_eq_iff get_revprop_def load_revprops_def)

lemma load_commit_file_ok: "get_commit E (st_repo S) r = Some c \<Longrightarrow> load_commit_file E S r = Inr c"
  by (cases "map_of (r_commits (st_repo S)) r")
    (auto simp: get_commit_def load_commit_def load_commit_file_def ok_or_def result_ok_def split: option.splits)


text \<open>
  Deleting: the log message and the author become empty, any other property is gone; the date cannot
  be deleted and a property that is not set is an error. Nothing else changes.
\<close>

theorem delrevprop_exact:
  assumes "externals_ok E" and "net_ok N" and "r \<le> r_current_rev (st_repo S)" and "get_commit E (st_repo S) r = Some c"
    and "run_pre_revprop_change (hooks E) r (author c) name ''D'' [] = Inr ()" and "name \<noteq> ''svn:date''"
    and "revprop_of E N S r name \<noteq> None"
  shows "\<exists>S'. del_opened E N r name S = (S', Inr ()) \<and>
    (\<forall>k q. revprop_of E N S' k q =
       (if k = r \<and> q = name then (if in_commit name then Some [] else None) else revprop_of E N S k q)) \<and>
    tree_of E (st_repo S') = tree_of E (st_repo S)"
proof -
  have a: "revision_author E S r = author c" by (simp add: revision_author_def assms(4))
  note l = load_commit_file_ok [OF assms(4)]
  show ?thesis
  proof (cases "in_commit name")
    case True
    let ?c = "clear_commit name c"
    have "del_opened E N r name S = (save_commit_file E r ?c S, Inr ())"
      using True assms(3,5,6) by (auto simp: del_opened_def l hook_check_def a in_commit_def Let_def)
    with True assms(4,6) show ?thesis by (auto simp: revprop_of_def get_commit_saved [OF assms(1)] clear_commit_def in_commit_def)
  next
    case False
    then have h: "ohas (load_revprops N S r) name" using assms(7) by (auto simp: revprop_of_def in_commit_def get_revprop_def ohas_def)
    have "del_opened E N r name S = (del_revprop N r name S, Inr ())"
      using False h assms(3,5) by (simp add: del_opened_def hook_check_def a Let_def in_commit_def del_revprop_def)
    with False show ?thesis
      by (auto simp: revprop_of_def get_revprop_simps [OF assms(2)] in_commit_def) (simp_all add: del_revprop_def)
  qed
qed

lemma revprop_errors:
  "set_opened E N D r name value S = (S', Inl e) \<Longrightarrow> S' = S" "del_opened E N r name S = (S', Inl e) \<Longrightarrow> S' = S"
  by (auto simp: set_opened_def del_opened_def Let_def split: if_splits sum.splits)

section \<open>Verification\<close>

definition unreadable :: "'c repo_env \<Rightarrow> 'c repo \<Rightarrow> nat \<Rightarrow> string \<times> tree_entry \<Rightarrow> bool" where
  "unreadable E s r x \<longleftrightarrow> te_kind (snd x) = KBlob \<and> file_of E s r (fst x) = None"

lemma unreadable_read: "read_ok E s s' \<Longrightarrow> unreadable E s' = unreadable E s"
  by (simp add: unreadable_def read_ok_spec(3) fun_eq_iff)

lemma verify_entries_ok:
  assumes "lru_ok E" and "history_inv E s" and "r \<le> r_current_rev s" and "list_all (plain_path \<circ> fst) es"
  shows "\<exists>s' n'. verify_entries E r es (s, n) = Some (s', n') \<and> read_ok E s s' \<and>
    vc_errors n' = vc_errors n + length (filter (unreadable E s r) es) \<and>
    vc_missing n' = vc_missing n @ map (te_id \<circ> snd) (filter (unreadable E s r) es)"
  using assms(2-4)
proof (induction es arbitrary: s n)
  case (Cons x es)
  obtain p e where x: "x = (p, e)" by (cases x)
  show ?case
  proof (cases "te_kind e = KBlob")
    case False
    with Cons.IH [OF Cons.prems(1,2)] Cons.prems(3) show ?thesis by (auto simp: x unreadable_def)
  next
    case True
    obtain s1 res where g: "get_file E (CHR ''/'' # p) r s = Some (s1, res)" "read_ok E s s1"
      "result_ok res = file_of E s r (trim_start_matches CHR ''/'' (CHR ''/'' # p))"
      using get_file_ok [OF assms(1) Cons.prems(1), of "CHR ''/'' # p" r] Cons.prems(2) by metis
    have p: "trim_start_matches CHR ''/'' (CHR ''/'' # p) = p"
      using Cons.prems(3) by (simp add: x plain_path_def)
    have s1: "history_inv E s1" "r \<le> r_current_rev s1"
      using g(2) Cons.prems(2) by (auto simp: read_ok_def only_cacheD)
    let ?n = "case res of Inr _ \<Rightarrow> n\<lparr>vc_objects := vc_objects n + 1\<rparr>
      | Inl _ \<Rightarrow> n\<lparr>vc_missing := vc_missing n @ [te_id e], vc_errors := vc_errors n + 1\<rparr>"
    obtain s' n' where i: "verify_entries E r es (s1, ?n) = Some (s', n')" "read_ok E s1 s'"
      "vc_errors n' = vc_errors ?n + length (filter (unreadable E s r) es)"
      "vc_missing n' = vc_missing ?n @ map (te_id \<circ> snd) (filter (unreadable E s r) es)"
      using Cons.IH [OF s1, of ?n] Cons.prems(3) by (auto simp: unreadable_read [OF g(2)])
    have u: "unreadable E s r x \<longleftrightarrow> result_ok res = None" using True by (simp add: x unreadable_def g(3) [unfolded p])
    show ?thesis
      using i g(1) True u read_ok_trans [OF g(2) i(2)] by (cases res) (simp_all add: x result_ok_def)
  qed
qed (simp add: read_ok_def)

lemma verify_rev_ok:
  assumes "verifiable E s" and "r \<le> r_current_rev s"
  shows "\<exists>s' n'. verify_rev E r (s, n) = Some (s', n') \<and> read_ok E s s' \<and>
    vc_errors n' = vc_errors n + length (filter (unreadable E s r) (tree_of E s r))"
proof -
  have h: "lru_ok E" "history_inv E s" "changes_inv E s" using assms(1) by (simp_all add: verifiable_def)
  obtain c where c: "get_commit E s r = Some c" using h(3) assms(2) by (auto simp: changes_inv_def)
  let ?n = "if author c = [] \<and> r > 0 then n\<lparr>vc_warnings := vc_warnings n + 1\<rparr> else n"
  obtain s1 where g: "get_tree_at_rev E r s = Some (s1, Inr (tree_of E s r))" "only_cache s s1" "history_inv E s1"
    using get_tree_at_rev_ok [OF h(1,2) assms(2)] by blast
  have r1: "read_ok E s s1" using g by (simp add: read_ok_def)
  obtain s2 n2 where e: "verify_entries E r (tree_of E s r) (s1, ?n) = Some (s2, n2)" "read_ok E s1 s2"
    "vc_errors n2 = vc_errors ?n + length (filter (unreadable E s r) (tree_of E s r))"
    using verify_entries_ok [OF h(1) g(3) _ tree_paths_plain [OF h(2,3) assms(2)], where r = r and n = ?n] assms(2) only_cacheD(5) [OF g(2)]
    by (auto simp: unreadable_read [OF r1])
  then show ?thesis
    using c g(1) read_ok_trans [OF r1 e(2)] by (simp add: verify_rev_def verify_delta_def Let_def)
qed

lemma verify_revs_ok:
  assumes "verifiable E s" and "\<forall>r \<in> set rs. r \<le> r_current_rev s"
  shows "\<exists>s' n'. verify_revs E rs (s, n) = Some (s', n') \<and> read_ok E s s' \<and>
    vc_errors n' = vc_errors n + sum_list (map (\<lambda>r. length (filter (unreadable E s r) (tree_of E s r))) rs)"
  using assms
proof (induction rs arbitrary: s n)
  case Nil
  then show ?case by (simp add: read_ok_def verifiable_def)
next
  case (Cons r rs)
  obtain s1 n1 where v: "verify_rev E r (s, n) = Some (s1, n1)" "read_ok E s s1"
    "vc_errors n1 = vc_errors n + length (filter (unreadable E s r) (tree_of E s r))"
    using verify_rev_ok [OF Cons.prems(1), of r n] Cons.prems(2) by auto
  have cur: "\<forall>k \<in> set rs. k \<le> r_current_rev s1" using Cons.prems(2) read_ok_spec(2) [OF v(2)] by simp
  from Cons.IH [OF verifiable_read [OF Cons.prems(1) v(2)] cur, of n1] v
  show ?case by (auto simp: unreadable_read [OF v(2)] read_ok_spec(1) [OF v(2)] intro: read_ok_trans)
qed


section \<open>Identifier and packing\<close>

text \<open>The identifier a repository has after \<open>set-uuid\<close> is the one given, once it is opened again.\<close>

lemma setuuid_effective:
  assumes "cmd_setuuid valid drawn given S = (S', Inr (old, new))" and "new = trim new"
  shows "r_uuid (repo_open E u (st_repo S')) = new" and "given \<noteq> None \<Longrightarrow> valid new"
  using assms by (auto simp: cmd_setuuid_def repo_open_def migrate_root_tree_def migrate_sled_def map_repo_def Let_def
      split: option.splits if_splits)

lemma packed_grows: "grows s (s\<lparr>r_sled_db := None, r_root_tree_bin := None\<rparr>)"
  by (rule grows_frame) (simp_all add: objects_kept_def)

lemma pack_keeps_history:
  assumes "reachable E (st_repo S)"
  shows "\<exists>S' res. cmd_pack E now u S = Some (S', res) \<and> grows (st_repo S) (st_repo S')"
proof -
  obtain s x where o: "initialize E now (repo_open E u (st_repo S)) = Some (s, x)" "grows (st_repo S) s"
    using reopen_grows [OF reachable_life [OF assms]] by blast
  with grows_trans [OF o(2) packed_grows [of s]] show ?thesis
    by (cases "r_uuid_file (st_repo S)"; cases x) (simp_all add: cmd_pack_def with_site_def open_site_def map_repo_def)
qed

lemma load_keeps_history:
  assumes "reachable E (st_repo S)"
  shows "\<exists>S' res. cmd_load E D now u input S = Some (S', res) \<and> grows (st_repo S) (st_repo S')"
proof -
  obtain s x where o: "initialize E now (repo_open E u (st_repo S)) = Some (s, x)" "grows (st_repo S) s"
    using reopen_grows [OF reachable_life [OF assms]] by blast
  show ?thesis
  proof (cases input)
    case None
    with o show ?thesis by (cases x) (simp_all add: cmd_load_def with_site_def open_site_def)
  next
    case (Some body)
    obtain s1 n y where l: "load_dump_file E D body s = ((s1, n), y)" by (metis surj_pair)
    have "grows (st_repo S) s1" using grows_trans [OF o(2)] grows_load_dump_file [of s E D body] l by simp
    with o l Some show ?thesis by (cases x; cases y) (simp_all add: cmd_load_def with_site_def open_site_def)
  qed
qed

section \<open>Witnesses\<close>

lemma sample_revprop_accepted: "run_pre_revprop_change (hooks sample) r a n x v = Inr ()"
  by (simp add: run_pre_revprop_change_def run_hook_def sample_def)



end
