(* ===== verification/Webdav_Update.thy ===== *)
theory Webdav_Update
  imports Webdav_Server Tree_Walk "HOL-Library.Sublist"
begin

text \<open>
  The update report, by which \<open>svn checkout\<close> receives a tree (\<open>handle_update_report\<close> in
  \<open>dsvn-webdav/src/handlers.rs\<close>), and the dispatch of the \<open>REPORT\<close> method. The answer is written as a
  sequence of editor commands; the client that reads them keeps a stack of open directories. Base64
  and MD5 are those of external crates and parameters here, as are the two date functions.
\<close>

section \<open>The report\<close>

record update_env =
  ue_date :: "int \<Rightarrow> string option"
  ue_now :: string
  ue_base64 :: "bytes \<Rightarrow> string"
  ue_md5 :: "bytes \<Rightarrow> string"

text \<open>What is written about every node: revision, date and author of the revision, and the identifier.\<close>

record update_ctx =
  ux_rev :: nat
  ux_date :: string
  ux_author :: string
  ux_uuid :: string

datatype update_event =
    PutDir string string
  | PutFile string string "bytes option" "bytes option"
  | EndDir

definition set_prop :: "string \<Rightarrow> string \<Rightarrow> string" where
  "set_prop name v = ''<S:set-prop'' @ attr ''name'' (''svn:entry:'' @ name) @ ''>'' @ v @ ''</S:set-prop>''"

definition entry_props :: "update_ctx \<Rightarrow> string" where
  "entry_props ux =
     set_prop ''committed-rev'' (show_nat (ux_rev ux)) @ nl @ set_prop ''committed-date'' (ux_date ux) @ nl @
     set_prop ''last-author'' (escape_xml (ux_author ux)) @ nl @ set_prop ''uuid'' (ux_uuid ux)"

definition rev_href :: "string \<Rightarrow> update_ctx \<Rightarrow> string \<Rightarrow> string" where
  "rev_href stub ux path = REPO_PREFIX @ ''/!svn/'' @ stub @ ''/'' @ show_nat (ux_rev ux) @ ''/'' @ path"

definition checked_in :: "update_ctx \<Rightarrow> string \<Rightarrow> string" where
  "checked_in ux path = ''<D:checked-in><D:href>'' @ rev_href ''rvr'' ux path @ ''</D:href></D:checked-in>'' @ nl"

definition update_head :: "update_ctx \<Rightarrow> string" where
  "update_head ux =
     xml_decl @ ''<S:update-report'' @ attr ''xmlns:S'' ''svn:'' @ attr ''xmlns:V'' ''http://subversion.tigris.org/xmlns/dav/'' @
     attr ''xmlns:D'' ''DAV:'' @ attr ''send-all'' ''true'' @ attr ''inline-props'' ''true'' @ ''>'' @ nl @
     ''<S:target-revision'' @ attr ''rev'' (show_nat (ux_rev ux)) @ ''/>'' @ nl @
     ''<S:open-directory'' @ attr ''rev'' (show_nat (ux_rev ux)) @ ''>'' @ nl @ checked_in ux [] @ entry_props ux"

definition update_tail :: string where
  "update_tail = nl @ ''</S:open-directory>'' @ nl @ ''</S:update-report>''"

fun event_xml :: "update_env \<Rightarrow> update_ctx \<Rightarrow> update_event \<Rightarrow> string" where
  "event_xml U ux (PutDir name dir) =
     nl @ ''<S:add-directory'' @ attr ''name'' (escape_xml name) @ attr ''bc-url'' (rev_href ''bc'' ux dir) @ ''>'' @ nl @
     checked_in ux dir @ entry_props ux"
| "event_xml U ux (PutFile name path content again) =
     nl @ ''<S:add-file'' @ attr ''name'' (escape_xml name) @ ''>'' @ nl @ checked_in ux path @ entry_props ux @
     (case content of
        Some c \<Rightarrow> if c \<noteq> [] then nl @ ''<S:txdelta>'' @ ue_base64 U c @ ''</S:txdelta>'' else []
      | None \<Rightarrow> []) @
     (case again of
        Some c \<Rightarrow> nl @ ''<S:prop><V:md5-checksum>'' @ ue_md5 U c @ ''</V:md5-checksum></S:prop>''
      | None \<Rightarrow> []) @
     nl @ ''</S:add-file>''"
| "event_xml U ux EndDir = nl @ ''</S:add-directory>''"

definition target_rev :: "string \<Rightarrow> 'c repo \<Rightarrow> nat" where
  "target_rev body s = unwrap_or (r_current_rev s) (num_field body ''<S:target-revision>'' ''</S:target-revision>'')"

definition src_rev :: "string \<Rightarrow> nat option" where
  "src_rev body =
     Option.bind (extract_text_between body ''<S:src-path>'' ''</S:src-path>'') (\<lambda>_. num_field body (''rev='' @ dq) dq)"

definition is_fresh_checkout :: "string \<Rightarrow> bool" where
  "is_fresh_checkout body \<longleftrightarrow> src_rev body = None \<or> src_rev body = Some 0"

text \<open>The directories above a file, each opened once in the whole report.\<close>

fun open_parents :: "string \<Rightarrow> string list \<Rightarrow> string list \<Rightarrow> string list \<times> update_event list" where
  "open_parents cur [] opened = (opened, [])"
| "open_parents cur (p # ps) opened =
     (let dir = (if cur = [] then p else cur @ ''/'' @ p) in
      if dir \<in> set opened then open_parents dir ps opened
      else (case open_parents dir ps (opened @ [dir]) of (opened1, evs) \<Rightarrow> (opened1, PutDir p dir # evs)))"

text \<open>The entries come sorted by path, as \<open>tree_map\<close> keeps them; each file is read twice.\<close>

fun checkout_events :: "'c repo_env \<Rightarrow> nat \<Rightarrow> (string \<times> tree_entry) list \<Rightarrow> string list \<Rightarrow> 'c repo \<Rightarrow>
    ('c repo \<times> string list \<times> update_event list) option" where
  "checkout_events E r [] opened s = Some (s, opened, [])"
| "checkout_events E r ((path, e) # es) opened s =
     (if te_kind e \<noteq> KBlob then checkout_events E r es opened s
      else
        (case open_parents [] (butlast (split CHR ''/'' path)) opened of
           (opened1, dirs) \<Rightarrow>
             (case get_file E (CHR ''/'' # path) r s of
                None \<Rightarrow> None
              | Some (s1, c1) \<Rightarrow>
                  (case get_file E (CHR ''/'' # path) r s1 of
                     None \<Rightarrow> None
                   | Some (s2, c2) \<Rightarrow>
                       map_option (\<lambda>(s3, opened2, evs).
                           (s3, opened2, dirs @ PutFile (last (split CHR ''/'' path)) path (result_ok c1) (result_ok c2) # evs))
                         (checkout_events E r es opened1 s2)))))"

definition update_ctx_of :: "'c repo_env \<Rightarrow> update_env \<Rightarrow> nat \<Rightarrow> 'c repo \<Rightarrow> update_ctx" where
  "update_ctx_of E U r s =
     (let c = get_commit E s r in
      \<lparr>ux_rev = r, ux_date = unwrap_or (ue_now U) (Option.bind c (\<lambda>c. ue_date U (timestamp c))),
       ux_author = (case c of Some c \<Rightarrow> author c | None \<Rightarrow> []), ux_uuid = r_uuid s\<rparr>)"

definition update_xml :: "update_env \<Rightarrow> update_ctx \<Rightarrow> update_event list \<Rightarrow> string" where
  "update_xml U ux evs = update_head ux @ concat (map (event_xml U ux) evs) @ update_tail"

definition handle_update_report :: "'c repo_env \<Rightarrow> update_env \<Rightarrow> string \<Rightarrow> 'c repo \<Rightarrow> ('c repo \<times> (web_error + string)) option" where
  "handle_update_report E U body s =
     (let r = target_rev body s in
      case get_tree_at_rev E r s of
        None \<Rightarrow> None
      | Some (s1, Inl e) \<Rightarrow> Some (s1, Inl (TreeFailed r e))
      | Some (s1, Inr tm) \<Rightarrow>
          let ux = update_ctx_of E U r s1 in
          if is_fresh_checkout body then
            map_option (\<lambda>(s2, opened, evs). (s2, Inr (update_xml U ux (evs @ replicate (length opened) EndDir))))
              (checkout_events E r tm [] s1)
          else Some (s1, Inr (update_xml U ux [])))"

section \<open>The client\<close>

text \<open>Reading the commands with a stack of directory names: the paths at which files are written.\<close>

fun read_events :: "string list \<Rightarrow> update_event list \<Rightarrow> string list" where
  "read_events stk [] = []"
| "read_events stk (PutDir name dir # evs) = read_events (stk @ [name]) evs"
| "read_events stk (PutFile name path c c' # evs) = join_with CHR ''/'' (stk @ [name]) # read_events stk evs"
| "read_events stk (EndDir # evs) = read_events (butlast stk) evs"

text \<open>The files sent, with the content of both reads.\<close>

fun sent_files :: "update_event list \<Rightarrow> (string \<times> bytes option \<times> bytes option) list" where
  "sent_files [] = []"
| "sent_files (PutFile name path c c' # evs) = (path, c, c') # sent_files evs"
| "sent_files (_ # evs) = sent_files evs"

definition dir_names :: "string \<Rightarrow> string list" where
  "dir_names path = butlast (split CHR ''/'' path)"

definition files_at :: "'c repo_env \<Rightarrow> 'c repo \<Rightarrow> nat \<Rightarrow> string list" where
  "files_at E s r = map fst (filter (\<lambda>(p, e). te_kind e = KBlob) (tree_of E s r))"

section \<open>Directories as lists of names\<close>

abbreviation slashed :: "string list \<Rightarrow> string" where
  "slashed \<equiv> join_with CHR ''/''"

definition names_ok :: "string list \<Rightarrow> bool" where
  "names_ok cs \<longleftrightarrow> (\<forall>c \<in> set cs. CHR ''/'' \<notin> set c) \<and> (cs \<noteq> [] \<longrightarrow> hd cs \<noteq> [])"

definition opened_ok :: "string list list \<Rightarrow> bool" where
  "opened_ok N \<longleftrightarrow> (\<forall>n \<in> set N. names_ok n \<and> n \<noteq> [])"

lemma split_join: "xs \<noteq> [] \<Longrightarrow> \<forall>x \<in> set xs. c \<notin> set x \<Longrightarrow> split c (join_with c xs) = xs"
proof (induction xs)
  case (Cons x xs)
  then show ?case by (cases "xs = []") (simp_all add: join_with_Cons split_append split_id)
qed simp

lemma slashed_inj: "names_ok xs \<Longrightarrow> names_ok ys \<Longrightarrow> xs \<noteq> [] \<Longrightarrow> ys \<noteq> [] \<Longrightarrow> slashed xs = slashed ys \<longleftrightarrow> xs = ys"
  by (metis names_ok_def split_join)

lemma join_snoc: "xs \<noteq> [] \<Longrightarrow> join_with c (xs @ [x]) = join_with c xs @ c # x"
proof (induction xs)
  case (Cons y xs)
  then show ?case by (cases "xs = []") (simp_all add: join_with_Cons)
qed simp

lemma slashed_empty: "names_ok xs \<Longrightarrow> slashed xs = [] \<longleftrightarrow> xs = []"
  by (cases xs; cases "tl xs") (auto simp: names_ok_def)

lemma names_ok_append: "names_ok (xs @ ys) \<Longrightarrow> names_ok xs"
  by (auto simp: names_ok_def)

lemma dir_names_ok: "plain_path p \<Longrightarrow> names_ok (dir_names p)"
proof -
  assume p: "plain_path p"
  have "\<forall>c \<in> set (dir_names p). CHR ''/'' \<notin> set c"
    using split_no_sep [of _ "CHR ''/''" p] by (auto simp: dir_names_def dest: in_set_butlastD)
  moreover have "hd (dir_names p) \<noteq> []" if "dir_names p \<noteq> []"
  proof (cases p)
    case Nil
    with that show ?thesis by (simp add: dir_names_def)
  next
    case (Cons x xs)
    with p have "x \<noteq> CHR ''/''"
      using dropWhile_eq_self_iff [of "\<lambda>c. c = CHR ''/''" p] by (simp add: plain_path_def trim_start_matches_def)
    with that Cons show ?thesis by (auto simp: dir_names_def split: list.splits if_splits)
  qed
  ultimately show ?thesis by (simp add: names_ok_def)
qed

text \<open>The non-empty prefixes of a list of names, each after \<open>pre\<close>.\<close>

fun ext :: "string list \<Rightarrow> string list \<Rightarrow> string list list" where
  "ext pre [] = []"
| "ext pre (p # ps) = (pre @ [p]) # ext (pre @ [p]) ps"

lemma ext_mem: "x \<in> set (ext pre ps) \<longleftrightarrow> (\<exists>qs. qs \<noteq> [] \<and> prefix qs ps \<and> x = pre @ qs)"
proof (induction ps arbitrary: pre)
  case (Cons p ps)
  have "(\<exists>qs. qs \<noteq> [] \<and> prefix qs (p # ps) \<and> x = pre @ qs) \<longleftrightarrow> x = pre @ [p] \<or> (\<exists>qs. qs \<noteq> [] \<and> prefix qs ps \<and> x = (pre @ [p]) @ qs)"
    by (auto simp: prefix_Cons)
  with Cons.IH show ?case by simp
qed auto

lemma ext_facts [simp]: "length (ext pre ps) = length ps" "map last (ext pre ps) = ps" "distinct (ext pre ps)"
  by (induction ps arbitrary: pre) (auto simp: ext_mem)

lemma ext_ok: "names_ok cs \<Longrightarrow> opened_ok (ext [] cs)"
  by (auto simp: opened_ok_def ext_mem prefix_def dest: names_ok_append)

lemma ext_prefix: "prefix c cs \<Longrightarrow> ext [] c @ filter (\<lambda>n. n \<notin> set (ext [] c)) (ext [] cs) = ext [] cs"
proof -
  have "ext pre (xs @ ys) = ext pre xs @ ext (pre @ xs) ys" for pre xs ys
    by (induction xs arbitrary: pre) simp_all
  moreover assume "prefix c cs"
  then obtain ys where "cs = c @ ys" by (auto simp: prefix_def)
  moreover have "filter (\<lambda>n. n \<notin> set (ext [] c)) (ext [] c) = []" by (simp add: filter_empty_conv)
  moreover have "filter (\<lambda>n. n \<notin> set (ext [] c)) (ext c ys) = ext c ys" for ys
    by (auto simp: filter_id_conv ext_mem prefix_def)
  ultimately show ?thesis by simp
qed

section \<open>What the report sends\<close>

abbreviation more_dirs :: "string list list \<Rightarrow> string list list \<Rightarrow> string list list" where
  "more_dirs N ds \<equiv> filter (\<lambda>n. n \<notin> set N) ds"

lemma open_parents_reads:
  assumes "names_ok (pre @ ps)" and "opened_ok N"
  shows "\<exists>evs. open_parents (slashed pre) ps (map slashed N) = (map slashed (N @ more_dirs N (ext pre ps)), evs) \<and>
    (\<forall>stk rest. read_events stk (evs @ rest) = read_events (stk @ map last (more_dirs N (ext pre ps))) rest) \<and>
    (\<forall>rest. sent_files (evs @ rest) = sent_files rest)"
  using assms
proof (induction ps arbitrary: pre N)
  case (Cons p ps)
  let ?d = "pre @ [p]"
  have d: "names_ok ?d" "names_ok (?d @ ps)" using Cons.prems(1) names_ok_append [of ?d ps] by simp_all
  have dir: "(if slashed pre = [] then p else slashed pre @ ''/'' @ p) = slashed ?d"
    using names_ok_append [OF d(1)] by (simp add: slashed_empty join_snoc)
  have mem: "slashed ?d \<in> slashed ` set N \<longleftrightarrow> ?d \<in> set N"
    using Cons.prems(2) slashed_inj [OF d(1)] by (auto simp: opened_ok_def image_iff)
  show ?case
  proof (cases "?d \<in> set N")
    case True
    then show ?thesis using Cons.IH [OF d(2) Cons.prems(2)] by (simp add: dir mem Let_def del: append_Cons)
  next
    case False
    have N: "opened_ok (N @ [?d])" using Cons.prems(2) d(1) by (auto simp: opened_ok_def)
    have same: "more_dirs (N @ [?d]) (ext ?d ps) = more_dirs N (ext ?d ps)"
      by (rule filter_cong) (auto simp: ext_mem)
    obtain evs where e: "open_parents (slashed ?d) ps (map slashed (N @ [?d])) =
        (map slashed ((N @ [?d]) @ more_dirs N (ext ?d ps)), evs)"
      "\<And>stk rest. read_events stk (evs @ rest) = read_events (stk @ map last (more_dirs N (ext ?d ps))) rest"
      "\<And>rest. sent_files (evs @ rest) = sent_files rest"
      using Cons.IH [OF d(2) N] unfolding same by blast
    have "open_parents (slashed pre) (p # ps) (map slashed N) =
        (map slashed (N @ more_dirs N (ext pre (p # ps))), PutDir p (slashed ?d) # evs)"
      using False e(1) by (simp add: dir mem Let_def)
    with e(2,3) False show ?thesis by (intro exI [of _ "PutDir p (slashed ?d) # evs"]) simp
  qed
qed simp

text \<open>Where a client puts the files of a list of paths when the directories \<open>N\<close> are open.\<close>

fun placed :: "string list list \<Rightarrow> string list \<Rightarrow> string list" where
  "placed N [] = []"
| "placed N (p # ps) =
     slashed (map last (N @ more_dirs N (ext [] (dir_names p))) @ [last (split CHR ''/'' p)]) #
     placed (N @ more_dirs N (ext [] (dir_names p))) ps"

lemma placed_one:
  assumes "names_ok (dir_names p)" and "opened_ok (ext [] c)"
  shows "slashed (map last (ext [] c @ more_dirs (ext [] c) (ext [] (dir_names p))) @ [last (split CHR ''/'' p)]) = p \<longleftrightarrow>
    prefix c (dir_names p)"
proof
  let ?N = "ext [] c @ more_dirs (ext [] c) (ext [] (dir_names p))"
  assume eq: "slashed (map last ?N @ [last (split CHR ''/'' p)]) = p"
  have "CHR ''/'' \<notin> set (last n)" if "n \<in> set (ext [] c) \<union> set (ext [] (dir_names p))" for n
    using that assms(2) ext_ok [OF assms(1)] by (auto simp: opened_ok_def names_ok_def)
  moreover have "CHR ''/'' \<notin> set (last (split CHR ''/'' p))" by (rule split_no_sep [of _ _ p]) simp
  ultimately have "\<forall>x \<in> set (map last ?N @ [last (split CHR ''/'' p)]). CHR ''/'' \<notin> set x"
    unfolding set_append set_map set_filter list.set by blast
  from split_join [OF _ this] eq have "split CHR ''/'' p = map last ?N @ [last (split CHR ''/'' p)]" by simp
  then have n: "dir_names p = map last ?N" unfolding dir_names_def by (metis butlast_snoc)
  then have "length ?N = length (ext [] (dir_names p))" by (metis ext_facts(1) length_map)
  moreover have sub: "set (ext [] (dir_names p)) \<subseteq> set ?N" by auto
  moreover have dist: "distinct ?N" by auto
  ultimately have "set (ext [] (dir_names p)) = set ?N"
    by (metis List.finite_set card_subset_eq distinct_card ext_facts(3))
  then have "set (ext [] c) \<subseteq> set (ext [] (dir_names p))" by auto
  then show "prefix c (dir_names p)" by (cases "c = []") (auto simp: subset_iff ext_mem)
next
  assume "prefix c (dir_names p)"
  then show "slashed (map last (ext [] c @ more_dirs (ext [] c) (ext [] (dir_names p))) @ [last (split CHR ''/'' p)]) = p"
    by (simp only: ext_prefix ext_facts dir_names_def append_butlast_last_id [OF split_nonempty] join_split)
qed

lemma placed_right:
  "names_ok c \<Longrightarrow> list_all plain_path ps \<Longrightarrow> placed (ext [] c) ps = ps \<longleftrightarrow> sorted_wrt prefix (c # map dir_names ps)"
proof (induction ps arbitrary: c)
  case (Cons p ps)
  have p: "names_ok (dir_names p)" using Cons.prems by (simp add: dir_names_ok)
  show ?case
  proof (cases "prefix c (dir_names p)")
    case True
    have "placed (ext [] c) (p # ps) = p # ps \<longleftrightarrow> placed (ext [] (dir_names p)) ps = ps"
      using True placed_one [OF p ext_ok [OF Cons.prems(1)]] by (simp add: ext_prefix)
    also have "\<dots> \<longleftrightarrow> sorted_wrt prefix (c # map dir_names (p # ps))"
      using Cons.IH [OF p] Cons.prems(2) True by (auto intro: prefix_order.trans)
    finally show ?thesis .
  next
    case False
    then show ?thesis using placed_one [OF p ext_ok [OF Cons.prems(1)]] by simp
  qed
qed simp

definition blob_paths :: "(string \<times> tree_entry) list \<Rightarrow> string list" where
  "blob_paths es = map fst (filter (\<lambda>(p, e). te_kind e = KBlob) es)"

lemma checkout_events_ok:
  assumes "lru_ok E" and "history_inv E s" and "r \<le> r_current_rev s" and "list_all (plain_path \<circ> fst) es" and "opened_ok N"
  shows "\<exists>s' N' evs. checkout_events E r es (map slashed N) s = Some (s', map slashed N', evs) \<and> read_ok E s s' \<and>
    (\<forall>rest. sent_files (evs @ rest) = map (\<lambda>p. (p, file_of E s r p, file_of E s r p)) (blob_paths es) @ sent_files rest) \<and>
    (\<forall>rest. read_events (map last N) (evs @ rest) = placed N (blob_paths es) @ read_events (map last N') rest)"
  using assms(2-5)
proof (induction es arbitrary: s N)
  case Nil
  then show ?case by (intro exI [of _ s] exI [of _ N] exI [of _ "[]"]) (simp add: read_ok_def blob_paths_def)
next
  case (Cons x es)
  obtain p e where x: "x = (p, e)" by (cases x)
  show ?case
  proof (cases "te_kind e = KBlob")
    case False
    with Cons.IH [OF Cons.prems(1,2) _ Cons.prems(4)] Cons.prems(3) show ?thesis by (simp add: x blob_paths_def)
  next
    case True
    have plain: "plain_path p" using Cons.prems(3) by (simp add: x)
    then have slash: "trim_start_matches CHR ''/'' (CHR ''/'' # p) = p" by (simp add: plain_path_def)
    let ?M = "more_dirs N (ext [] (dir_names p))"
    obtain dirs where d: "open_parents [] (dir_names p) (map slashed N) = (map slashed (N @ ?M), dirs)"
      "\<And>stk rest. read_events stk (dirs @ rest) = read_events (stk @ map last ?M) rest" "\<And>rest. sent_files (dirs @ rest) = sent_files rest"
      using open_parents_reads [of "[]" "dir_names p" N] dir_names_ok [OF plain] Cons.prems(4) by auto
    have N1: "opened_ok (N @ ?M)" using Cons.prems(4) ext_ok [OF dir_names_ok [OF plain]] by (auto simp: opened_ok_def)
    obtain s1 c1 where g1: "get_file E (CHR ''/'' # p) r s = Some (s1, c1)" "read_ok E s s1" "result_ok c1 = file_of E s r p"
      using get_file_ok [OF assms(1) Cons.prems(1), of "CHR ''/'' # p" r] Cons.prems(2) slash by metis
    have s1: "history_inv E s1" "r \<le> r_current_rev s1" using g1(2) Cons.prems(2) by (auto simp: read_ok_def only_cacheD)
    obtain s2 c2 where g2: "get_file E (CHR ''/'' # p) r s1 = Some (s2, c2)" "read_ok E s1 s2" "result_ok c2 = file_of E s r p"
      using get_file_ok [OF assms(1) s1(1), of "CHR ''/'' # p" r] s1(2) slash read_ok_spec(3) [OF g1(2)] by metis
    have r2: "read_ok E s s2" by (rule read_ok_trans [OF g1(2) g2(2)])
    then have s2: "history_inv E s2" "r \<le> r_current_rev s2" using Cons.prems(2) by (auto simp: read_ok_def only_cacheD)
    have es: "list_all (plain_path \<circ> fst) es" using Cons.prems(3) by (simp add: comp_def)
    obtain s' N' evs where i: "checkout_events E r es (map slashed (N @ ?M)) s2 = Some (s', map slashed N', evs)" "read_ok E s2 s'"
      "\<And>rest. sent_files (evs @ rest) = map (\<lambda>p. (p, file_of E s r p, file_of E s r p)) (blob_paths es) @ sent_files rest"
      "\<And>rest. read_events (map last (N @ ?M)) (evs @ rest) = placed (N @ ?M) (blob_paths es) @ read_events (map last N') rest"
      using Cons.IH [OF s2 es N1] unfolding read_ok_spec(3) [OF r2] by blast
    let ?evs = "dirs @ PutFile (last (split CHR ''/'' p)) p (result_ok c1) (result_ok c2) # evs"
    have "checkout_events E r (x # es) (map slashed N) s = Some (s', map slashed N', ?evs)"
      using True d(1) g1(1) g2(1) i(1) by (simp add: x dir_names_def)
    moreover have "blob_paths (x # es) = p # blob_paths es" using True by (simp add: x blob_paths_def)
    ultimately show ?thesis
      using read_ok_trans [OF r2 i(2)] d(2,3) i(3,4) g1(3) g2(3) by (intro exI [of _ s'] exI [of _ N'] exI [of _ ?evs]) simp
  qed
qed

lemma read_closing: "read_events stk (replicate n EndDir) = []" "sent_files (replicate n EndDir) = []"
  by (induction n arbitrary: stk) simp_all


text \<open>Two files, one in a directory: the second is put into the directory of the first.\<close>

lemma sibling_misplaced: "placed [] [''a/x'', ''b''] = [''a/x'', ''a/b'']"
  by code_simp

text \<open>A revision beyond the head is an error.\<close>

lemma checkout_beyond_head:
  assumes "reachable E s" and "r_current_rev s < target_rev body s"
  shows "\<exists>s'. handle_update_report E U body s = Some (s', Inl (TreeFailed (target_rev body s) (CommitNotFound (target_rev body s)))) \<and>
    only_cache s s'"
proof -
  have v: "lru_ok E" "history_inv E s" using reachable_verifiable [OF assms(1)] by (simp_all add: verifiable_def)
  obtain s' where "get_tree_at_rev E (target_rev body s) s = Some (s', Inl (CommitNotFound (target_rev body s)))" "only_cache s s'"
    using get_tree_beyond_head [OF v assms(2)] .
  then show ?thesis by (simp add: handle_update_report_def Let_def)
qed

definition sample_update :: update_env where
  "sample_update = \<lparr>ue_date = (\<lambda>_. None), ue_now = [], ue_base64 = map byte_char, ue_md5 = md5_hex\<rparr>"


end
