(* ===== verification/Webdav_Routes.thy ===== *)
theory Webdav_Routes
  imports Webdav_Update Webdav_Transactions Sync_Endpoints
begin

text \<open>
  The whole server: \<open>OPTIONS\<close>, \<open>PROPFIND\<close> and \<open>REPORT\<close> (\<open>dsvn-webdav/src/handlers.rs\<close>), the repository
  management API (\<open>repo_management.rs\<close>), the configuration and the dispatch of every request
  (\<open>lib.rs\<close>), and the start of the server with one or several repositories (\<open>dsvn-server/src/main.rs\<close>).
  JSON, the clock and its formats are parameters; a request body has been read. A repository that is
  not open is a directory in \<open>sv_dirs\<close>.
\<close>

section \<open>Configuration\<close>

record repo_config =
  rc_path :: string
  display_name :: "string option"
  description :: "string option"

record multi_repo_config =
  multi_repo :: bool
  mc_repositories :: "(string, repo_config) omap"

definition multi_repo_default :: multi_repo_config where
  "multi_repo_default = \<lparr>multi_repo = False, mc_repositories = []\<rparr>"

definition repo_config_new :: "string \<Rightarrow> repo_config" where
  "repo_config_new p = \<lparr>rc_path = p, display_name = None, description = None\<rparr>"

definition with_display_name :: "string \<Rightarrow> repo_config \<Rightarrow> repo_config" where
  "with_display_name n c = c\<lparr>display_name := Some n\<rparr>"

definition with_description :: "string \<Rightarrow> repo_config \<Rightarrow> repo_config" where
  "with_description d c = c\<lparr>description := Some d\<rparr>"

text \<open>The configuration file that \<open>init-config\<close> writes.\<close>

definition create_default_config :: multi_repo_config where
  "create_default_config =
     \<lparr>multi_repo = True,
      mc_repositories =
        [(''repo1'', with_description ''Primary development repository''
            (with_display_name ''Main Repository'' (repo_config_new ''./data/repo1''))),
         (''repo2'', with_description ''Staging repository for testing''
            (with_display_name ''Staging Repository'' (repo_config_new ''./data/repo2'')))]\<rparr>"

section \<open>OPTIONS\<close>

definition dav_ext :: "string \<Rightarrow> string \<times> string" where
  "dav_ext n = (''DAV'', ''http://subversion.tigris.org/xmlns/dav/svn/'' @ n)"

definition svn_stub :: "string \<Rightarrow> string \<Rightarrow> string \<times> string" where
  "svn_stub h n = (h, REPO_PREFIX @ ''/!svn/'' @ n)"

definition options_common :: "(string \<times> string) list" where
  "options_common =
     [(''Allow'', ''OPTIONS,GET,HEAD,POST,DELETE,TRACE,PROPFIND,PROPPATCH,COPY,MOVE,LOCK,UNLOCK,CHECKOUT''),
      (''DAV'', ''1,2''), (''DAV'', ''version-control,checkout,working-resource''),
      (''DAV'', ''merge,baseline,activity,version-controlled-collection''),
      dav_ext ''depth'', dav_ext ''log-revprops'', dav_ext ''atomic-revprops'', dav_ext ''partial-replay'',
      dav_ext ''inherited-props'', dav_ext ''inline-props'', dav_ext ''reverse-file-revs'', dav_ext ''mergeinfo'',
      (''DAV'', ''<http://apache.org/dav/propset/fs/1>''), (''MS-Author-Via'', ''DAV'')]"

definition options_svn :: "nat \<Rightarrow> string \<Rightarrow> (string \<times> string) list" where
  "options_svn r uuid =
     [dav_ext ''ephemeral-txnprops'', (''SVN-Youngest-Rev'', show_nat r), (''SVN-Repository-UUID'', uuid),
      (''SVN-Repository-MergeInfo'', ''yes''), dav_ext ''replay-rev-resource'', (''SVN-Repository-Root'', REPO_PREFIX),
      svn_stub ''SVN-Me-Resource'' ''me'', svn_stub ''SVN-Rev-Root-Stub'' ''rvr'', svn_stub ''SVN-Rev-Stub'' ''rev'',
      svn_stub ''SVN-Txn-Root-Stub'' ''txr'', svn_stub ''SVN-Txn-Stub'' ''txn'', svn_stub ''SVN-VTxn-Root-Stub'' ''vtxr'',
      svn_stub ''SVN-VTxn-Stub'' ''vtxn'', (''SVN-Allow-Bulk-Updates'', ''On''), (''SVN-Supported-Posts'', ''create-txn''),
      xml_type]"

definition options_handler :: "string \<Rightarrow> string \<Rightarrow> 'c web \<Rightarrow> web_error + response" where
  "options_handler path body s =
     rbind (route path s) (\<lambda>(_, nd). Inr
       (if contains_sub body ''activity-collection-set''
        then \<lparr>status = 200, resp_headers = options_common @ options_svn (r_current_rev (nd_repo nd)) (r_uuid (nd_repo nd)),
              resp_body = Text (xml_decl @ ''<D:options-response'' @ attr ''xmlns:D'' ''DAV:'' @ ''>'' @ nl @
                ''<D:activity-collection-set><D:href>'' @ REPO_PREFIX @
                ''/!svn/act/</D:href></D:activity-collection-set></D:options-response>'')\<rparr>
        else \<lparr>status = 200, resp_headers = options_common, resp_body = Text []\<rparr>))"

section \<open>PROPFIND\<close>

definition xml_lines :: "string list \<Rightarrow> string" where
  "xml_lines ls = join_with CHR 0x0A ls"

definition el :: "string \<Rightarrow> string \<Rightarrow> string" where
  "el tag t = ''<'' @ tag @ ''>'' @ t @ ''</'' @ tag @ ''>''"

text \<open>A multistatus with one response and the properties \<open>ps\<close>, one per line.\<close>

definition propfind_frame :: "string \<Rightarrow> string \<Rightarrow> string list \<Rightarrow> string" where
  "propfind_frame namespaces href ps =
     xml_decl @ xml_lines
       ([''<D:multistatus'' @ attr ''xmlns:D'' ''DAV:'' @ attr ''xmlns:ns0'' ''DAV:'' @ ''>'', ''<D:response'' @ namespaces @ ''>'',
         el ''D:href'' href, ''<D:propstat>'', ''<D:prop>''] @ ps @
        [''</D:prop>'', el ''D:status'' ''HTTP/1.1 200 OK'', ''</D:propstat>'', ''</D:response>'', ''</D:multistatus>''])"

definition ns_lp1 :: string where "ns_lp1 = attr ''xmlns:lp1'' ''DAV:''"

definition ns_lp3 :: string where "ns_lp3 = attr ''xmlns:lp3'' ''http://subversion.tigris.org/xmlns/dav/''"

definition xml_reply :: "nat \<Rightarrow> string \<Rightarrow> response" where
  "xml_reply st t = \<lparr>status = st, resp_headers = [xml_type], resp_body = Text t\<rparr>"

definition cut_slash :: "string \<Rightarrow> string \<Rightarrow> string \<times> string" where
  "cut_slash dflt rest = (case split_once CHR ''/'' rest of Some (a, b) \<Rightarrow> (a, CHR ''/'' # b) | None \<Rightarrow> (rest, dflt))"

definition collection_type :: "string \<Rightarrow> string" where
  "collection_type rt = el ''lp1:resourcetype'' rt"

definition special_xml :: "string \<Rightarrow> nat \<Rightarrow> string \<Rightarrow> string option" where
  "special_xml path r uuid =
     (let special = special_path path; after = (\<lambda>p. strip_prefix special p) in
      if after ''/!svn/vcc/'' \<noteq> None then
        Some (propfind_frame (ns_lp1 @ ns_lp3) (REPO_PREFIX @ ''/!svn/vcc/default'')
          [el ''lp1:checked-in'' (el ''D:href'' (REPO_PREFIX @ ''/!svn/bln/'' @ show_nat r))])
      else (case after ''/!svn/bln/'' of
        Some rest \<Rightarrow>
          let n = show_nat (unwrap_or 0 (parse_u64 rest)) in
          Some (propfind_frame (ns_lp1 @ ns_lp3) (REPO_PREFIX @ ''/!svn/bln/'' @ n)
            [el ''lp1:baseline-collection'' (el ''D:href'' (REPO_PREFIX @ ''/!svn/bc/'' @ n @ ''/'')), el ''lp1:version-name'' n])
      | None \<Rightarrow> (case after ''/!svn/bc/'' of
        Some rest \<Rightarrow>
          (case cut_slash ''/'' rest of (n, sub) \<Rightarrow>
             Some (propfind_frame (ns_lp1 @ ns_lp3) (REPO_PREFIX @ ''/!svn/bc/'' @ n @ sub)
               [collection_type ''<D:collection/>'', el ''lp1:version-name'' n, el ''lp3:repository-uuid'' uuid]))
      | None \<Rightarrow> (case after ''/!svn/rvr/'' of
        Some rest \<Rightarrow>
          (case cut_slash [] rest of (n, sub) \<Rightarrow>
             Some (propfind_frame ns_lp1 (REPO_PREFIX @ ''/!svn/rvr/'' @ n @ (if sub = [] then ''/'' else sub))
               [collection_type (if sub = [] \<or> ends_with sub ''/'' then ''<D:collection/>'' else [])]))
      | None \<Rightarrow>
          if after ''/!svn/ver/'' \<noteq> None
          then Some (propfind_frame (ns_lp1 @ ns_lp3) path [collection_type ''<D:collection/>''])
          else None))))"

definition handle_svn_special_propfind :: "string \<Rightarrow> nat \<Rightarrow> string \<Rightarrow> response" where
  "handle_svn_special_propfind path r uuid =
     (case special_xml path r uuid of
        Some xml \<Rightarrow> xml_reply 207 xml
      | None \<Rightarrow> plain 404 ''SVN special path not found'')"

definition is_repository_root :: "string \<Rightarrow> bool" where
  "is_repository_root path \<longleftrightarrow> path = ''/svn/'' \<or> path = ''/svn'' \<or> path = ''/'' \<or> path = []"

definition repo_response :: "(string, repo_config) omap option \<Rightarrow> string \<Rightarrow> string" where
  "repo_response configs name =
     (let shown = unwrap_or name (Option.bind (Option.bind configs (\<lambda>m. map_of m name)) display_name) in
      xml_lines [''  <D:response>'', ''    '' @ el ''D:href'' (escape_xml (REPO_PREFIX @ ''/'' @ name @ ''/'')), ''    <D:propstat>'',
        ''      <D:prop>'', ''        '' @ el ''D:displayname'' (escape_xml shown),
        ''        '' @ el ''D:resourcetype'' ''<D:collection/>'', ''      </D:prop>'',
        ''      '' @ el ''D:status'' ''HTTP/1.1 200 OK'', ''    </D:propstat>'', ''  </D:response>''])"

definition handle_repository_root_propfind :: "(string, repo_config) omap option \<Rightarrow> registry \<Rightarrow> response" where
  "handle_repository_root_propfind configs reg =
     xml_reply 207 (xml_decl @ ''<D:multistatus'' @ attr ''xmlns:D'' ''DAV:'' @
       attr ''xmlns:S'' ''http://subversion.tigris.org/xmlns/dav/'' @ ''>'' @ nl @
       concat (map (repo_response configs) (reg_list reg)) @ nl @ ''</D:multistatus>'')"

definition root_xml :: "string \<Rightarrow> string \<Rightarrow> nat \<Rightarrow> string \<Rightarrow> string" where
  "root_xml cdate lmod r uuid =
     (let n = show_nat r in
      propfind_frame
        (attr ''xmlns:S'' ''http://subversion.tigris.org/xmlns/svn/'' @ attr ''xmlns:C'' ''http://subversion.tigris.org/xmlns/custom/'' @
         attr ''xmlns:V'' ''http://subversion.tigris.org/xmlns/dav/'' @ ns_lp1 @ ns_lp3 @ attr ''xmlns:lp2'' ''http://apache.org/dav/props/'')
        (REPO_PREFIX @ ''/'')
        [collection_type ''<D:collection/>'', el ''lp1:getcontenttype'' ''text/html; charset=UTF-8'',
         el ''lp1:getetag'' (''W/'' @ dq @ n @ ''//'' @ dq), el ''lp1:creationdate'' cdate, el ''lp1:getlastmodified'' lmod,
         el ''lp1:checked-in'' (el ''D:href'' (REPO_PREFIX @ ''/!svn/ver/'' @ n @ ''/'')),
         el ''lp1:version-controlled-configuration'' (el ''D:href'' (REPO_PREFIX @ ''/!svn/vcc/default'')),
         el ''lp1:version-name'' n, ''<lp3:baseline-relative-path/>'', el ''lp3:repository-uuid'' uuid,
         el ''lp3:deadprop-count'' ''0'', ''<D:lockdiscovery/>''])"

definition propfind_handler :: "(string, repo_config) omap option \<Rightarrow> string \<times> string \<Rightarrow> string \<Rightarrow> 'c web \<Rightarrow> web_error + response" where
  "propfind_handler configs dates path s =
     (case (is_repository_root path, w_registry s) of
        (True, Some reg) \<Rightarrow> Inr (handle_repository_root_propfind configs reg)
      | _ \<Rightarrow>
          rbind (route path s) (\<lambda>(_, nd).
            let r = r_current_rev (nd_repo nd); uuid = r_uuid (nd_repo nd) in
            Inr (if contains_sub path ''!svn/'' then handle_svn_special_propfind path r uuid
                 else xml_reply 207 (root_xml (fst dates) (snd dates) r uuid))))"

section \<open>REPORT\<close>

record report_env = update_env +
  re_parse_date :: "string \<Rightarrow> int option"

text \<open>The branch by the words in the body; \<open>None\<close> in the answer is an unsupported report.\<close>

definition run_report :: "'c repo_env \<Rightarrow> report_env \<Rightarrow> string \<Rightarrow> 'c repo \<Rightarrow> ('c repo \<times> (web_error + string option)) option" where
  "run_report E R body s =
     (let has = contains_sub body; read = map_option (\<lambda>(s1, t). (s1, Inr (Some t))); const = (\<lambda>t. Some (s, Inr (Some t))) in
      if has ''update-report'' \<or> has ''<S:update'' then
        map_option (\<lambda>(s1, x). (s1, case x of Inl e \<Rightarrow> Inl e | Inr t \<Rightarrow> Inr (Some t)))
          (handle_update_report E (update_env.truncate R) body s)
      else if has ''log-report'' \<or> has ''log-item'' \<or> (has ''log'' \<and> \<not> has ''get-locations'') then
        read (handle_log_report E (ue_date R) body s)
      else if has ''get-locations'' then read (handle_get_locations_report E body s)
      else if has ''get-dated-rev'' then const (handle_dated_rev_report E (re_parse_date R) body s)
      else if has ''mergeinfo-report'' then const handle_mergeinfo_report
      else if has ''get-locks-report'' then const handle_get_locks_report
      else if has ''replay-report'' then const (handle_replay_report E body s)
      else if has ''get-deleted-rev'' then const (handle_get_deleted_rev_report E body s)
      else if has ''inherited-props-report'' then const handle_inherited_props_report
      else Some (s, Inr None))"

definition put_repo :: "nat \<Rightarrow> 'c node \<Rightarrow> 'c repo \<Rightarrow> 'c web \<Rightarrow> 'c web" where
  "put_repo a nd r s = s\<lparr>w_heap := oput a (nd\<lparr>nd_repo := r\<rparr>) (w_heap s)\<rparr>"

definition report_handler :: "'c repo_env \<Rightarrow> report_env \<Rightarrow> string \<Rightarrow> string \<Rightarrow> 'c web \<Rightarrow> ('c web \<times> (web_error + response)) option" where
  "report_handler E R path body s =
     (case route path s of
        Inl e \<Rightarrow> Some (s, Inl e)
      | Inr (a, nd) \<Rightarrow>
          map_option (\<lambda>(r1, x).
              (put_repo a nd r1 s,
               case x of
                 Inl e \<Rightarrow> Inl e
               | Inr (Some t) \<Rightarrow> Inr (xml_reply 200 t)
               | Inr None \<Rightarrow> Inr (xml_reply 501 (error_xml ''200007'' ''Unsupported report type.''))))
            (run_report E R body (nd_repo nd)))"

end
