(* ===== verification/Webdav_Handle.thy ===== *)
theory Webdav_Handle
  imports Webdav_Routes
begin

text \<open>
  The repository management API (\<open>dsvn-webdav/src/repo_management.rs\<close>), the dispatch of a request
  (\<open>WebDavHandler::handle\<close> in \<open>lib.rs\<close>) and the start of the server (\<open>dsvn-server/src/main.rs\<close>). The
  state of the whole server is that of the WebDAV handlers, the synchronisation files of the global
  repository and the directories of repositories that are not open.
\<close>

section \<open>State\<close>

record 'c server =
  sv_web :: "'c web"
  sv_sync :: sync_dir
  sv_revprops :: "(nat, string) omap"
  sv_revprop_hook :: "string option"
  sv_dirs :: "(string, 'c repo) omap"

record create_repo_request =
  cq_name :: string
  cq_path :: string
  cq_display_name :: "string option"
  cq_description :: "string option"

record repository_info =
  ri_name :: string
  ri_path :: string
  ri_display_name :: "string option"
  ri_description :: "string option"
  ri_uuid :: string

record api_env =
  parse_create :: "bytes \<Rightarrow> create_repo_request option"
  json_repo :: "repository_info \<Rightarrow> string"
  json_repos :: "repository_info list \<Rightarrow> string"
  json_api_error :: "string \<Rightarrow> string"

datatype handle_error =
    WebFailure web_error
  | InvalidJson
  | InitFailed repo_error
  | RegisterFailed registry_error

text \<open>The load handler answers with its statistics as JSON.\<close>

datatype reply = Reply response | LoadResult load_reply

section \<open>The management API\<close>

definition api_reply :: "nat \<Rightarrow> string \<Rightarrow> response" where
  "api_reply st t = \<lparr>status = st, resp_headers = [(''Content-Type'', ''application/json'')], resp_body = Text t\<rparr>"

definition fixed_error :: "string \<Rightarrow> string" where
  "fixed_error t = ''{'' @ dq @ ''error'' @ dq @ '': '' @ dq @ t @ dq @ ''}''"

definition quoted :: "string \<Rightarrow> string" where
  "quoted t = [CHR 0x27] @ t @ [CHR 0x27]"

definition dir_at :: "'c repo_env \<Rightarrow> (string, 'c repo) omap \<Rightarrow> string \<Rightarrow> 'c repo" where
  "dir_at E dirs path = unwrap_or (blank (lru_empty E)) (map_of dirs path)"

text \<open>\<open>a\<close> is the address of the new repository and \<open>u\<close> the identifier drawn for it.\<close>

definition handle_create_repo :: "'c repo_env \<Rightarrow> api_env \<Rightarrow> int \<Rightarrow> string \<Rightarrow> nat \<Rightarrow> bytes \<Rightarrow> registry \<times> (string, 'c repo) omap \<Rightarrow>
    ((registry \<times> (string, 'c repo) omap) \<times> (handle_error + response)) option" where
  "handle_create_repo E A now u a body x =
     (case x of (reg, dirs) \<Rightarrow>
      case parse_create A body of
        None \<Rightarrow> Some (x, Inl InvalidJson)
      | Some q \<Rightarrow>
          let name = trim (cq_name q); path = cq_path q in
          if name = [] then Some (x, Inr (api_reply 400 (fixed_error ''Repository name cannot be empty'')))
          else if \<not> starts_with path ''/'' then Some (x, Inr (api_reply 400 (fixed_error ''Repository path must be absolute'')))
          else if reg_get reg name \<noteq> None then
            Some (x, Inr (api_reply 409 (json_api_error A (''Repository '' @ quoted name @ '' already exists''))))
          else
            (case initialize E now (repo_open E u (dir_at E dirs path)) of
               None \<Rightarrow> None
             | Some (s, Inl e) \<Rightarrow> Some ((reg, oput path s dirs), Inl (InitFailed e))
             | Some (s, Inr _) \<Rightarrow>
                 (case register name a path reg of
                    (reg1, Inl e) \<Rightarrow> Some ((reg1, oput path s dirs), Inl (RegisterFailed e))
                  | (reg1, Inr _) \<Rightarrow>
                      Some ((reg1, oput path s dirs),
                        Inr (api_reply 201 (json_repo A \<lparr>ri_name = name, ri_path = path, ri_display_name = cq_display_name q,
                          ri_description = cq_description q, ri_uuid = r_uuid s\<rparr>))))))"

definition handle_delete_repo :: "api_env \<Rightarrow> (nat \<Rightarrow> string) \<Rightarrow> string \<Rightarrow> registry \<Rightarrow> registry \<times> (handle_error + response)" where
  "handle_delete_repo A root_of repo_name reg =
     (let name = trim repo_name in
      if name = [] then (reg, Inr (api_reply 400 (fixed_error ''Repository name cannot be empty'')))
      else if reg_get reg name = None then
        (reg, Inr (api_reply 404 (json_api_error A (''Repository '' @ quoted name @ '' not found''))))
      else
        (case unregister root_of name reg of
           (reg1, Inl e) \<Rightarrow> (reg1, Inl (RegisterFailed e))
         | (reg1, Inr _) \<Rightarrow> (reg1, Inr (plain 204 []))))"

definition repo_info_of :: "'c web \<Rightarrow> registry \<Rightarrow> string \<Rightarrow> repository_info option" where
  "repo_info_of s reg name =
     Option.bind (Option.bind (reg_get reg name) (map_of (w_heap s))) (\<lambda>nd. Some
       \<lparr>ri_name = name, ri_path = nd_root nd, ri_display_name = None, ri_description = None, ri_uuid = r_uuid (nd_repo nd)\<rparr>)"

definition handle_list_repos :: "api_env \<Rightarrow> 'c web \<Rightarrow> registry \<Rightarrow> response" where
  "handle_list_repos A s reg = api_reply 200 (json_repos A (List.map_filter (repo_info_of s reg) (reg_list reg)))"

section \<open>Dispatch\<close>

record http_request =
  rq_method :: string
  rq_path :: string
  rq_query :: string
  rq_accept :: string
  rq_content_type :: string
  rq_body :: bytes

text \<open>Everything external: \<open>he_draw\<close> is an identifier for a new repository, \<open>he_elapsed\<close> the time a load takes.\<close>

record 'c handle_env =
  he_web :: "'c web_env"
  he_net :: net_env
  he_dump :: dump_env
  he_report :: report_env
  he_api :: api_env
  he_configs :: "(string, repo_config) omap option"
  he_dates :: "string \<times> string"
  he_draw :: string
  he_elapsed :: nat

definition heap_fresh :: "'c web \<Rightarrow> nat" where
  "heap_fresh s = Suc (fold max (okeys (w_heap s)) 0)"

definition root_at :: "'c web \<Rightarrow> nat \<Rightarrow> string" where
  "root_at s a = (case map_of (w_heap s) a of Some nd \<Rightarrow> nd_root nd | None \<Rightarrow> [])"

definition api_fail :: "nat \<Rightarrow> reply" where
  "api_fail st = Reply (plain st ''Method Not Allowed'')"

text \<open>
  The API works on a copy of the registry that is dropped after the request; only the directory of a
  created repository remains. \<open>None\<close> outside: not a request of the API.
\<close>

definition api_request :: "'c handle_env \<Rightarrow> int \<Rightarrow> http_request \<Rightarrow> 'c server \<Rightarrow> ('c server \<times> (handle_error + reply)) option option" where
  "api_request H now rq sv =
     (let s = sv_web sv; E = we_repo (he_web H); reg = unwrap_or registry_new (w_registry s); p = rq_path rq; m = rq_method rq in
      if p = ''/svn/_api/repos'' then
        Some (if m = ''GET'' then Some (sv, Inr (Reply (handle_list_repos (he_api H) s reg)))
              else if m = ''POST'' then
                map_option (\<lambda>((reg1, dirs), x). (sv\<lparr>sv_dirs := dirs\<rparr>, map_sum id Reply x))
                  (handle_create_repo E (he_api H) now (he_draw H) (heap_fresh s) (rq_body rq) (reg, sv_dirs sv))
              else Some (sv, Inr (api_fail 405)))
      else
        (case strip_prefix p ''/svn/_api/repos/'' of
           None \<Rightarrow> None
         | Some name \<Rightarrow>
             if name = [] then None
             else Some (Some (sv,
               if m = ''DELETE'' then map_sum id Reply (snd (handle_delete_repo (he_api H) (root_at s) name reg))
               else Inr (api_fail 405)))))"

text \<open>The global repository with the files next to it; in multi-repository mode there is none and the code panics.\<close>

definition with_global :: "'c server \<Rightarrow> (nat \<Rightarrow> 'c node \<Rightarrow> ('c server \<times> (handle_error + reply)) option) \<Rightarrow>
    ('c server \<times> (handle_error + reply)) option" where
  "with_global sv f =
     (case rbind (get_repo (sv_web sv)) (\<lambda>a. rbind (node_at (sv_web sv) a) (\<lambda>nd. Inr (a, nd))) of
        Inl e \<Rightarrow> Some (sv, Inl (WebFailure e))
      | Inr (a, nd) \<Rightarrow> f a nd)"

definition site_of :: "'c server \<Rightarrow> 'c node \<Rightarrow> 'c site" where
  "site_of sv nd =
     \<lparr>st_repo = nd_repo nd, st_dir = sv_sync sv, st_revprops = sv_revprops sv, st_revprop_hook = sv_revprop_hook sv\<rparr>"

definition put_site :: "nat \<Rightarrow> 'c node \<Rightarrow> 'c site \<Rightarrow> 'c server \<Rightarrow> 'c server" where
  "put_site a nd S sv =
     sv\<lparr>sv_web := put_repo a nd (st_repo S) (sv_web sv), sv_sync := st_dir S, sv_revprops := st_revprops S,
        sv_revprop_hook := st_revprop_hook S\<rparr>"

definition sync_route :: "'c handle_env \<Rightarrow> http_request \<Rightarrow> string \<Rightarrow> 'c server \<Rightarrow> ('c server \<times> (handle_error + reply)) option" where
  "sync_route H rq sync_path sv =
     with_global sv (\<lambda>a nd.
       case handle_sync_request (we_repo (he_web H)) (he_net H) sync_path (rq_method rq)
              (if rq_method rq = ''POST'' then rq_body rq else []) (rq_query rq) (site_of sv nd) of
         (S, r) \<Rightarrow> Some (put_site a nd S sv, Inr (Reply r)))"

definition dump_request :: "'c handle_env \<Rightarrow> http_request \<Rightarrow> 'c server \<Rightarrow> ('c server \<times> (handle_error + reply)) option" where
  "dump_request H rq sv =
     with_global sv (\<lambda>a nd.
       map_option (\<lambda>(r1, resp). (sv\<lparr>sv_web := put_repo a nd r1 (sv_web sv)\<rparr>, Inr (Reply resp)))
         (handle_dump (we_repo (he_web H)) (he_dump H) (rq_query rq) (nd_repo nd)))"

definition load_request :: "'c handle_env \<Rightarrow> http_request \<Rightarrow> 'c server \<Rightarrow> ('c server \<times> (handle_error + reply)) option" where
  "load_request H rq sv =
     with_global sv (\<lambda>a nd.
       case handle_load (we_repo (he_web H)) (he_dump H) (he_elapsed H) (rq_body rq) (nd_repo nd) of
         (r1, x) \<Rightarrow> Some (sv\<lparr>sv_web := put_repo a nd r1 (sv_web sv)\<rparr>, Inr (LoadResult x)))"

definition body_str :: "http_request \<Rightarrow> string" where
  "body_str rq = utf8_lossy (map byte_char (rq_body rq))"

definition request_of :: "http_request \<Rightarrow> request option" where
  "request_of rq =
     map_of [(''PROPPATCH'', PropPatch (rq_path rq) (body_str rq)), (''MERGE'', Merge (rq_path rq) (body_str rq)),
             (''CHECKOUT'', Checkout), (''MKACTIVITY'', MkActivity (rq_path rq)), (''MKCOL'', MkCol),
             (''DELETE'', DeleteReq (rq_path rq)), (''PUT'', Put (rq_path rq) (rq_body rq)), (''GET'', Get (rq_path rq)),
             (''HEAD'', Head (rq_path rq)), (''LOCK'', Lock), (''UNLOCK'', Unlock), (''COPY'', Copy), (''MOVE'', Move),
             (''POST'', Post (rq_path rq) (body_str rq))] (rq_method rq)"

definition method_request :: "'c handle_env \<Rightarrow> int \<Rightarrow> http_request \<Rightarrow> 'c web \<Rightarrow> ('c web \<times> (web_error + response)) option" where
  "method_request H now rq s =
     (if rq_method rq = ''OPTIONS'' then Some (s, options_handler (rq_path rq) (body_str rq) s)
      else if rq_method rq = ''PROPFIND'' then Some (s, propfind_handler (he_configs H) (he_dates H) (rq_path rq) s)
      else if rq_method rq = ''REPORT'' then report_handler (we_repo (he_web H)) (he_report H) (rq_path rq) (body_str rq) s
      else
        (case request_of rq of
           Some req \<Rightarrow> serve (he_web H) now req s
         | None \<Rightarrow> Some (s, Inr (plain 405 ''Method Not Allowed''))))"

definition handle :: "'c handle_env \<Rightarrow> int \<Rightarrow> http_request \<Rightarrow> 'c server \<Rightarrow> ('c server \<times> (handle_error + reply)) option" where
  "handle H now rq sv =
     (case api_request H now rq sv of
        Some res \<Rightarrow> res
      | None \<Rightarrow>
          if starts_with (rq_path rq) ''/sync/'' \<or> rq_path rq = ''/sync'' then
            sync_route H rq (unwrap_or [] (strip_prefix (rq_path rq) ''/sync'')) sv
          else if rq_method rq = ''GET'' \<and> is_dump_request (rq_accept rq) then dump_request H rq sv
          else if rq_method rq = ''POST'' \<and> is_load_request (rq_content_type rq) then load_request H rq sv
          else map_option (\<lambda>(s1, x). (sv\<lparr>sv_web := s1\<rparr>, map_sum WebFailure Reply x)) (method_request H now rq (sv_web sv)))"

section \<open>Starting the server\<close>

text \<open>Opening and registering the configured repositories, in the order the configuration is walked.\<close>

fun open_configured :: "'c repo_env \<Rightarrow> (string \<Rightarrow> string) \<Rightarrow> (string, 'c repo) omap \<Rightarrow> (string \<times> repo_config) list \<Rightarrow>
    (nat, 'c node) omap \<times> registry \<Rightarrow> handle_error + (nat, 'c node) omap \<times> registry" where
  "open_configured E draw dirs [] x = Inr x"
| "open_configured E draw dirs ((name, c) # cs) (heap, reg) =
     (let a = length heap;
          nd = \<lparr>nd_root = rc_path c, nd_repo = repo_open E (draw name) (dir_at E dirs (rc_path c)), nd_props = sp_new []\<rparr>
      in case register name a (rc_path c) reg of
           (reg1, Inl e) \<Rightarrow> Inl (RegisterFailed e)
         | (reg1, Inr _) \<Rightarrow> open_configured E draw dirs cs (oput a nd heap, reg1))"

fun initialize_all :: "'c repo_env \<Rightarrow> int \<Rightarrow> nat list \<Rightarrow> (nat, 'c node) omap \<Rightarrow> (handle_error + (nat, 'c node) omap) option" where
  "initialize_all E now [] heap = Some (Inr heap)"
| "initialize_all E now (a # as) heap =
     (case map_of heap a of
        None \<Rightarrow> Some (Inl (WebFailure Panicked))
      | Some nd \<Rightarrow>
          (case initialize E now (nd_repo nd) of
             None \<Rightarrow> None
           | Some (s, Inl e) \<Rightarrow> Some (Inl (InitFailed e))
           | Some (s, Inr _) \<Rightarrow> initialize_all E now as (oput a (nd\<lparr>nd_repo := s\<rparr>) heap)))"

definition init_repository_registry_async :: "'c repo_env \<Rightarrow> int \<Rightarrow> registry \<Rightarrow> (nat, 'c node) omap \<Rightarrow>
    (handle_error + (nat, 'c node) omap) option" where
  "init_repository_registry_async E now reg heap = initialize_all E now (map (\<lambda>n. the (reg_get reg n)) (reg_list reg)) heap"

definition start_multi :: "'c repo_env \<Rightarrow> int \<Rightarrow> (string \<Rightarrow> string) \<Rightarrow> (string, 'c repo) omap \<Rightarrow> (string \<times> repo_config) list \<Rightarrow>
    (handle_error + 'c web) option" where
  "start_multi E now draw dirs cs =
     (case open_configured E draw dirs cs ([], registry_new) of
        Inl e \<Rightarrow> Some (Inl e)
      | Inr (heap, reg) \<Rightarrow>
          map_option (map_sum id (\<lambda>heap1. \<lparr>w_heap = heap1, w_single = None, w_registry = Some reg, w_txns = [], w_counter = 0\<rparr>))
            (init_repository_registry_async E now reg heap))"

text \<open>\<open>init_repository\<close> and \<open>init_repository_async\<close>; the caller's \<open>expect\<close> panics on an error.\<close>

definition start_single :: "'c repo_env \<Rightarrow> int \<Rightarrow> (string \<Rightarrow> string) \<Rightarrow> (string, 'c repo) omap \<Rightarrow> string \<Rightarrow> (handle_error + 'c web) option" where
  "start_single E now draw dirs root =
     map_option (\<lambda>(s, x).
         case x of
           Inl e \<Rightarrow> Inl (WebFailure Panicked)
         | Inr _ \<Rightarrow> Inr \<lparr>w_heap = [(0, \<lparr>nd_root = root, nd_repo = s, nd_props = sp_new []\<rparr>)], w_single = Some 0,
                         w_registry = None, w_txns = [], w_counter = 0\<rparr>)
       (initialize E now (repo_open E (draw root) (dir_at E dirs root)))"

text \<open>\<open>configs\<close> is the order in which the map of configured repositories is walked.\<close>

definition start_server :: "'c repo_env \<Rightarrow> int \<Rightarrow> (string \<Rightarrow> string) \<Rightarrow> ((string, repo_config) omap \<Rightarrow> (string \<times> repo_config) list) \<Rightarrow>
    (string, 'c repo) omap \<Rightarrow> multi_repo_config \<Rightarrow> string \<Rightarrow> (handle_error + 'c web) option" where
  "start_server E now draw walk dirs cfg root =
     (if multi_repo cfg \<and> mc_repositories cfg \<noteq> [] then start_multi E now draw dirs (walk (mc_repositories cfg))
      else start_single E now draw dirs root)"

end
