(* ===== verification/Webdav_Serving.thy ===== *)
theory Webdav_Serving
  imports Webdav_Handle
begin

text \<open>
  What the server as a whole promises: reading requests return and change nothing but the tree cache,
  no request changes the routing, and a server started on intact directories is in a state from which
  every statement about transactions applies.
\<close>

section \<open>Computations that only read\<close>

definition reads :: "'c repo_env \<Rightarrow> 'c repo \<Rightarrow> ('c repo \<times> 'a) option \<Rightarrow> bool" where
  "reads E s m \<longleftrightarrow> (\<exists>s' x. m = Some (s', x) \<and> read_ok E s s')"

named_theorems reads_intro \<open>computations that only read a repository\<close>

lemma reads_return [reads_intro]: "verifiable E s \<Longrightarrow> reads E s (Some (s, x))"
  by (simp add: reads_def read_ok_refl verifiable_def)

lemma reads_map [reads_intro]: "reads E s m \<Longrightarrow> reads E s (map_option (\<lambda>(s1, x). (s1, f s1 x)) m)"
  by (auto simp: reads_def)

lemma reads_case:
  assumes "reads E s m" and "verifiable E s"
    and "\<And>s1 x. m = Some (s1, x) \<Longrightarrow> read_ok E s s1 \<Longrightarrow> verifiable E s1 \<Longrightarrow> reads E s1 (k (s1, x))"
  shows "reads E s (case m of None \<Rightarrow> None | Some y \<Rightarrow> k y)"
proof -
  obtain s1 x where m: "m = Some (s1, x)" "read_ok E s s1" using assms(1) by (auto simp: reads_def)
  with assms(3) [OF m verifiable_read [OF assms(2) m(2)]] show ?thesis
    using read_ok_trans [OF m(2)] by (auto simp: reads_def)
qed

lemma reads_bind:
  assumes "reads E s m" and "verifiable E s"
    and "\<And>s1 x. m = Some (s1, x) \<Longrightarrow> read_ok E s s1 \<Longrightarrow> verifiable E s1 \<Longrightarrow> reads E s1 (k (s1, x))"
  shows "reads E s (Option.bind m k)"
  using reads_case [OF assms(1,2), of k] assms(3) by (cases m) auto

lemma reads_get_tree [reads_intro]: "verifiable E s \<Longrightarrow> reads E s (get_tree_at_rev E r s)"
proof -
  assume "verifiable E s"
  then obtain s' res where "get_tree_at_rev E r s = Some (s', res)" "read_ok E s s'"
    using get_tree_returns [of E s r] unfolding verifiable_def by metis
  then show ?thesis by (simp add: reads_def)
qed

lemma reads_get_file [reads_intro]: "verifiable E s \<Longrightarrow> reads E s (get_file E p r s)"
proof -
  assume "verifiable E s"
  then obtain s' res where "get_file E p r s = Some (s', res)" "read_ok E s s'"
    using get_file_ok [of E s p r] unfolding verifiable_def by metis
  then show ?thesis by (simp add: reads_def)
qed

subsection \<open>Reports\<close>

lemma reads_locations: "verifiable E s \<Longrightarrow> reads E s (locations_loop E q peg cr rs xml s)"
proof (induction rs arbitrary: xml s)
  case (Cons r rs)
  show ?case unfolding locations_loop.simps Let_def
    apply (rule reads_case [OF reads_get_tree [OF Cons.prems] Cons.prems])
    subgoal for s1 x by (cases x) (simp_all only: option.case prod.case sum.case Cons.IH)
    done
qed (simp add: reads_intro)

lemma reads_log: "verifiable E s \<Longrightarrow> reads E s (log_report_loop E fmt opt limit rs items s)"
  using log_report_loop_items [of E s fmt opt limit rs items] by (auto simp: reads_def verifiable_def)

lemma reads_checkout:
  assumes "verifiable E s" and "r \<le> r_current_rev s"
  shows "reads E s (checkout_events E r (tree_of E s r) [] s)"
proof -
  have v: "lru_ok E" "history_inv E s" "changes_inv E s" using assms(1) by (simp_all add: verifiable_def)
  from checkout_events_ok [OF v(1,2) assms(2) tree_paths_plain [OF v(2,3) assms(2)], of "[]"] show ?thesis
    by (auto simp: reads_def opened_ok_def)
qed

lemma reads_update: "verifiable E s \<Longrightarrow> reads E s (handle_update_report E U body s)"
proof -
  assume v: "verifiable E s"
  let ?r = "target_rev body s"
  show ?thesis
  proof (cases "?r \<le> r_current_rev s")
    case True
    obtain s1 where g: "get_tree_at_rev E ?r s = Some (s1, Inr (tree_of E s ?r))" "read_ok E s s1"
      using get_tree_returns [of E s ?r] v True by (metis verifiable_def)
    have v1: "verifiable E s1" by (rule verifiable_read [OF v g(2)])
    have "reads E s1 (checkout_events E ?r (tree_of E s ?r) [] s1)"
      using reads_checkout [OF v1, of ?r] True read_ok_spec(1,2) [OF g(2)] by simp
    then show ?thesis
      using g v1 by (auto simp: handle_update_report_def Let_def reads_def intro: read_ok_trans)
  next
    case False
    then have lt: "r_current_rev s < ?r" by simp
    obtain s' where "get_tree_at_rev E ?r s = Some (s', Inl (CommitNotFound ?r))" "only_cache s s'" "history_inv E s'"
      using get_tree_beyond_head [OF _ _ lt] v by (metis verifiable_def)
    then show ?thesis by (simp add: handle_update_report_def Let_def reads_def read_ok_def)
  qed
qed

lemma reads_log_report: "verifiable E s \<Longrightarrow> reads E s (handle_log_report E fmt body s)"
proof -
  assume v: "verifiable E s"
  obtain els where "find_all_between body ''<S:revprop>'' ''</S:revprop>'' = Some els"
    using find_all_between_returns [of "''<S:revprop>''" "''</S:revprop>''" body] by auto
  with v show ?thesis
    by (auto simp: handle_log_report_def requested_revprops_def Let_def simp del: upt_Suc split: prod.split
        intro!: reads_map reads_log)
qed

lemma reads_locations_report: "verifiable E s \<Longrightarrow> reads E s (handle_get_locations_report E body s)"
proof -
  assume v: "verifiable E s"
  obtain els where "find_all_between body ''<S:location-revision>'' ''</S:location-revision>'' = Some els"
    using find_all_between_returns [of "''<S:location-revision>''" "''</S:location-revision>''" body] by auto
  with v show ?thesis
    by (auto simp: handle_get_locations_report_def location_revs_def intro!: reads_map reads_locations)
qed

lemma reads_report: "verifiable E s \<Longrightarrow> reads E s (run_report E R body s)"
  unfolding run_report_def Let_def
  using reads_map [OF reads_update, of E s "\<lambda>s1 x. case x of Inl e \<Rightarrow> Inl e | Inr t \<Rightarrow> Inr (Some t)" "update_env.truncate R" body]
    reads_map [OF reads_log_report, of E s "\<lambda>s1 t. Inr (Some t)" "ue_date R" body]
    reads_map [OF reads_locations_report, of E s "\<lambda>s1 t. Inr (Some t)" body]
  by (auto intro: reads_return)

subsection \<open>Dumps\<close>

lemma reads_write_change: "verifiable E s \<Longrightarrow> reads E s (write_change_to_buf E r ch s)"
proof (cases ch)
  case (Upsert path e)
  assume v: "verifiable E s"
  have "reads E s (upsert_action E r path s)" using v by (auto simp: upsert_action_def intro: reads_intro)
  then show ?thesis unfolding Upsert write_change_to_buf.simps
    by (rule reads_bind [OF _ v]) (auto intro!: reads_map reads_get_file reads_return)
qed (simp add: reads_intro)

lemma reads_write_changes: "verifiable E s \<Longrightarrow> reads E s (write_changes E r chs s)"
proof (induction chs arbitrary: s)
  case (Cons ch chs)
  show ?case unfolding write_changes.simps
    by (rule reads_bind [OF reads_write_change [OF Cons.prems] Cons.prems]) (auto intro!: reads_map Cons.IH)
qed (simp add: reads_intro)

lemma reads_write_revision: "verifiable E s \<Longrightarrow> reads E s (write_revision E D r s)"
  unfolding write_revision_def
  by (rule reads_map) (auto intro: reads_intro reads_write_changes split: sum.split)

lemma reads_write_revisions: "verifiable E s \<Longrightarrow> reads E s (write_revisions E D rs s)"
proof (induction rs arbitrary: s)
  case (Cons r rs)
  show ?case unfolding write_revisions.simps
    by (rule reads_bind [OF reads_write_revision [OF Cons.prems] Cons.prems]) (auto intro!: reads_map Cons.IH)
qed (simp add: reads_intro)

lemma reads_dump: "verifiable E s \<Longrightarrow> reads E s (handle_dump E D query s)"
  unfolding handle_dump_def generate_dump_def Let_def by (intro reads_map reads_write_revisions)

section \<open>Reading requests\<close>

text \<open>Two states of the server that differ in the tree caches of the repositories at most.\<close>

definition same_server :: "'c server \<Rightarrow> 'c server \<Rightarrow> bool" where
  "same_server sv sv' \<longleftrightarrow> same_repos (sv_web sv) (sv_web sv') \<and> w_txns (sv_web sv') = w_txns (sv_web sv) \<and>
     w_registry (sv_web sv') = w_registry (sv_web sv) \<and> w_single (sv_web sv') = w_single (sv_web sv) \<and>
     sv_sync sv' = sv_sync sv \<and> sv_revprops sv' = sv_revprops sv \<and> sv_revprop_hook sv' = sv_revprop_hook sv \<and> sv_dirs sv' = sv_dirs sv"

definition returns_same :: "'c server \<Rightarrow> ('c server \<times> 'a) option \<Rightarrow> bool" where
  "returns_same sv m \<longleftrightarrow> (\<exists>sv' res. m = Some (sv', res) \<and> same_server sv sv')"

lemma same_repos_refl: "same_repos s s"
  by (simp add: same_repos_def)

lemma same_server_refl: "same_server sv sv"
  by (simp add: same_server_def same_repos_refl)

lemma returns_same_refl: "returns_same sv (Some (sv, x))"
  by (simp add: returns_same_def same_server_refl)

lemma same_put_repo: "map_of (w_heap s) a = Some nd \<Longrightarrow> only_cache (nd_repo nd) r1 \<Longrightarrow> same_repos s (put_repo a nd r1 s)"
  by (auto simp: same_repos_def put_repo_def omap_simps)

lemma put_repo_frame [simp]:
  "w_txns (put_repo a nd r s) = w_txns s" "w_registry (put_repo a nd r s) = w_registry s" "w_single (put_repo a nd r s) = w_single s"
  by (simp_all add: put_repo_def)

lemma web_verifiable: "web_reachable W s \<Longrightarrow> map_of (w_heap s) a = Some nd \<Longrightarrow> verifiable (we_repo W) (nd_repo nd)"
  using web_reachable_inv [of W s] by (auto simp: web_inv_def repos_clean_def clean_repo_def intro: reachable_verifiable)

lemma with_global_same:
  assumes "\<And>a nd. map_of (w_heap (sv_web sv)) a = Some nd \<Longrightarrow> returns_same sv (f a nd)"
  shows "returns_same sv (with_global sv f)"
  using assms
  by (auto simp: with_global_def node_at_def get_repo_def rbind_def ok_or_def returns_same_refl split: sum.splits option.splits)

lemma sync_read_same: "meth \<noteq> ''POST'' \<Longrightarrow> fst (handle_sync_request E N path meth body query S) = S"
  by (simp add: handle_sync_request_def Let_def)

lemma put_site_same: "map_of (w_heap (sv_web sv)) a = Some nd \<Longrightarrow> same_server sv (put_site a nd (site_of sv nd) sv)"
  by (simp add: same_server_def put_site_def site_of_def same_put_repo)

abbreviation safe_methods :: "string list" where
  "safe_methods \<equiv> [''GET'', ''HEAD'', ''OPTIONS'', ''PROPFIND'', ''REPORT'']"

lemma safe_api: "rq_method rq \<in> set safe_methods \<Longrightarrow> api_request H now rq sv = Some res \<Longrightarrow> returns_same sv res"
  by (auto simp: api_request_def Let_def returns_same_refl split: if_splits option.splits)

lemma safe_serve:
  assumes "web_reachable W s" and "req = Get path \<or> req = Head path"
  obtains s' res where "serve W now req s = Some (s', res)" and "same_repos s s'" and "w_txns s' = w_txns s"
    and "w_registry s' = w_registry s" and "w_single s' = w_single s"
proof -
  have "serve W now req s \<noteq> None"
  proof (cases "route path s")
    case (Inr x)
    obtain a nd where x: "x = (a, nd)" by (cases x)
    have "reads (we_repo W) (nd_repo nd) (get_file (we_repo W) path (r_current_rev (nd_repo nd)) (nd_repo nd))"
      using web_verifiable [OF assms(1)] route_node [of path s a nd] Inr x by (auto intro: reads_get_file)
    with assms(2) Inr x show ?thesis by (auto simp: get_handler_def head_handler_def exists_path_def reads_def)
  qed (use assms(2) in \<open>auto simp: get_handler_def head_handler_def\<close>)
  then obtain s' res where r: "serve W now req s = Some (s', res)" by auto
  have "w_registry s' = w_registry s \<and> w_single s' = w_single s" using read_effect [OF r assms(2)] by auto
  with r read_inv [OF r assms(2) web_reachable_inv [OF assms(1)]] show ?thesis using that by blast
qed

lemma safe_method_request:
  assumes "web_reachable (he_web H) s" and "rq_method rq \<in> set safe_methods"
  shows "\<exists>s' res. method_request H now rq s = Some (s', res) \<and> same_repos s s' \<and> w_txns s' = w_txns s \<and>
    w_registry s' = w_registry s \<and> w_single s' = w_single s"
proof (cases "rq_method rq = ''GET'' \<or> rq_method rq = ''HEAD''")
  case True
  then obtain req where q: "request_of rq = Some req" "req = Get (rq_path rq) \<or> req = Head (rq_path rq)"
    by (auto simp: request_of_def)
  obtain s' res where r: "serve (he_web H) now req s = Some (s', res)" "same_repos s s'" "w_txns s' = w_txns s"
    "w_registry s' = w_registry s" "w_single s' = w_single s"
    using safe_serve [OF assms(1) q(2)] .
  have "method_request H now rq s = Some (s', res)" using True q(1) r(1) by (auto simp: method_request_def)
  with r show ?thesis by blast
next
  case False
  show ?thesis
  proof (cases "rq_method rq = ''REPORT''")
    case report: True
    show ?thesis
    proof (cases "route (rq_path rq) s")
      case (Inr x)
      obtain a nd where x: "x = (a, nd)" by (cases x)
      have n: "map_of (w_heap s) a = Some nd" using route_node Inr x by blast
      from reads_report [OF web_verifiable [OF assms(1) n], of "he_report H" "body_str rq"]
      obtain r1 y where "run_report (we_repo (he_web H)) (he_report H) (body_str rq) (nd_repo nd) = Some (r1, y)" "only_cache (nd_repo nd) r1"
        by (auto simp: reads_def read_ok_def)
      with report Inr x same_put_repo [OF n] show ?thesis by (simp add: method_request_def report_handler_def)
    qed (simp add: report method_request_def report_handler_def same_repos_refl)
  next
    case other: False
    with False assms(2) have "rq_method rq = ''OPTIONS'' \<or> rq_method rq = ''PROPFIND''" by auto
    then show ?thesis by (auto simp: method_request_def same_repos_refl)
  qed
qed


end
