(* ===== verification/Webdav_Start.thy ===== *)
theory Webdav_Start
  imports Webdav_Serving Sync_Samples Dump_Load
begin

text \<open>
  Starting the server and its routing: a start on intact directories succeeds and leads to a state from
  which the promises of \<open>Webdav_Transactions\<close> and \<open>Webdav_Serving\<close> hold; no request changes which
  repositories are served.
\<close>

section \<open>Routing is fixed at the start\<close>

lemma serve_routing:
  assumes "serve W now req s = Some (s', res)"
  shows "w_registry s' = w_registry s \<and> w_single s' = w_single s"
proof (cases "\<exists>path. req = Get path \<or> req = Head path")
  case True
  then show ?thesis using read_effect [OF assms] by auto
next
  case False
  with assms show ?thesis
    by (cases req)
      (auto simp: post_handler_def mkactivity_handler_def put_handler_def proppatch_handler_def delete_handler_def
        handle_delete_activity_def merge_handler_def put_txn_def Let_def
        split: sum.splits option.splits prod.splits if_splits)
qed

lemma method_routing: "method_request H now rq s = Some (s', res) \<Longrightarrow> w_registry s' = w_registry s \<and> w_single s' = w_single s"
  by (auto simp: method_request_def report_handler_def dest: serve_routing split: if_splits option.splits sum.splits)

lemma api_routing: "api_request H now rq sv = Some (Some (sv', res)) \<Longrightarrow> sv_web sv' = sv_web sv"
  by (auto simp: api_request_def Let_def split: if_splits option.splits prod.splits)

lemma global_routing:
  assumes "with_global sv f = Some (sv', res)"
    and "\<And>a nd. f a nd = Some (sv', res) \<Longrightarrow> \<exists>r. sv_web sv' = put_repo a nd r (sv_web sv)"
  shows "w_registry (sv_web sv') = w_registry (sv_web sv) \<and> w_single (sv_web sv') = w_single (sv_web sv)"
  using assms(1) by (auto simp: with_global_def split: sum.splits dest!: assms(2))

text \<open>
  C40. No request changes the routing, whatever its method and body: the management API answers that it has
  created or deleted a repository, but the server serves the repositories it was started with.
\<close>

theorem routing_fixed:
  assumes "handle H now rq sv = Some (sv', res)"
  shows "w_registry (sv_web sv') = w_registry (sv_web sv) \<and> w_single (sv_web sv') = w_single (sv_web sv)"
proof -
  have sync: "w_registry (sv_web sv') = w_registry (sv_web sv) \<and> w_single (sv_web sv') = w_single (sv_web sv)"
    if "sync_route H rq p sv = Some (sv', res)" for p
    using that unfolding sync_route_def by (rule global_routing) (auto simp: put_site_def split: prod.splits)
  have dump: "w_registry (sv_web sv') = w_registry (sv_web sv) \<and> w_single (sv_web sv') = w_single (sv_web sv)"
    if "dump_request H rq sv = Some (sv', res)"
    using that unfolding dump_request_def by (rule global_routing) auto
  have load: "w_registry (sv_web sv') = w_registry (sv_web sv) \<and> w_single (sv_web sv') = w_single (sv_web sv)"
    if "load_request H rq sv = Some (sv', res)"
    using that unfolding load_request_def by (rule global_routing) (auto split: prod.splits)
  from assms sync dump load show ?thesis
    by (auto simp: handle_def split: option.splits if_splits dest!: api_routing method_routing)
qed

text \<open>With several repositories there is no global one, and every synchronisation request panics.\<close>

lemma multi_sync_panics:
  assumes "w_single (sv_web sv) = None" and "rq_path rq = ''/sync'' @ p" and "p = [] \<or> hd p = CHR ''/''"
  shows "handle H now rq sv = Some (sv, Inl (WebFailure Panicked))"
proof -
  have "api_request H now rq sv = None"
    using assms(2) by (auto simp: api_request_def Let_def strip_prefix_Some_iff split: option.splits)
  moreover have "starts_with (rq_path rq) ''/sync/'' \<or> rq_path rq = ''/sync''"
    using assms(2,3) by (cases p) auto
  ultimately show ?thesis
    using assms(1) by (auto simp: handle_def sync_route_def with_global_def get_repo_def ok_or_def rbind_def)
qed

section \<open>Starting\<close>

text \<open>A directory in which a server has left a repository: its history is reachable and nothing is pending.\<close>

definition dirs_clean :: "'c repo_env \<Rightarrow> (string, 'c repo) omap \<Rightarrow> bool" where
  "dirs_clean E dirs \<longleftrightarrow> (\<forall>p d. map_of dirs p = Some d \<longrightarrow> clean_repo E d)"

definition keeps_dir :: "'c repo_env \<Rightarrow> (string, 'c repo) omap \<Rightarrow> string \<Rightarrow> 'c repo \<Rightarrow> bool" where
  "keeps_dir E dirs p s \<longleftrightarrow>
     (\<forall>d. map_of dirs p = Some d \<longrightarrow> r_current_rev s = r_current_rev d \<and> tree_of E s = tree_of E d \<and> r_objects s = r_objects d)"

lemma open_dir_ok:
  assumes "env_ok E" and "dirs_clean E dirs"
  shows "\<exists>s. initialize E now (repo_open E u (dir_at E dirs p)) = Some (s, Inr ()) \<and> clean_repo E s \<and> keeps_dir E dirs p s"
proof (cases "map_of dirs p")
  case None
  obtain s where i: "initialize E now (repo_open E u (blank (lru_empty E))) = Some (s, Inr ())" "r_pending s = []"
    using initialize_blank [OF assms(1)] .
  with None reachable.created [OF assms(1) i(1)] show ?thesis by (simp add: dir_at_def clean_repo_def keeps_dir_def)
next
  case (Some d)
  then have c: "reachable E d" "r_pending d = []" using assms(2) by (auto simp: dirs_clean_def clean_repo_def)
  have l: "repo_inv E d" "head_saved d" "trees_ok E d" "history_inv E d"
    using reachable_life [OF c(1)] by (simp_all add: life_inv_def repo_inv_def)
  show ?thesis
  proof (cases "r_tree_entries d = []")
    case False
    obtain s where i: "initialize E now (repo_open E u d) = Some (s, Inr ())" "r_current_rev s = r_current_rev d"
      "tree_of E s = tree_of E d" "r_objects s = r_objects d" "r_pending s = r_pending d"
      using reopen_rows [OF l(1,2) False] .
    with Some c reachable.reopened [OF c(1) False i(1)] show ?thesis by (simp add: dir_at_def clean_repo_def keeps_dir_def)
  next
    case True
    have e: "lose_tables d = d" using True c(2) by (simp add: lose_tables_def)
    obtain s where i: "initialize E now (repo_open E u d) = Some (s, Inr ())" "r_current_rev s = r_current_rev d"
      "tree_of E s = tree_of E d" "r_objects s = r_objects d" "r_pending s = []"
      using reopen_empty [OF assms(1) l(4,3,2) True c(2)] .
    with Some reachable.recovered [OF c(1), unfolded e, OF i(1)] show ?thesis by (simp add: dir_at_def clean_repo_def keeps_dir_def)
  qed
qed

text \<open>Addresses are given out in order and each belongs to exactly one name.\<close>

definition reg_inv :: "(nat, 'c node) omap \<Rightarrow> registry \<Rightarrow> bool" where
  "reg_inv heap reg \<longleftrightarrow> map fst heap = [0..<length heap] \<and> omap_ok (repositories reg) \<and>
     (\<forall>n a. reg_get reg n = Some a \<longrightarrow> a < length heap) \<and> (\<forall>a < length heap. \<exists>n. reg_get reg n = Some a) \<and>
     (\<forall>n m a. reg_get reg n = Some a \<longrightarrow> reg_get reg m = Some a \<longrightarrow> n = m)"

lemma oput_snoc: "\<forall>x \<in> set m. fst x < k \<Longrightarrow> oput k v m = m @ [(k, v)]"
  by (induction m) auto

lemma heap_keys: "map fst heap = [0..<length heap] \<Longrightarrow> fst ` set heap = {0..<length heap}"
  by (metis set_map set_upt)

lemma heap_alloc:
  assumes "map fst heap = [0..<length heap]"
  shows "oput (length heap) nd heap = heap @ [(length heap, nd)]"
proof (rule oput_snoc)
  from heap_keys [OF assms] show "\<forall>x \<in> set heap. fst x < length heap" by (metis atLeastLessThan_iff image_eqI)
qed

definition node_for :: "'c repo_env \<Rightarrow> (string \<Rightarrow> string) \<Rightarrow> (string, 'c repo) omap \<Rightarrow> string \<Rightarrow> repo_config \<Rightarrow> 'c node" where
  "node_for E draw dirs name c =
     \<lparr>nd_root = rc_path c, nd_repo = repo_open E (draw name) (dir_at E dirs (rc_path c)), nd_props = sp_new []\<rparr>"

lemma reg_inv_alloc:
  assumes "reg_inv heap reg" and "reg_get reg name = None"
  shows "reg_inv (heap @ [(length heap, nd)])
    (reg\<lparr>repositories := oput name (length heap) (repositories reg), reg_names := ns\<rparr>)"
proof -
  let ?reg = "reg\<lparr>repositories := oput name (length heap) (repositories reg), reg_names := ns\<rparr>"
  have g: "reg_get ?reg n = (if n = name then Some (length heap) else reg_get reg n)" for n
    using assms(1) by (simp add: reg_get_def reg_inv_def omap_simps)
  have lt: "a < length heap" if "reg_get reg n = Some a" for n a using assms(1) that unfolding reg_inv_def by blast
  have inj: "n = m" if "reg_get reg n = Some a" "reg_get reg m = Some a" for n m a using assms(1) that unfolding reg_inv_def by blast
  have "a < Suc (length heap)" if "reg_get ?reg n = Some a" for n a
    using that lt [of n a] unfolding g by (cases "n = name") auto
  moreover have "\<exists>n. reg_get ?reg n = Some a" if a: "a < Suc (length heap)" for a
  proof (cases "a = length heap")
    case False
    with a obtain n where n: "reg_get reg n = Some a" using assms(1) unfolding reg_inv_def by (metis less_antisym)
    with assms(2) have "n \<noteq> name" by auto
    with n show ?thesis unfolding g by auto
  qed (auto simp: g)
  moreover have "n = m" if "reg_get ?reg n = Some a" "reg_get ?reg m = Some a" for n m a
    using that inj [of n a m] lt [of n a] lt [of m a] unfolding g by (cases "n = name"; cases "m = name") auto
  moreover have "map fst heap = [0..<length heap]" "omap_ok (repositories ?reg)"
    using assms(1) by (simp_all add: reg_inv_def omap_simps)
  ultimately show ?thesis unfolding reg_inv_def by auto
qed

lemma open_configured_ok:
  assumes "reg_inv heap reg" and "distinct (map fst cs)" and "\<forall>n \<in> fst ` set cs. reg_get reg n = None"
  shows "\<exists>heap' reg'. open_configured E draw dirs cs (heap, reg) = Inr (heap', reg') \<and> reg_inv heap' reg' \<and>
    (\<forall>a < length heap. map_of heap' a = map_of heap a) \<and> length heap \<le> length heap' \<and>
    (\<forall>n. n \<notin> fst ` set cs \<longrightarrow> reg_get reg' n = reg_get reg n) \<and>
    (\<forall>n c. (n, c) \<in> set cs \<longrightarrow> (\<exists>a. reg_get reg' n = Some a \<and> map_of heap' a = Some (node_for E draw dirs n c)))"
  using assms
proof (induction cs arbitrary: heap reg)
  case (Cons x cs)
  obtain name c where x: "x = (name, c)" by (cases x)
  let ?nd = "node_for E draw dirs name c"
  let ?reg = "reg\<lparr>repositories := oput name (length heap) (repositories reg), reg_names := oput (rc_path c) name (reg_names reg)\<rparr>"
  let ?heap = "heap @ [(length heap, ?nd)]"
  have new: "reg_get reg name = None" using Cons.prems(3) x by simp
  have keys: "map fst heap = [0..<length heap]" using Cons.prems(1) by (simp add: reg_inv_def)
  have step: "open_configured E draw dirs (x # cs) (heap, reg) = open_configured E draw dirs cs (?heap, ?reg)"
    using new heap_alloc [OF keys] by (simp add: x register_def reg_get_def ohas_def Let_def flip: node_for_def)
  have fresh: "\<forall>n \<in> fst ` set cs. reg_get ?reg n = None" using Cons.prems(2,3) by (auto simp: x reg_get_def omap_simps)
  have dist: "distinct (map fst cs)" "name \<notin> fst ` set cs" using Cons.prems(2) x by simp_all
  obtain heap' reg' where i: "open_configured E draw dirs cs (?heap, ?reg) = Inr (heap', reg')" "reg_inv heap' reg'"
    "\<forall>a < length ?heap. map_of heap' a = map_of ?heap a" "length ?heap \<le> length heap'"
    "\<forall>n. n \<notin> fst ` set cs \<longrightarrow> reg_get reg' n = reg_get ?reg n"
    "\<forall>n c. (n, c) \<in> set cs \<longrightarrow> (\<exists>a. reg_get reg' n = Some a \<and> map_of heap' a = Some (node_for E draw dirs n c))"
    using Cons.IH [OF reg_inv_alloc [OF Cons.prems(1) new] dist(1) fresh] by blast
  have last: "map_of ?heap (length heap) = Some ?nd"
  proof -
    have "length heap \<notin> fst ` set heap" using arg_cong [OF keys, of set] by auto
    then have "map_of heap (length heap) = None" by (simp add: map_of_eq_None_iff)
    then show ?thesis by (simp add: map_add_def)
  qed
  have old: "\<forall>a < length heap. map_of heap' a = map_of heap a" using i(3) by (auto simp: map_add_def less_Suc_eq split: option.split)
  have this_one: "reg_get reg' name = Some (length heap)" "map_of heap' (length heap) = Some ?nd"
    using i(3,5) dist(2) last by (auto simp: reg_get_def omap_simps)
  have others: "reg_get reg' n = reg_get reg n" if "n \<notin> fst ` set (x # cs)" for n
    using i(5) that by (auto simp: x reg_get_def omap_simps)
  show ?case
    using step i(1,2,4,6) old others this_one by (auto simp: x)
qed auto

lemma initialize_all_ok:
  assumes "distinct as"
    and "\<And>a. a \<in> set as \<Longrightarrow> \<exists>nd s. map_of heap a = Some nd \<and> initialize E now (nd_repo nd) = Some (s, Inr ()) \<and> P a nd s"
  shows "\<exists>heap'. initialize_all E now as heap = Some (Inr heap') \<and>
    (\<forall>a. a \<notin> set as \<longrightarrow> map_of heap' a = map_of heap a) \<and>
    (\<forall>a \<in> set as. \<exists>nd s. map_of heap a = Some nd \<and> map_of heap' a = Some (nd\<lparr>nd_repo := s\<rparr>) \<and> P a nd s)"
  using assms
proof (induction as arbitrary: heap)
  case (Cons a as)
  obtain nd s where a: "map_of heap a = Some nd" "initialize E now (nd_repo nd) = Some (s, Inr ())" "P a nd s"
    using Cons.prems(2) [of a] by auto
  let ?heap = "oput a (nd\<lparr>nd_repo := s\<rparr>) heap"
  have same: "map_of ?heap b = map_of heap b" if "b \<in> set as" for b
    using Cons.prems(1) that by (auto simp: omap_simps)
  have ih: "\<exists>nd s. map_of ?heap b = Some nd \<and> initialize E now (nd_repo nd) = Some (s, Inr ()) \<and> P b nd s" if "b \<in> set as" for b
    using Cons.prems(2) [of b] that same [OF that] by simp
  obtain heap' where h: "initialize_all E now as ?heap = Some (Inr heap')" "\<forall>b. b \<notin> set as \<longrightarrow> map_of heap' b = map_of ?heap b"
    "\<forall>b \<in> set as. \<exists>nd s. map_of ?heap b = Some nd \<and> map_of heap' b = Some (nd\<lparr>nd_repo := s\<rparr>) \<and> P b nd s"
    using Cons.IH [OF _ ih] Cons.prems(1) by auto
  have "map_of heap' a = Some (nd\<lparr>nd_repo := s\<rparr>)" using h(2) Cons.prems(1) by (simp add: omap_simps)
  moreover have "map_of heap' b = map_of heap b" if "b \<notin> set (a # as)" for b using h(2) that by (auto simp: omap_simps)
  ultimately show ?case using a h(1,3) same by auto
qed simp

lemma reg_addresses:
  assumes "reg_inv heap reg"
  shows "distinct (map (\<lambda>n. the (reg_get reg n)) (reg_list reg))" "set (map (\<lambda>n. the (reg_get reg n)) (reg_list reg)) = {0..<length heap}"
proof -
  have k: "n \<in> set (reg_list reg) \<longleftrightarrow> (\<exists>a. reg_get reg n = Some a)" for n
    using map_of_eq_None_iff [of "repositories reg" n] by (auto simp: reg_list_def reg_get_def okeys_def)
  have d: "distinct (reg_list reg)" using assms by (auto simp: reg_inv_def reg_list_def okeys_def omap_ok_distinct)
  have "inj_on (\<lambda>n. the (reg_get reg n)) (set (reg_list reg))"
  proof (rule inj_onI)
    fix n m
    assume "n \<in> set (reg_list reg)" "m \<in> set (reg_list reg)" "the (reg_get reg n) = the (reg_get reg m)"
    with k have "\<exists>a. reg_get reg n = Some a \<and> reg_get reg m = Some a" by (metis option.sel)
    with assms show "n = m" unfolding reg_inv_def by blast
  qed
  with d show "distinct (map (\<lambda>n. the (reg_get reg n)) (reg_list reg))" by (simp add: distinct_map)
  have lt: "the (reg_get reg n) < length heap" if n: "n \<in> set (reg_list reg)" for n
  proof -
    obtain a where "reg_get reg n = Some a" using n k by blast
    moreover from this assms have "a < length heap" unfolding reg_inv_def by blast
    ultimately show ?thesis by simp
  qed
  have "\<exists>n \<in> set (reg_list reg). a = the (reg_get reg n)" if a: "a < length heap" for a
  proof -
    obtain n where "reg_get reg n = Some a" using a assms unfolding reg_inv_def by blast
    with k show ?thesis by (metis option.sel)
  qed
  with lt show "set (map (\<lambda>n. the (reg_get reg n)) (reg_list reg)) = {0..<length heap}"
    unfolding set_map by (auto simp: image_iff)
qed

lemma route_named:
  assumes "w_registry s = Some reg" and "reg_get reg name = Some a" and "map_of (w_heap s) a = Some nd"
    and "name \<noteq> []" and "CHR ''/'' \<notin> set name" and "rest = [] \<or> hd rest = CHR ''/''"
  shows "route (''/svn/'' @ name @ rest) s = Inr (a, nd)"
proof -
  obtain ws where "split CHR ''/'' (name @ rest) = name # ws"
    using assms(5,6) by (cases rest) (simp_all add: split_id split_append)
  moreover have "strip_prefix (''/svn/'' @ name @ rest) ''/svn'' = Some (''/'' @ name @ rest)"
    by (simp add: strip_prefix_Some_iff)
  ultimately show ?thesis
    using assms(1-4) by (simp add: route_def get_repo_by_path_def Let_def node_at_def ok_or_def)
qed

lemma start_multi_ok:
  assumes "env_ok E" and "dirs_clean E dirs" and "distinct (map fst cs)"
  shows "\<exists>s reg. start_multi E now draw dirs cs = Some (Inr s) \<and> w_registry s = Some reg \<and> w_txns s = [] \<and>
    (\<forall>a nd. map_of (w_heap s) a = Some nd \<longrightarrow> clean_repo E (nd_repo nd)) \<and>
    (\<forall>n c. (n, c) \<in> set cs \<longrightarrow> (\<exists>a nd. reg_get reg n = Some a \<and> map_of (w_heap s) a = Some nd \<and>
       nd_root nd = rc_path c \<and> keeps_dir E dirs (rc_path c) (nd_repo nd)))"
proof -
  have e: "reg_inv ([] :: (nat, 'a node) omap) registry_new" by (simp add: reg_inv_def registry_new_def reg_get_def omap_ok_def)
  have none: "\<forall>n \<in> fst ` set cs. reg_get registry_new n = None" by (simp add: registry_new_def reg_get_def)
  obtain heap reg where o: "open_configured E draw dirs cs ([], registry_new) = Inr (heap, reg)" "reg_inv heap reg"
    "\<forall>n. n \<notin> fst ` set cs \<longrightarrow> reg_get reg n = None"
    "\<forall>n c. (n, c) \<in> set cs \<longrightarrow> (\<exists>a. reg_get reg n = Some a \<and> map_of heap a = Some (node_for E draw dirs n c))"
    using open_configured_ok [OF e assms(3) none, of E draw dirs] none by (auto simp: registry_new_def reg_get_def)
  let ?P = "\<lambda>a nd s. clean_repo E s \<and> keeps_dir E dirs (nd_root nd) s"
  have init: "\<exists>nd s. map_of heap a = Some nd \<and> initialize E now (nd_repo nd) = Some (s, Inr ()) \<and> ?P a nd s" if a: "a < length heap" for a
  proof -
    obtain n where n: "reg_get reg n = Some a" using a o(2) unfolding reg_inv_def by blast
    then obtain c where "(n, c) \<in> set cs" using o(3) by (cases "n \<in> fst ` set cs") auto
    with o(4) n have "map_of heap a = Some (node_for E draw dirs n c)" by (metis option.inject)
    with open_dir_ok [OF assms(1,2), of now "draw n" "rc_path c"] show ?thesis by (auto simp: node_for_def)
  qed
  obtain heap' where h: "init_repository_registry_async E now reg heap = Some (Inr heap')"
    "\<forall>a. a \<notin> {0..<length heap} \<longrightarrow> map_of heap' a = map_of heap a"
    "\<forall>a \<in> {0..<length heap}. \<exists>nd s. map_of heap a = Some nd \<and> map_of heap' a = Some (nd\<lparr>nd_repo := s\<rparr>) \<and> ?P a nd s"
    using initialize_all_ok [OF reg_addresses(1) [OF o(2)], of heap E now ?P] init
    unfolding reg_addresses(2) [OF o(2)] init_repository_registry_async_def by auto
  let ?s = "\<lparr>w_heap = heap', w_single = None, w_registry = Some reg, w_txns = [], w_counter = 0\<rparr>"
  have start: "start_multi E now draw dirs cs = Some (Inr ?s)" using o(1) h(1) by (simp add: start_multi_def)
  have out: "map_of heap a = None" if "\<not> a < length heap" for a
    using that heap_keys [of heap] o(2) by (simp add: reg_inv_def map_of_eq_None_iff)
  have "clean_repo E (nd_repo nd)" if "map_of heap' a = Some nd" for a nd
  proof (cases "a < length heap")
    case True
    then have "a \<in> {0..<length heap}" by simp
    from bspec [OF h(3) this] that show ?thesis by auto
  qed (use that h(2) out in auto)
  moreover have "\<exists>a nd. reg_get reg n = Some a \<and> map_of heap' a = Some nd \<and> nd_root nd = rc_path c \<and> keeps_dir E dirs (rc_path c) (nd_repo nd)"
    if nc: "(n, c) \<in> set cs" for n c
  proof -
    obtain a where a: "reg_get reg n = Some a" "map_of heap a = Some (node_for E draw dirs n c)" using o(4) nc by blast
    then have "a < length heap" using out by force
    with h(3) a show ?thesis by (fastforce simp: node_for_def)
  qed
  ultimately show ?thesis using start by (intro exI [of _ ?s] exI [of _ reg]) simp
qed

text \<open>
  C14. A server started on directories that are empty or were left by a server starts, without a pending
  transaction and with reachable repositories, so that all that is shown for reachable servers holds from
  there; with several repositories each is found under its name, and each serves the revisions of its directory.
\<close>

theorem server_starts:
  assumes "env_ok (we_repo W)" and "dirs_clean (we_repo W) dirs" and "distinct (map fst (walk (mc_repositories cfg)))"
    and "set (walk (mc_repositories cfg)) = set (mc_repositories cfg)"
  shows "\<exists>s. start_server (we_repo W) now draw walk dirs cfg root = Some (Inr s) \<and> web_reachable W s \<and>
    (if multi_repo cfg \<and> mc_repositories cfg \<noteq> []
     then \<forall>name c rest. (name, c) \<in> set (mc_repositories cfg) \<and> name \<noteq> [] \<and> CHR ''/'' \<notin> set name \<and> (rest = [] \<or> hd rest = CHR ''/'') \<longrightarrow>
       (\<exists>a nd. route (''/svn/'' @ name @ rest) s = Inr (a, nd) \<and> nd_root nd = rc_path c \<and> keeps_dir (we_repo W) dirs (rc_path c) (nd_repo nd))
     else \<forall>path. \<exists>a nd. route path s = Inr (a, nd) \<and> nd_root nd = root \<and> keeps_dir (we_repo W) dirs root (nd_repo nd))"
proof (cases "multi_repo cfg \<and> mc_repositories cfg \<noteq> []")
  case True
  obtain s reg where s: "start_multi (we_repo W) now draw dirs (walk (mc_repositories cfg)) = Some (Inr s)" "w_registry s = Some reg"
    "w_txns s = []" "\<forall>a nd. map_of (w_heap s) a = Some nd \<longrightarrow> clean_repo (we_repo W) (nd_repo nd)"
    "\<forall>n c. (n, c) \<in> set (mc_repositories cfg) \<longrightarrow> (\<exists>a nd. reg_get reg n = Some a \<and> map_of (w_heap s) a = Some nd \<and>
       nd_root nd = rc_path c \<and> keeps_dir (we_repo W) dirs (rc_path c) (nd_repo nd))"
    using start_multi_ok [OF assms(1-3), of now draw] unfolding assms(4) by blast
  have "web_reachable W s" using s(3,4) by (intro web_reachable.started) (simp_all add: repos_clean_def)
  moreover have "\<exists>a nd. route (''/svn/'' @ name @ rest) s = Inr (a, nd) \<and> nd_root nd = rc_path c \<and> keeps_dir (we_repo W) dirs (rc_path c) (nd_repo nd)"
    if "(name, c) \<in> set (mc_repositories cfg)" "name \<noteq> []" "CHR ''/'' \<notin> set name" "rest = [] \<or> hd rest = CHR ''/''" for name c rest
  proof -
    obtain a nd where n: "reg_get reg name = Some a" "map_of (w_heap s) a = Some nd" "nd_root nd = rc_path c"
      "keeps_dir (we_repo W) dirs (rc_path c) (nd_repo nd)"
      using s(5) \<open>(name, c) \<in> set (mc_repositories cfg)\<close> by blast
    from route_named [OF s(2) n(1,2) that(2-4)] n(3,4) show ?thesis by blast
  qed
  ultimately show ?thesis using True s(1) by (auto simp: start_server_def)
next
  case False
  obtain r where r: "initialize (we_repo W) now (repo_open (we_repo W) (draw root) (dir_at (we_repo W) dirs root)) = Some (r, Inr ())"
    "clean_repo (we_repo W) r" "keeps_dir (we_repo W) dirs root r"
    using open_dir_ok [OF assms(1,2)] by blast
  let ?s = "\<lparr>w_heap = [(0, \<lparr>nd_root = root, nd_repo = r, nd_props = sp_new []\<rparr>)], w_single = Some 0, w_registry = None, w_txns = [], w_counter = 0\<rparr>"
  have "start_server (we_repo W) now draw walk dirs cfg root = Some (Inr ?s)"
    unfolding start_server_def if_not_P [OF False] using r(1) by (simp add: start_single_def)
  moreover have "web_reachable W ?s" using r(2) by (intro web_reachable.started) (simp_all add: repos_clean_def)
  moreover have "route path ?s = Inr (0, \<lparr>nd_root = root, nd_repo = r, nd_props = sp_new []\<rparr>)" for path
    by (simp add: route_def get_repo_by_path_def get_repo_def node_at_def Let_def ok_or_def)
  ultimately show ?thesis using False r(3) by (intro exI [of _ ?s]) auto
qed

section \<open>A sample server\<close>

definition sample_api :: api_env where
  "sample_api = \<lparr>parse_create = (\<lambda>_. Some \<lparr>cq_name = ''new'', cq_path = ''/data/new'', cq_display_name = None, cq_description = None\<rparr>),
     json_repo = ri_name, json_repos = (\<lambda>rs. concat (map ri_name rs)), json_api_error = (\<lambda>t. t)\<rparr>"

definition sample_handle :: "(nat \<rightharpoonup> tree_map) handle_env" where
  "sample_handle = \<lparr>he_web = sample_we, he_net = sample_net, he_dump = sample_dates,
     he_report = update_env.extend sample_update \<lparr>re_parse_date = (\<lambda>_. None)\<rparr>, he_api = sample_api, he_configs = None,
     he_dates = ([], []), he_draw = ''uuid'', he_elapsed = 0\<rparr>"

definition sample_server :: "(nat \<rightharpoonup> tree_map) server" where
  "sample_server = \<lparr>sv_web = sample_web, sv_sync = st_dir sample_source, sv_revprops = [], sv_revprop_hook = None, sv_dirs = []\<rparr>"


text \<open>A repository is created through the API; the answer is 201 and the server routes as before.\<close>

theorem routing_fixed_witness:
  "\<exists>sv' resp. handle sample_handle 0 \<lparr>rq_method = ''POST'', rq_path = ''/svn/_api/repos'', rq_query = [], rq_accept = [], rq_content_type = [],
     rq_body = []\<rparr> sample_server = Some (sv', Inr (Reply resp)) \<and> status resp = 201 \<and>
     w_registry (sv_web sv') = w_registry (sv_web sample_server)"
proof -
  let ?rq = "\<lparr>rq_method = ''POST'', rq_path = ''/svn/_api/repos'', rq_query = [], rq_accept = [], rq_content_type = [], rq_body = []\<rparr>"
  have i: "initialize sample 0 (repo_open sample ''uuid'' (dir_at sample [] ''/data/new'')) = Some (sample_repo, Inr ())"
    using sample_created by (simp add: dir_at_def sample_def)
  have "trim ''new'' = ''new''" by code_simp
  then have "\<exists>sv' resp. handle sample_handle 0 ?rq sample_server = Some (sv', Inr (Reply resp)) \<and> status resp = 201"
    using i by (simp add: handle_def api_request_def handle_create_repo_def sample_handle_def sample_server_def sample_api_def
        sample_we_def sample_web_def reg_get_def registry_new_def register_def ohas_def api_reply_def Let_def)
  then obtain sv' resp where h: "handle sample_handle 0 ?rq sample_server = Some (sv', Inr (Reply resp))" "status resp = 201" by blast
  from routing_fixed [OF h(1)] h show ?thesis by blast
qed

theorem server_starts_witness:
  "\<exists>s. start_server sample 0 (\<lambda>n. n) (\<lambda>m. m) [] create_default_config ''/r'' = Some (Inr s) \<and> web_reachable sample_we s \<and>
     (\<exists>a nd. route ''/svn/repo1/x'' s = Inr (a, nd) \<and> nd_root nd = ''./data/repo1'')"
proof -
  have cfg: "multi_repo create_default_config \<and> mc_repositories create_default_config \<noteq> []"
    "(''repo1'', with_description ''Primary development repository'' (with_display_name ''Main Repository'' (repo_config_new ''./data/repo1'')))
       \<in> set (mc_repositories create_default_config)"
    "distinct (map fst (mc_repositories create_default_config))"
    by (simp_all add: create_default_config_def)
  have W: "we_repo sample_we = sample" by (simp add: sample_we_def)
  have "env_ok (we_repo sample_we)" "dirs_clean (we_repo sample_we) []" by (simp_all add: W sample_ok dirs_clean_def)
  from server_starts [where walk = "\<lambda>m. m" and cfg = create_default_config, OF this cfg(3) refl, of 0 "\<lambda>n. n" "''/r''"]
  obtain s where s: "start_server sample 0 (\<lambda>n. n) (\<lambda>m. m) [] create_default_config ''/r'' = Some (Inr s)" "web_reachable sample_we s"
    "\<forall>name c rest. (name, c) \<in> set (mc_repositories create_default_config) \<and> name \<noteq> [] \<and> CHR ''/'' \<notin> set name \<and>
       (rest = [] \<or> hd rest = CHR ''/'') \<longrightarrow>
       (\<exists>a nd. route (''/svn/'' @ name @ rest) s = Inr (a, nd) \<and> nd_root nd = rc_path c \<and> keeps_dir sample [] (rc_path c) (nd_repo nd))"
    using cfg(1) unfolding W by auto
  have "\<exists>a nd. route (''/svn/'' @ ''repo1'' @ ''/x'') s = Inr (a, nd) \<and> nd_root nd =
      rc_path (with_description ''Primary development repository'' (with_display_name ''Main Repository'' (repo_config_new ''./data/repo1'')))"
    using s(3) [rule_format, of "''repo1''" _ "''/x''"] cfg(2) by fastforce
  with s(1,2) show ?thesis by (auto simp: with_description_def with_display_name_def repo_config_new_def)
qed

end
