(* ===== verification/Spec2Isabelle.thy ===== *)
theory Spec2Isabelle
  imports Repository_Properties Property_Store Auth Authz Packfile Sync_State Replication Storage
    Persistent Svndiff Webdav_Text Webdav_Reports Proppatch Webdav_Server Webdav_Transactions Dump_Load
    Foreign_Input Sync_Compat Admin_Properties Webdav_Start
begin

text \<open>
  \<^bold>\<open>A verification library for DSvn\<close>, a Subversion-compatible server in Rust.

  \<^bold>\<open>The program.\<close> \<^verbatim>\<open>dsvn-core\<close> holds the object model, the repository back ends (SQLite, in
  memory, JSON files), properties, hooks, authentication and authorization, packfiles and storage
  tiers, and the types of the replication protocol. \<^verbatim>\<open>dsvn-webdav\<close> serves a registry of SQLite
  repositories over WebDAV: a commit is a \<^verbatim>\<open>POST\<close> or \<^verbatim>\<open>MKACTIVITY\<close> that opens a transaction, \<^verbatim>\<open>PUT\<close>s
  whose svndiff bodies are decoded and staged, a \<^verbatim>\<open>PROPPATCH\<close> with the log message and a \<^verbatim>\<open>MERGE\<close>
  that edits the working tree and commits. \<^verbatim>\<open>REPORT\<close>s read the history, the dump handlers write and
  read the Subversion dump format and the sync handlers serve revisions and objects to mirrors.
  \<^verbatim>\<open>dsvn-server\<close> starts it, \<^verbatim>\<open>dsvn-admin\<close> works on a repository directory, and \<^verbatim>\<open>dsvnsync\<close> mirrors a
  local or remote repository.

  \<^bold>\<open>Theories and sources\<close> (under \<^verbatim>\<open>src/\<close>). Definitions have the name of the Rust item, with a
  prefix where two components use the same name (\<open>mem_\<close>, \<open>pers_\<close>, \<open>sp_\<close>, \<open>hot_\<close>).

  \<^item> \<open>Prelude\<close>: results as sums, ordered finite maps (\<open>omap\<close>: \<^verbatim>\<open>BTreeMap\<close>, directories of files,
    SQL tables with a primary key), the string functions of the Rust library, little-endian
    numbers. \<open>Utf8\<close> and \<open>Md5\<close>: lossy decoding and the digest on 32-bit words.
  \<^item> \<open>Object_Model\<close> (\<^verbatim>\<open>dsvn-core/src/object.rs\<close>), \<open>Hooks\<close> (\<^verbatim>\<open>hooks.rs\<close>).
  \<^item> \<open>Sqlite_Repository\<close> (\<^verbatim>\<open>sqlite_repository.rs\<close>): the record \<open>repo\<close> has the two tables of
    \<^verbatim>\<open>tree.sqlite\<close>, the files of the repository directory and the tree cache; one definition per
    method. \<open>Sqlite_Tables\<close>, \<open>Sqlite_History\<close>, \<open>Sqlite_Commit\<close> and \<open>Sqlite_Behaviour\<close> hold the
    lemmas: the working tree, the specification \<open>tree_of\<close> of a revision (all deltas applied from
    revision 0), the invariant, the states reachable by any sequence of operations, restarts and
    losses of the working-tree database. \<open>Sqlite_Changes\<close> has the shape of recorded changes,
    \<open>Sqlite_Growth\<close> what no operation can lose, and \<open>Tree_Walk\<close> what walking a tree rests on.
  \<^item> \<open>Revision_Store\<close>, \<open>Mem_Repository\<close> (\<^verbatim>\<open>repository.rs\<close>), \<open>Repository_Properties\<close>: the contract of a
    versioned repository and what follows for its three implementations.
  \<^item> \<open>Property_Store\<close> (\<^verbatim>\<open>properties.rs\<close> and the store in \<^verbatim>\<open>sqlite_repository.rs\<close>), \<open>Persistent\<close>
    (\<^verbatim>\<open>persistent.rs\<close>), \<open>Storage\<close> (\<^verbatim>\<open>storage.rs\<close>, \<^verbatim>\<open>hot_store.rs\<close>), \<open>Packfile\<close> (\<^verbatim>\<open>packfile.rs\<close>),
    \<open>Auth\<close> (\<^verbatim>\<open>auth.rs\<close>), \<open>Authz\<close> (\<^verbatim>\<open>authz.rs\<close>), \<open>Sync_State\<close> (\<^verbatim>\<open>sync.rs\<close>), \<open>Replication\<close>
    (\<^verbatim>\<open>replication.rs\<close>).
  \<^item> \<open>Svndiff\<close>, \<open>Webdav_Text\<close>, \<open>Webdav_Reports\<close>, \<open>Webdav_Server\<close>, \<open>Webdav_Update\<close>, \<open>Webdav_Routes\<close>
    (\<^verbatim>\<open>dsvn-webdav/src/handlers.rs\<close>) and \<open>Proppatch\<close> (\<^verbatim>\<open>proppatch.rs\<close>): the decoder, the text
    search on request bodies, the reports, the registry and the transaction handlers over the
    record \<open>web\<close> (registry, heap of repositories, transaction table, sequence counter), the update
    report, \<^verbatim>\<open>OPTIONS\<close> and \<^verbatim>\<open>PROPFIND\<close>. \<open>Webdav_Transactions\<close> has the states that requests reach.
  \<^item> \<open>Webdav_Handle\<close> (\<^verbatim>\<open>lib.rs\<close>, \<^verbatim>\<open>repo_management.rs\<close>, \<^verbatim>\<open>dsvn-server/src/main.rs\<close>): the dispatch
    \<open>handle\<close> of every request, the management API and the start of the server. \<open>Webdav_Serving\<close> and
    \<open>Webdav_Start\<close> hold what follows for the server as a whole.
  \<^item> \<open>Dump_Format\<close>, \<open>Dump_Handlers\<close> (\<^verbatim>\<open>dump_handlers.rs\<close>): records, reader, writer and loader of
    dumps; \<open>Dump_Roundtrip\<close>, \<open>Dump_Properties\<close>, \<open>Dump_Load\<close>: what a reader makes of the writer's
    records, and that loading a dump reproduces the history.
  \<^item> \<open>Sync_Endpoints\<close> (\<^verbatim>\<open>sync_handlers.rs\<close>), \<open>Sync_Client\<close> (\<^verbatim>\<open>dsvnsync-cli/src/protocol.rs\<close>,
    \<^verbatim>\<open>transfer.rs\<close>, \<^verbatim>\<open>remote.rs\<close>), \<open>Sync_Compat\<close> (\<^verbatim>\<open>compat.rs\<close>, \<^verbatim>\<open>main.rs\<close>): mirroring, over the record
    \<open>site\<close> (a repository with the files next to it). \<open>Sync_Replay\<close>, \<open>Sync_Mirror\<close>,
    \<open>Sync_Properties\<close>, \<open>Sync_Samples\<close>, \<open>Sync_Guarantees\<close>: replaying changes as a simulation.
    \<open>Foreign_Input\<close>: input from an arbitrary server or file.
  \<^item> \<open>Admin_Dump\<close> (\<^verbatim>\<open>dsvn-admin-cli/src/dump.rs\<close>, \<^verbatim>\<open>load.rs\<close>), \<open>Admin_Commands\<close> (\<^verbatim>\<open>main.rs\<close>,
    \<^verbatim>\<open>verify_mod.rs\<close>), \<open>Admin_Properties\<close>: the administration tool.
  \<^item> \<open>Codecs\<close> and \<open>Sample_Environment\<close>: concrete instances of the external code for the
    witnesses.

  \<^bold>\<open>Interfaces\<close> are locales, interpreted on the definitions: \<open>key_value\<close> (stores and maps),
  \<open>revision_store\<close> (\<open>commit\<close> and \<open>commit_sync\<close> of the SQLite repository, the in-memory repository),
  \<open>revision_replayer\<close> (the three clients that replay changes), \<open>dump_reader\<close> (the reader of the server
  and that of the administration tool, for one proof about the dumps that are written), \<open>property_map\<close>,
  \<open>object_store\<close>, \<open>auth_provider\<close>, \<open>authz_provider\<close> and \<open>codec\<close>.

  \<^bold>\<open>What is shown.\<close> For the SQLite repository: reconstruction of any revision through cache,
  snapshots and delta chains returns and equals the specification (C1); revisions never change
  (C2); a commit records the working tree (C3), files and deletions read back (C4, C5); the
  invariant (C16) and the form of recorded changes (C17), recovery (C18), rejected commits (C19), the
  bulk commit (C20). Transfer of histories: a dump, loaded, reproduces its repository (C6) and reads back
  exactly (C7), with either loader (C12); local and remote mirroring end with the source's history (C8,
  C9); arbitrary servers and dumps cannot change earlier revisions (C10, C11); verification, objects,
  repair and locks of mirrors (C28--C31). The server as a whole: what a checkout sends (C13), the start (C14),
  reading requests change nothing (C15), the log (C37), what a merge publishes (C38), isolation of requests
  (C39), routing (C40), svndiff (C35, C36). Administration: revision properties (C32), verification (C33).
  Other components: property stores (C21), authentication (C22), authorization (C23, C24),
  packfiles (C25), replication log and resumption (C26, C27), content hashes (C34). Several of these
  state behaviour that differs from the intended one; they describe the code as it is.

  \<^bold>\<open>External code\<close> is a parameter: SHA-256, hex, bincode, JSON, zstd, bcrypt, base64, chrono, the
  LRU cache, fjall, the \<^verbatim>\<open>md5\<close> crate, hook scripts, remote servers. \<open>externals_ok\<close>, \<open>lru_ok\<close>, \<open>zstd_ok\<close>,
  \<open>store_env_ok\<close>, \<open>pers_env_ok\<close>, \<open>net_ok\<close> and the like state what the code relies on (decoding inverts
  encoding, a cache hit is the value last put). Collision-freedom is never assumed for all inputs: where
  identifiers matter, the hypothesis speaks of the objects at hand.

  \<^bold>\<open>Bounds and fuel.\<close> Revision counters are natural numbers, with \<open>2 ^ 64\<close> where the code parses one
  (\<open>parse_u64\<close>) or where a client can reach the wrap-around (\<open>Svndiff\<close>, the peg revision, lengths in a
  dump, the range of a sync request). The loops that a damaged repository could make endless,
  \<open>collect_chain\<close> and \<open>find_all_loop\<close>, are partial functions into \<open>option\<close>; that they return is part of
  the theorems that use them. No definition uses fuel.

  \<^bold>\<open>Simplifications.\<close> Strings are byte strings; white space is ASCII. Writes to disk and database
  succeed. A handler runs as one step, as the locks it holds allow. The order in which a hash map is
  iterated is a parameter (\<open>iter_ok\<close>) or, where only counts and sets depend on it, that of the keys.
  Two configured repositories do not share a directory.

  \<^bold>\<open>Not modelled.\<close> Sockets, TLS, command lines, logging and what is only printed (\<^verbatim>\<open>info\<close>, \<^verbatim>\<open>lslocks\<close>,
  \<^verbatim>\<open>repl-log\<close>); \<^verbatim>\<open>hotcopy\<close>, a copy of a directory tree; the dump writer of the administration tool, which
  panics before it writes a revision; \<^verbatim>\<open>parse_dump_file\<close>, which only tests call; \<^verbatim>\<open>xml.rs\<close>, which no
  handler uses; \<^verbatim>\<open>persistent_v2.rs\<close>, which is not part of the build.
\<close>

end
